(* ===== verification/Prelude.thy ===== *)
theory Prelude
  imports Main "HOL-Library.Word"
begin

text \<open>
  Shared vocabulary of the development.

  \<^item> the machine integers of the sources: \<open>U256\<close>, \<open>B256\<close>, \<open>Address\<close>, \<open>u64\<close>, \<open>u32\<close>, \<open>u8\<close>
    as words of their width, with Rust's \<open>checked_\<close> and \<open>saturating_\<close> operations;
  \<^item> the error type \<open>PrecompileError\<close> of \<open>primitives/src/error.rs\<close>;
  \<^item> programs over the journaled storage of \<open>primitives/src/storage/handle.rs\<close>: reads, writes
    that the provider may refuse, early returns, and journal checkpoints;
  \<^item> big-endian byte strings, and sums of word-valued maps over a finite key type.

  A typed contract field (\<open>Value\<close>, \<open>Map\<close>) is a field of a record, a mapping being a total
  function that is zero where nothing was written, as EVM storage is.
\<close>

named_theorems prog_ok "which runs of a program succeed"
named_theorems prog_run "execution of a program, step by step"
named_theorems prog_err "which runs of a program fail"
named_theorems atomic_intros "a failed run leaves the store as it was"
named_theorems pure_intros "a run never changes the store"
named_theorems safe_rules "which errors a run can end with"

type_synonym u8 = "8 word"
type_synonym u16 = "16 word"
type_synonym u32 = "32 word"
type_synonym u64 = "64 word"
type_synonym u128 = "128 word"
type_synonym u256 = "256 word"
type_synonym b256 = "256 word"
type_synonym address = "160 word"
type_synonym bytes = "8 word list"

section \<open>Checked and saturating integer arithmetic\<close>

definition checked_add :: "'a::len word \<Rightarrow> 'a word \<Rightarrow> 'a word option" where
  "checked_add a b = (if uint a + uint b < 2 ^ LENGTH('a) then Some (a + b) else None)"

definition checked_sub :: "'a::len word \<Rightarrow> 'a word \<Rightarrow> 'a word option" where
  "checked_sub a b = (if b \<le> a then Some (a - b) else None)"

definition checked_mul :: "'a::len word \<Rightarrow> 'a word \<Rightarrow> 'a word option" where
  "checked_mul a b = (if uint a * uint b < 2 ^ LENGTH('a) then Some (a * b) else None)"

definition saturating_add :: "'a::len word \<Rightarrow> 'a word \<Rightarrow> 'a word" where
  "saturating_add a b = (if uint a + uint b < 2 ^ LENGTH('a) then a + b else - 1)"

definition saturating_sub :: "'a::len word \<Rightarrow> 'a word \<Rightarrow> 'a word" where
  "saturating_sub a b = (if b \<le> a then a - b else 0)"

section \<open>Errors\<close>

text \<open>
  A module raises either a value of its own error enumeration or a message. The \<open>From\<close>
  implementation of each module decides which variant of \<open>PrecompileError\<close> carries it. The
  rendered text and the ABI encoding of the payload are left out: the payload is kept as a value.
\<close>

datatype 'e detail = Typed 'e | Text string

datatype 'e precompile_error =
    OutOfGas
  | Revert "'e detail"
  | RevertBytes "'e detail"
  | Fatal "'e detail"

section \<open>Programs over journaled storage\<close>

text \<open>
  \<open>store\<close> is the contract storage with the logs emitted so far. \<open>budget\<close> is the number of
  further mutating provider calls (\<open>sstore\<close>, \<open>emit_event\<close>, balance changes) that succeed before
  the provider reports an error: any single one of them can fail in the middle of an operation,
  and a journal revert gives back the storage but not the budget.
\<close>

record 'c journal =
  store :: 'c
  budget :: nat

type_synonym ('c, 'e, 'a) prog =
  "'c journal \<Rightarrow> ('e precompile_error + 'a) \<times> 'c journal"

definition retM :: "'a \<Rightarrow> ('c, 'e, 'a) prog" where
  "retM a = (\<lambda>s. (Inr a, s))"

definition failM :: "'e precompile_error \<Rightarrow> ('c, 'e, 'a) prog" where
  "failM e = (\<lambda>s. (Inl e, s))"

definition bindM :: "('c, 'e, 'a) prog \<Rightarrow> ('a \<Rightarrow> ('c, 'e, 'b) prog) \<Rightarrow> ('c, 'e, 'b) prog" where
  "bindM m f = (\<lambda>s. case m s of (Inl e, t) \<Rightarrow> (Inl e, t) | (Inr a, t) \<Rightarrow> f a t)"

definition getsM :: "('c \<Rightarrow> 'a) \<Rightarrow> ('c, 'e, 'a) prog" where
  "getsM f = (\<lambda>s. (Inr (f (store s)), s))"

definition writeM :: "('c \<Rightarrow> 'c) \<Rightarrow> ('c, 'e, unit) prog" where
  "writeM f = (\<lambda>s. case budget s of
      0 \<Rightarrow> (Inl OutOfGas, s)
    | Suc n \<Rightarrow> (Inr (), s\<lparr>store := f (store s), budget := n\<rparr>))"

text \<open>\<open>ok_or_else\<close> followed by the question mark operator.\<close>

definition requireM :: "bool \<Rightarrow> 'e precompile_error \<Rightarrow> ('c, 'e, unit) prog" where
  "requireM b e = (if b then retM () else failM e)"

definition unwrapM :: "'a option \<Rightarrow> 'e precompile_error \<Rightarrow> ('c, 'e, 'a) prog" where
  "unwrapM x e = (case x of None \<Rightarrow> failM e | Some a \<Rightarrow> retM a)"

text \<open>\<open>StorageHandle::with_checkpoint\<close>: the guard reverts the journal unless it is committed.\<close>

definition with_checkpoint :: "('c, 'e, 'a) prog \<Rightarrow> ('c, 'e, 'a) prog" where
  "with_checkpoint m = (\<lambda>s. case m s of
      (Inl e, t) \<Rightarrow> (Inl e, t\<lparr>store := store s\<rparr>)
    | (Inr a, t) \<Rightarrow> (Inr a, t))"

text \<open>A program of one contract run inside a larger state that holds the contract's storage.\<close>

definition zoomM :: "('w \<Rightarrow> 'c) \<Rightarrow> ('c \<Rightarrow> 'w \<Rightarrow> 'w) \<Rightarrow> ('c, 'e, 'a) prog \<Rightarrow> ('w, 'e, 'a) prog" where
  "zoomM get put m = (\<lambda>s. case m \<lparr>store = get (store s), budget = budget s\<rparr> of
      (r, t) \<Rightarrow> (r, s\<lparr>store := put (store t) (store s), budget := budget t\<rparr>))"

fun forEachM :: "('x \<Rightarrow> ('c, 'e, unit) prog) \<Rightarrow> 'x list \<Rightarrow> ('c, 'e, unit) prog" where
  "forEachM f [] = retM ()"
| "forEachM f (x # xs) = bindM (f x) (\<lambda>_. forEachM f xs)"

fun traverseM :: "('x \<Rightarrow> ('c, 'e, 'a) prog) \<Rightarrow> 'x list \<Rightarrow> ('c, 'e, 'a list) prog" where
  "traverseM f [] = retM []"
| "traverseM f (x # xs) = bindM (f x) (\<lambda>y. bindM (traverseM f xs) (\<lambda>ys. retM (y # ys)))"

fun repeatM :: "nat \<Rightarrow> ('c, 'e, 'a) prog \<Rightarrow> ('c, 'e, 'a list) prog" where
  "repeatM 0 m = retM []"
| "repeatM (Suc n) m = bindM m (\<lambda>x. bindM (repeatM n m) (\<lambda>xs. retM (x # xs)))"

definition pure_prog :: "('c, 'e, 'a) prog \<Rightarrow> bool" where
  "pure_prog m \<longleftrightarrow> (\<forall>s. store (snd (m s)) = store s)"

definition atomic_prog :: "('c, 'e, 'a) prog \<Rightarrow> bool" where
  "atomic_prog m \<longleftrightarrow> (\<forall>s e t. m s = (Inl e, t) \<longrightarrow> store t = store s)"

text \<open>A run that ends in an error of \<open>E\<close>, or succeeds in a state of \<open>Q\<close>.\<close>

definition safeM ::
    "('e precompile_error \<Rightarrow> bool) \<Rightarrow> ('c, 'e, 'a) prog \<Rightarrow> ('a \<Rightarrow> 'c journal \<Rightarrow> bool) \<Rightarrow> 'c journal \<Rightarrow> bool" where
  "safeM E m Q s \<longleftrightarrow> (case m s of (Inl e, _) \<Rightarrow> E e | (Inr a, t) \<Rightarrow> Q a t)"

definition keeps :: "('c \<Rightarrow> bool) \<Rightarrow> ('c, 'e, 'a) prog \<Rightarrow> bool" where
  "keeps I m \<longleftrightarrow> (\<forall>s. I (store s) \<longrightarrow> I (store (snd (m s))))"

text \<open>
  The states a contract reaches when calls arrive one after another, each with some budget. A call
  carries its caller, its value and the environment of the block it runs in; \<open>ok\<close> says which
  calls the chain can make.
\<close>

inductive contract_reach ::
    "('call \<Rightarrow> ('c, 'e, 'r) prog) \<Rightarrow> ('call \<Rightarrow> bool) \<Rightarrow> 'c \<Rightarrow> 'c \<Rightarrow> bool"
  for dispatch ok c0 where
  start: "contract_reach dispatch ok c0 c0"
| step: "contract_reach dispatch ok c0 c \<Longrightarrow> ok call \<Longrightarrow>
    dispatch call \<lparr>store = c, budget = b\<rparr> = (r, t) \<Longrightarrow> contract_reach dispatch ok c0 (store t)"

text \<open>A table of balances and its recorded total.\<close>

definition conserved :: "('k::finite \<Rightarrow> 'w::len word) \<Rightarrow> 'w word \<Rightarrow> bool" where
  "conserved f tot \<longleftrightarrow> (\<Sum>a\<in>UNIV. unat (f a)) = unat tot"

section \<open>Byte strings\<close>

text \<open>\<open>to_be_bytes\<close> and \<open>from_be_bytes\<close>.\<close>

fun be_bytes :: "nat \<Rightarrow> int \<Rightarrow> bytes" where
  "be_bytes 0 v = []"
| "be_bytes (Suc n) v = be_bytes n (v div 256) @ [word_of_int (v mod 256)]"

definition be_int :: "bytes \<Rightarrow> int" where
  "be_int bs = foldl (\<lambda>acc b. acc * 256 + uint b) 0 bs"

definition address_bytes :: "address \<Rightarrow> bytes" where
  "address_bytes a = be_bytes 20 (uint a)"

definition word_bytes :: "u256 \<Rightarrow> bytes" where
  "word_bytes w = be_bytes 32 (uint w)"

definition address_of_bytes :: "bytes \<Rightarrow> address" where
  "address_of_bytes bs = word_of_int (be_int bs)"

section \<open>Lemmas on checked arithmetic\<close>

lemma uint_sum_bound:
  "uint a + uint b < 2 ^ LENGTH('a) \<longleftrightarrow> unat a + unat b < 2 ^ LENGTH('a)" for a b :: "'a::len word"
proof -
  have "uint a + uint b < 2 ^ LENGTH('a) \<longleftrightarrow> int (unat a + unat b) < int (2 ^ LENGTH('a))"
    by simp
  then show ?thesis by (simp only: of_nat_less_iff)
qed

lemma uint_prod_bound:
  "uint a * uint b < 2 ^ LENGTH('a) \<longleftrightarrow> unat a * unat b < 2 ^ LENGTH('a)" for a b :: "'a::len word"
proof -
  have "uint a * uint b < 2 ^ LENGTH('a) \<longleftrightarrow> int (unat a * unat b) < int (2 ^ LENGTH('a))"
    by simp
  then show ?thesis by (simp only: of_nat_less_iff)
qed

lemma checked_add_Some [simp]:
  "checked_add a b = Some c \<longleftrightarrow> unat a + unat b < 2 ^ LENGTH('a) \<and> c = a + b"
  for a b :: "'a::len word"
  by (auto simp: checked_add_def uint_sum_bound)

lemma checked_add_None [simp]:
  "checked_add a b = None \<longleftrightarrow> 2 ^ LENGTH('a) \<le> unat a + unat b" for a b :: "'a::len word"
  by (auto simp: checked_add_def uint_sum_bound)

lemma checked_sub_Some [simp]: "checked_sub a b = Some c \<longleftrightarrow> b \<le> a \<and> c = a - b"
  by (auto simp: checked_sub_def)

lemma checked_sub_None [simp]: "checked_sub a b = None \<longleftrightarrow> a < b"
  by (auto simp: checked_sub_def)

lemma checked_mul_Some [simp]:
  "checked_mul a b = Some c \<longleftrightarrow> unat a * unat b < 2 ^ LENGTH('a) \<and> c = a * b"
  for a b :: "'a::len word"
  by (auto simp: checked_mul_def uint_prod_bound)

lemma saturating_add_alt:
  "saturating_add a b = (if unat a + unat b < 2 ^ LENGTH('a) then a + b else - 1)"
  for a b :: "'a::len word"
  by (simp add: saturating_add_def uint_sum_bound)

lemma unat_add_exact:
  "unat a + unat b < 2 ^ LENGTH('a) \<Longrightarrow> unat (a + b) = unat a + unat b" for a b :: "'a::len word"
  by (simp add: unat_word_ariths)

lemma unat_sub_exact: "b \<le> a \<Longrightarrow> unat (a - b) = unat a - unat b" for a b :: "'a::len word"
  by (rule unat_sub)

lemma unat_mult_exact:
  "unat a * unat b < 2 ^ LENGTH('a) \<Longrightarrow> unat (a * b) = unat a * unat b" for a b :: "'a::len word"
  by (simp add: unat_word_ariths)

lemma saturating_sub_unat: "unat (saturating_sub a b) = unat a - unat b"
  by (auto simp: saturating_sub_def unat_sub word_le_nat_alt)

lemma unat_bound: "unat w < 2 ^ LENGTH('a)" for w :: "'a::len word"
  by (rule unsigned_less)

lemma unat_of_nat_exact: "n < 2 ^ LENGTH('a) \<Longrightarrow> unat (word_of_nat n :: 'a::len word) = n"
  by (simp add: unat_of_nat)

lemma word_of_nat_eq:
  assumes "i < 2 ^ LENGTH('a)" "j < 2 ^ LENGTH('a)"
  shows "(word_of_nat i :: 'a::len word) = word_of_nat j \<longleftrightarrow> i = j"
  using assms by (metis unat_of_nat_exact)

lemma word_of_nat_Suc_nonzero: "Suc i < 2 ^ LENGTH('a) \<Longrightarrow> (1 + word_of_nat i :: 'a::len word) \<noteq> 0"
  using word_of_nat_eq[of "Suc i" 0, where 'a = 'a] by simp

lemma unat_ucast_small: "unat w < 2 ^ LENGTH('b) \<Longrightarrow> unat (ucast w :: 'b::len word) = unat w"
  for w :: "'a::len word"
  by (simp add: unsigned_ucast_eq take_bit_nat_eq_self)

lemma unat_ucast_up: "LENGTH('a) \<le> LENGTH('b) \<Longrightarrow> unat (ucast w :: 'b::len word) = unat w"
  for w :: "'a::len word"
  using unat_bound[of w] power_increasing[of "LENGTH('a)" "LENGTH('b)" "2::nat"]
  by (intro unat_ucast_small) linarith

lemma unat_pos: "0 < unat w \<longleftrightarrow> w \<noteq> 0"
  using unat_eq_zero[of w] by auto

lemma unat_le: "unat a \<le> unat b \<longleftrightarrow> a \<le> b"
  by (simp add: word_le_nat_alt)

lemma unat_less: "unat a < unat b \<longleftrightarrow> a < b"
  by (simp add: word_less_nat_alt)

lemmas word_exact = unat_add_exact unat_sub_exact unat_mult_exact saturating_sub_unat

section \<open>Lemmas on sums over a finite key type\<close>

lemma sum_fun_upd:
  fixes f :: "'k::finite \<Rightarrow> nat"
  shows "(\<Sum>a\<in>UNIV. (f(x := v)) a) + f x = (\<Sum>a\<in>UNIV. f a) + v"
proof -
  have "(\<Sum>a\<in>UNIV. (f(x := v)) a) = v + (\<Sum>a\<in>UNIV - {x}. (f(x := v)) a)"
    by (subst sum.remove[of UNIV x]) auto
  also have "(\<Sum>a\<in>UNIV - {x}. (f(x := v)) a) = (\<Sum>a\<in>UNIV - {x}. f a)"
    by (rule sum.cong) auto
  finally show ?thesis
    by (simp add: sum.remove[of UNIV x f])
qed

lemma sum_unat_upd:
  fixes f :: "'k::finite \<Rightarrow> 'a::len word"
  shows "(\<Sum>a\<in>UNIV. unat ((f(x := v)) a)) + unat (f x) = (\<Sum>a\<in>UNIV. unat (f a)) + unat v"
proof -
  have "(\<lambda>a. unat ((f(x := v)) a)) = (\<lambda>a. unat (f a))(x := unat v)"
    by auto
  then show ?thesis
    using sum_fun_upd[of "\<lambda>a. unat (f a)" x "unat v"] by presburger
qed

lemma sum_unat_member:
  fixes f :: "'k::finite \<Rightarrow> 'a::len word"
  shows "unat (f x) \<le> (\<Sum>a\<in>UNIV. unat (f a))"
  by (rule member_le_sum) auto

lemma sum_unat_pair:
  fixes f :: "'k::finite \<Rightarrow> 'a::len word"
  assumes "x \<noteq> y"
  shows "unat (f x) + unat (f y) \<le> (\<Sum>a\<in>UNIV. unat (f a))"
proof -
  have "(\<Sum>a\<in>{x, y}. unat (f a)) \<le> (\<Sum>a\<in>UNIV. unat (f a))"
    by (rule sum_mono2) auto
  with assms show ?thesis by simp
qed

section \<open>Lemmas on programs\<close>

lemma bindM_ok [prog_ok]:
  "bindM m f s = (Inr b, t) \<longleftrightarrow> (\<exists>a u. m s = (Inr a, u) \<and> f a u = (Inr b, t))"
  by (auto simp: bindM_def split: prod.splits sum.splits)

lemma bindM_err [prog_err]:
  "bindM m f s = (Inl e, t) \<longleftrightarrow>
     m s = (Inl e, t) \<or> (\<exists>a u. m s = (Inr a, u) \<and> f a u = (Inl e, t))"
  by (auto simp: bindM_def split: prod.splits sum.splits)

lemma bindM_run: "m s = (Inr a, u) \<Longrightarrow> bindM m f s = f a u"
  by (simp add: bindM_def)

lemma bindM_stop: "m s = (Inl e, u) \<Longrightarrow> bindM m f s = (Inl e, u)"
  by (simp add: bindM_def)

lemma bindM_assoc [prog_run]: "bindM (bindM m f) g = bindM m (\<lambda>a. bindM (f a) g)"
  by (auto simp: bindM_def fun_eq_iff split: prod.splits sum.splits)

lemma bindM_getsM [prog_run]: "bindM (getsM f) g s = g (f (store s)) s"
  by (simp add: bindM_def getsM_def)

lemma bindM_retM [prog_run]: "bindM (retM a) g = g a"
  by (simp add: bindM_def retM_def)

lemma bindM_failM [prog_run]: "bindM (failM e) g = failM e"
  by (simp add: bindM_def failM_def)

lemma bindM_if [prog_run]: "bindM (if b then m else n) g = (if b then bindM m g else bindM n g)"
  by simp

lemma bindM_writeM [prog_run]:
  "bindM (writeM f) g s =
     (if budget s = 0 then (Inl OutOfGas, s)
      else g () (s\<lparr>store := f (store s), budget := budget s - 1\<rparr>))"
  by (auto simp: bindM_def writeM_def split: nat.splits)

lemma bindM_requireM [prog_run]:
  "bindM (requireM b e) g = (if b then g () else failM e)"
  by (auto simp: requireM_def prog_run)

lemma bindM_unwrapM [prog_run]:
  "bindM (unwrapM x e) g = (case x of None \<Rightarrow> failM e | Some a \<Rightarrow> g a)"
  by (auto simp: unwrapM_def prog_run split: option.splits)

lemma retM_ok [prog_ok]: "retM a s = (Inr b, t) \<longleftrightarrow> b = a \<and> t = s"
  by (auto simp: retM_def)

lemma retM_err [prog_err]: "retM a s \<noteq> (Inl e, t)"
  by (simp add: retM_def)

lemma failM_ok [prog_ok]: "failM e s \<noteq> (Inr b, t)"
  by (simp add: failM_def)

lemma failM_err [prog_err]: "failM e s = (Inl e', t) \<longleftrightarrow> e' = e \<and> t = s"
  by (auto simp: failM_def)

lemma getsM_ok [prog_ok]: "getsM f s = (Inr b, t) \<longleftrightarrow> b = f (store s) \<and> t = s"
  by (auto simp: getsM_def)

lemma getsM_err [prog_err]: "getsM f s \<noteq> (Inl e, t)"
  by (simp add: getsM_def)

lemma writeM_ok [prog_ok]:
  "writeM f s = (Inr b, t) \<longleftrightarrow>
     0 < budget s \<and> t = s\<lparr>store := f (store s), budget := budget s - 1\<rparr>"
  by (auto simp: writeM_def split: nat.splits)

lemma writeM_err [prog_err]:
  "writeM f s = (Inl e, t) \<longleftrightarrow> budget s = 0 \<and> e = OutOfGas \<and> t = s"
  by (auto simp: writeM_def split: nat.splits)

lemma requireM_ok [prog_ok]: "requireM b e s = (Inr x, t) \<longleftrightarrow> b \<and> t = s"
  by (auto simp: requireM_def retM_def failM_def)

lemma requireM_err [prog_err]: "requireM b e s = (Inl e', t) \<longleftrightarrow> \<not> b \<and> e' = e \<and> t = s"
  by (auto simp: requireM_def retM_def failM_def)

lemma unwrapM_ok [prog_ok]: "unwrapM x e s = (Inr a, t) \<longleftrightarrow> x = Some a \<and> t = s"
  by (auto simp: unwrapM_def retM_def failM_def split: option.splits)

lemma unwrapM_err [prog_err]: "unwrapM x e s = (Inl e', t) \<longleftrightarrow> x = None \<and> e' = e \<and> t = s"
  by (auto simp: unwrapM_def retM_def failM_def split: option.splits)

lemma with_checkpoint_ok [prog_ok]: "with_checkpoint m s = (Inr a, t) \<longleftrightarrow> m s = (Inr a, t)"
  by (auto simp: with_checkpoint_def split: prod.splits sum.splits)

lemma if_prog_ok [prog_ok]: "(if b then m else n) s = (if b then m s else n s)"
  by simp

lemma unit_result [simp]: "(\<exists>x::unit. P x) \<longleftrightarrow> P ()"
  by auto

lemma with_checkpoint_err:
  "with_checkpoint m s = (Inl e, t) \<longleftrightarrow> (\<exists>u. m s = (Inl e, u) \<and> t = u\<lparr>store := store s\<rparr>)"
  by (auto simp: with_checkpoint_def split: prod.splits sum.splits)

lemma pure_retM [pure_intros]: "pure_prog (retM a)"
  by (simp add: pure_prog_def retM_def)

lemma pure_failM [pure_intros]: "pure_prog (failM e)"
  by (simp add: pure_prog_def failM_def)

lemma pure_getsM [pure_intros]: "pure_prog (getsM f)"
  by (simp add: pure_prog_def getsM_def)

lemma pure_requireM [pure_intros]: "pure_prog (requireM b e)"
  by (simp add: requireM_def pure_intros)

lemma pure_unwrapM [pure_intros]: "pure_prog (unwrapM x e)"
  by (simp add: unwrapM_def pure_intros split: option.splits)

lemma pure_bindM [pure_intros]:
  assumes "pure_prog m" and "\<And>a. pure_prog (f a)"
  shows "pure_prog (bindM m f)"
  using assms
  by (auto simp: pure_prog_def bindM_def split: prod.splits sum.splits)
    (metis snd_conv)+

lemma pure_if [pure_intros]:
  "pure_prog m \<Longrightarrow> pure_prog n \<Longrightarrow> pure_prog (if b then m else n)"
  by simp

lemma pure_store: "pure_prog m \<Longrightarrow> m s = (r, t) \<Longrightarrow> store t = store s"
  unfolding pure_prog_def by (metis snd_conv)

lemma atomic_pure: "pure_prog m \<Longrightarrow> atomic_prog m"
  by (auto simp: atomic_prog_def dest: pure_store)

lemma atomic_retM [atomic_intros]: "atomic_prog (retM a)"
  by (rule atomic_pure[OF pure_retM])

lemma atomic_failM [atomic_intros]: "atomic_prog (failM e)"
  by (rule atomic_pure[OF pure_failM])

lemma atomic_getsM [atomic_intros]: "atomic_prog (getsM f)"
  by (rule atomic_pure[OF pure_getsM])

lemma atomic_unwrapM [atomic_intros]: "atomic_prog (unwrapM x e)"
  by (rule atomic_pure[OF pure_unwrapM])

lemma atomic_requireM [atomic_intros]: "atomic_prog (requireM b e)"
  by (rule atomic_pure[OF pure_requireM])

lemma atomic_with_checkpoint [atomic_intros]: "atomic_prog (with_checkpoint m)"
  by (auto simp: atomic_prog_def with_checkpoint_err)

lemma atomic_writeM [atomic_intros]: "atomic_prog (writeM f)"
  by (simp add: atomic_prog_def prog_err)

lemma atomic_bindM [atomic_intros]:
  assumes "pure_prog m" and "\<And>a. atomic_prog (f a)"
  shows "atomic_prog (bindM m f)"
  unfolding atomic_prog_def
proof (intro allI impI)
  fix s e t
  assume "bindM m f s = (Inl e, t)"
  then consider "m s = (Inl e, t)" | a u where "m s = (Inr a, u)" and "f a u = (Inl e, t)"
    by (auto simp: prog_err)
  then show "store t = store s"
  proof cases
    case 1
    then show ?thesis by (rule pure_store[OF assms(1)])
  next
    case 2
    from 2(1) have "store u = store s" by (rule pure_store[OF assms(1)])
    moreover have "store t = store u"
      using assms(2)[of a] 2(2) by (auto simp: atomic_prog_def)
    ultimately show ?thesis by simp
  qed
qed

lemma atomic_if [atomic_intros]:
  "atomic_prog m \<Longrightarrow> atomic_prog n \<Longrightarrow> atomic_prog (if b then m else n)"
  by simp

lemma pure_forEachM [pure_intros]: "(\<And>x. pure_prog (f x)) \<Longrightarrow> pure_prog (forEachM f xs)"
  by (induction xs) (simp_all add: pure_intros)

lemma pure_traverseM [pure_intros]: "(\<And>x. pure_prog (f x)) \<Longrightarrow> pure_prog (traverseM f xs)"
  by (induction xs) (simp_all add: pure_intros)

lemma pure_case_option [pure_intros]:
  "pure_prog m \<Longrightarrow> (\<And>a. pure_prog (f a)) \<Longrightarrow> pure_prog (case x of None \<Rightarrow> m | Some a \<Rightarrow> f a)"
  by (cases x) simp_all

lemma atomic_case_option [atomic_intros]:
  "atomic_prog m \<Longrightarrow> (\<And>a. atomic_prog (f a)) \<Longrightarrow> atomic_prog (case x of None \<Rightarrow> m | Some a \<Rightarrow> f a)"
  by (cases x) simp_all

text \<open>A write that nothing can follow but a return.\<close>

lemma atomic_bind_retM: "atomic_prog m \<Longrightarrow> atomic_prog (bindM m (\<lambda>a. retM (f a)))"
  by (auto simp: atomic_prog_def prog_err)

lemma atomic_progD: "atomic_prog m \<Longrightarrow> m s = (Inl e, t) \<Longrightarrow> store t = store s"
  by (auto simp: atomic_prog_def)

lemma keeps_atomicI:
  fixes m :: "('c, 'e, 'a) prog"
  assumes "atomic_prog m"
    and "\<And>s a t. m s = (Inr a, t) \<Longrightarrow> I (store s) \<Longrightarrow> I (store t)"
  shows "keeps I m"
  unfolding keeps_def
proof (intro allI impI)
  fix s :: "'c journal"
  assume I: "I (store s)"
  obtain r t where rt: "m s = (r, t)" by (cases "m s")
  show "I (store (snd (m s)))"
  proof (cases r)
    case (Inl e)
    then show ?thesis using atomic_progD[OF assms(1)] rt I by simp
  next
    case (Inr a)
    then show ?thesis using assms(2) rt I by simp
  qed
qed

lemma keepsD: "keeps I m \<Longrightarrow> I (store s) \<Longrightarrow> m s = (r, t) \<Longrightarrow> I (store t)"
  unfolding keeps_def by (metis snd_conv)

lemma keeps_pure: "pure_prog m \<Longrightarrow> keeps I m"
  by (simp add: keeps_def pure_prog_def)

section \<open>Lemmas on byte strings\<close>

lemma length_be_bytes [simp]: "length (be_bytes n v) = n"
  by (induction n arbitrary: v) auto

lemma be_int_Nil [simp]: "be_int [] = 0"
  by (simp add: be_int_def)

lemma be_int_snoc [simp]: "be_int (bs @ [b]) = be_int bs * 256 + uint b"
  by (simp add: be_int_def)

lemma uint_byte: "0 \<le> uint b \<and> uint b < 256" for b :: u8
  using uint_lt2p[of b] by simp

lemma be_int_be_bytes: "be_int (be_bytes n v) = v mod 256 ^ n"
proof (induction n arbitrary: v)
  case (Suc n)
  have "uint (word_of_int (v mod 256) :: u8) = v mod 256"
    by (simp add: uint_word_of_int)
  moreover have "v mod (256 * 256 ^ n) = 256 * (v div 256 mod 256 ^ n) + v mod 256"
    by (rule zmod_zmult2_eq) simp
  ultimately show ?case
    by (simp add: Suc.IH mult.commute)
qed simp

lemma be_bytes_inj:
  assumes "be_bytes n v = be_bytes n w" "0 \<le> v" "v < 256 ^ n" "0 \<le> w" "w < 256 ^ n"
  shows "v = w"
  using arg_cong[OF assms(1), of be_int] assms(2-) by (simp add: be_int_be_bytes)

lemma be_bytes_be_int: "be_bytes (length bs) (be_int bs) = bs"
proof (induction bs rule: rev_induct)
  case (snoc b bs)
  have "(be_int bs * 256 + uint b) div 256 = be_int bs" "(be_int bs * 256 + uint b) mod 256 = uint b"
    using uint_byte[of b] by simp_all
  then show ?case
    using snoc.IH by simp
qed simp

lemma be_int_bound: "0 \<le> be_int bs \<and> be_int bs < 256 ^ length bs"
proof (induction bs rule: rev_induct)
  case (snoc b bs)
  have "be_int bs * 256 + uint b < (be_int bs + 1) * 256" using uint_byte[of b] by simp
  also have "\<dots> \<le> 256 ^ length bs * 256" using snoc.IH by (intro mult_right_mono) auto
  finally show ?case using snoc.IH uint_byte[of b] by (simp add: mult.commute)
qed simp

lemma length_address_bytes [simp]: "length (address_bytes a) = 20"
  by (simp add: address_bytes_def)

lemma length_word_bytes [simp]: "length (word_bytes a) = 32"
  by (simp add: word_bytes_def)

lemma be_bytes_word_inj:
  fixes a b :: "'a::len word"
  assumes "be_bytes n (uint a) = be_bytes n (uint b)" "LENGTH('a) = 8 * n"
  shows "a = b"
proof -
  have "uint w < 256 ^ n" for w :: "'a word"
    using uint_lt2p[of w] assms(2) by (simp add: power_mult)
  then have "uint a = uint b"
    using be_bytes_inj[OF assms(1)] by simp
  then show ?thesis by (rule unsigned_word_eqI)
qed

lemma address_bytes_inj [simp]: "address_bytes a = address_bytes b \<longleftrightarrow> a = b"
  using be_bytes_word_inj[of 20 a b] by (auto simp: address_bytes_def)

lemma word_bytes_inj [simp]: "word_bytes a = word_bytes b \<longleftrightarrow> a = b"
  using be_bytes_word_inj[of 32 a b] by (auto simp: word_bytes_def)

lemma address_bytes_of_bytes:
  assumes "length bs = 20"
  shows "address_bytes (address_of_bytes bs) = bs"
proof -
  have "uint (word_of_int (be_int bs) :: address) = be_int bs"
    using be_int_bound[of bs] assms by (simp add: uint_word_of_int)
  then show ?thesis
    using be_bytes_be_int[of bs] assms by (simp add: address_bytes_def address_of_bytes_def)
qed

lemma address_of_address_bytes [simp]: "address_of_bytes (address_bytes a) = a"
  using address_bytes_of_bytes[of "address_bytes a"] by simp

section \<open>Conserved totals\<close>

lemma conserved_le: "conserved f tot \<Longrightarrow> f a \<le> tot"
  using sum_unat_member[of f a] by (simp add: conserved_def word_le_nat_alt)

lemma conserved_pair:
  assumes "conserved f tot" "a \<noteq> b"
  shows "unat (f a) + unat (f b) \<le> unat tot"
  using sum_unat_pair[OF assms(2), of f] assms(1) by (simp add: conserved_def)

lemma conserved_set:
  assumes "conserved f tot" "unat tot' + unat (f a) = unat tot + unat v"
  shows "conserved (f(a := v)) tot'"
  using assms sum_unat_upd[of f a v] unfolding conserved_def by linarith

lemma conserved_credit:
  fixes f :: "'k::finite \<Rightarrow> 'w::len word"
  assumes "conserved f tot" "unat tot + unat v < 2 ^ LENGTH('w)"
  shows "conserved (f(a := f a + v)) (tot + v)"
proof (rule conserved_set[OF assms(1)])
  have "unat (f a) \<le> unat tot" using conserved_le[OF assms(1), of a] by (simp add: word_le_nat_alt)
  then have "unat (f a + v) = unat (f a) + unat v" "unat (tot + v) = unat tot + unat v"
    using assms(2) by (simp_all add: unat_add_exact)
  then show "unat (tot + v) + unat (f a) = unat tot + unat (f a + v)" by simp
qed

lemma conserved_debit:
  assumes "conserved f tot" "v \<le> f a"
  shows "conserved (f(a := f a - v)) (tot - v)"
proof (rule conserved_set[OF assms(1)])
  have "v \<le> tot" using conserved_le[OF assms(1), of a] assms(2) by (rule order_trans[rotated])
  then show "unat (tot - v) + unat (f a) = unat tot + unat (f a - v)"
    using assms(2) by (simp add: unat_sub_exact word_le_nat_alt)
qed

lemma conserved_move:
  assumes "conserved f tot" "v \<le> f a" "a \<noteq> b"
  shows "conserved (f(a := f a - v, b := f b + v)) tot"
proof -
  have debit: "conserved (f(a := f a - v)) (tot - v)" by (rule conserved_debit[OF assms(1,2)])
  have "v \<le> tot" using conserved_le[OF assms(1), of a] assms(2) by (rule order_trans[rotated])
  then have "unat (tot - v) + unat v = unat tot"
    by (simp add: unat_sub_exact word_le_nat_alt)
  then show ?thesis
    using conserved_credit[OF debit, of v b] unat_bound[of tot] assms(3) by simp
qed

section \<open>Runs with a bounded set of errors\<close>

lemma safeM_bindM [safe_rules]: "safeM E (bindM m f) Q s \<longleftrightarrow> safeM E m (\<lambda>a t. safeM E (f a) Q t) s"
  by (auto simp: safeM_def bindM_def split: prod.splits sum.splits)

lemma safeM_retM [safe_rules]: "safeM E (retM a) Q s \<longleftrightarrow> Q a s"
  by (simp add: safeM_def retM_def)

lemma safeM_failM [safe_rules]: "safeM E (failM e) Q s \<longleftrightarrow> E e"
  by (simp add: safeM_def failM_def)

lemma safeM_getsM [safe_rules]: "safeM E (getsM f) Q s \<longleftrightarrow> Q (f (store s)) s"
  by (simp add: safeM_def getsM_def)

lemma safeM_requireM [safe_rules]: "safeM E (requireM b e) Q s \<longleftrightarrow> (if b then Q () s else E e)"
  by (simp add: requireM_def safeM_retM safeM_failM)

lemma safeM_unwrapM [safe_rules]:
  "safeM E (unwrapM x e) Q s \<longleftrightarrow> (case x of None \<Rightarrow> E e | Some a \<Rightarrow> Q a s)"
  by (simp add: unwrapM_def safeM_retM safeM_failM split: option.split)

lemma safeM_writeM [safe_rules]:
  "safeM E (writeM g) Q s \<longleftrightarrow>
     (if budget s = 0 then E OutOfGas else Q () (s\<lparr>store := g (store s), budget := budget s - 1\<rparr>))"
  by (simp add: safeM_def writeM_def split: nat.split)

lemma safeM_with_checkpoint [safe_rules]: "safeM E (with_checkpoint m) Q s \<longleftrightarrow> safeM E m Q s"
  by (simp add: safeM_def with_checkpoint_def split: prod.split sum.split)

lemma safeM_if [safe_rules]:
  "safeM E (if b then m else n) Q s \<longleftrightarrow> (if b then safeM E m Q s else safeM E n Q s)"
  by simp

lemma safeM_mono: "safeM E m Q s \<Longrightarrow> (\<And>a t. Q a t \<Longrightarrow> R a t) \<Longrightarrow> safeM E m R s"
  by (auto simp: safeM_def split: prod.splits sum.splits)

lemma safeM_error: "safeM E m Q s \<Longrightarrow> m s = (Inl e, t) \<Longrightarrow> E e"
  by (simp add: safeM_def)

section \<open>Contracts whose calls are atomic\<close>

locale atomic_contract =
  fixes dispatch :: "'call \<Rightarrow> ('c, 'e, 'r) prog"
    and ok :: "'call \<Rightarrow> bool"
    and inv :: "'c \<Rightarrow> bool"
  assumes call_atomic: "atomic_prog (dispatch call)"
    and call_step: "ok call \<Longrightarrow> inv (store s) \<Longrightarrow> dispatch call s = (Inr r, t) \<Longrightarrow> inv (store t)"
begin

lemma call_keeps: "ok call \<Longrightarrow> keeps inv (dispatch call)"
  by (rule keeps_atomicI[OF call_atomic]) (rule call_step)

lemma reach_keeps: "contract_reach dispatch ok c0 c \<Longrightarrow> inv c0 \<Longrightarrow> inv c"
proof (induction rule: contract_reach.induct)
  case (step c call b r t)
  have "inv (store \<lparr>store = c, budget = b\<rparr>)" using step.IH step.prems by simp
  then show ?case using keepsD[OF call_keeps[OF step.hyps(2)]] step.hyps(3) by blast
qed

lemma failed_call: "dispatch call s = (Inl e, t) \<Longrightarrow> store t = store s"
  by (rule atomic_progD[OF call_atomic])

end

end
