(* ===== verification/Storage_Collections.thy ===== *)
theory Storage_Collections
  imports Prelude
begin

text \<open>
  The storage-backed collections of \<open>primitives/src/storage/types\<close>: \<open>StorageSet\<close>,
  \<open>StorageVec\<close>, \<open>StorageDeque\<close> and \<open>StorageCircularBuffer\<close>.

  Each collection is a record of the slots it owns. The data area starts at the hash of the base
  slot, and a position in it is the offset the code adds to that start. Disjointness of the areas
  of two collections is the collision resistance of the hash and is built into the records.
  Every \<open>sstore\<close> is one \<^const>\<open>writeM\<close>, so an operation that stops in the middle leaves the
  writes before it in place, as the code does without a checkpoint.
\<close>

section \<open>StorageSet\<close>

record 'a StorageSet =
  sset_len :: u32
  sset_value :: "nat \<Rightarrow> 'a"
  sset_position :: "'a \<Rightarrow> u32"

definition StorageSet_contains :: "'a \<Rightarrow> 'a StorageSet \<Rightarrow> bool" where
  "StorageSet_contains v s \<longleftrightarrow> sset_position s v \<noteq> 0"

definition StorageSet_at :: "u32 \<Rightarrow> 'a StorageSet \<Rightarrow> 'a option" where
  "StorageSet_at index s =
     (if index \<ge> sset_len s then None else Some (sset_value s (unat index)))"

definition StorageSet_insert :: "'a \<Rightarrow> ('a StorageSet, 'e, bool) prog" where
  "StorageSet_insert value =
     bindM (getsM (\<lambda>s. sset_position s value)) (\<lambda>pos.
     if pos \<noteq> 0 then retM False
     else
       bindM (getsM sset_len) (\<lambda>length.
       bindM (writeM (\<lambda>s. s\<lparr>sset_value := (sset_value s)(unat length := value)\<rparr>)) (\<lambda>_.
       bindM (writeM (\<lambda>s. s\<lparr>sset_position := (sset_position s)(value := length + 1)\<rparr>)) (\<lambda>_.
       bindM (writeM (\<lambda>s. s\<lparr>sset_len := length + 1\<rparr>)) (\<lambda>_.
       retM True)))))"

definition StorageSet_remove :: "'a::zero \<Rightarrow> ('a StorageSet, 'e, bool) prog" where
  "StorageSet_remove value =
     bindM (getsM (\<lambda>s. sset_position s value)) (\<lambda>pos.
     if pos = 0 then retM False
     else
       bindM (getsM sset_len) (\<lambda>length.
       let idx = pos - 1; last = length - 1 in
       bindM (if idx \<noteq> last
              then
                bindM (getsM (\<lambda>s. sset_value s (unat last))) (\<lambda>last_val.
                bindM (writeM (\<lambda>s. s\<lparr>sset_value := (sset_value s)(unat idx := last_val)\<rparr>)) (\<lambda>_.
                writeM (\<lambda>s. s\<lparr>sset_position := (sset_position s)(last_val := pos)\<rparr>)))
              else retM ()) (\<lambda>_.
       bindM (writeM (\<lambda>s. s\<lparr>sset_value := (sset_value s)(unat last := 0)\<rparr>)) (\<lambda>_.
       bindM (writeM (\<lambda>s. s\<lparr>sset_position := (sset_position s)(value := 0)\<rparr>)) (\<lambda>_.
       bindM (writeM (\<lambda>s. s\<lparr>sset_len := last\<rparr>)) (\<lambda>_.
       retM True))))))"

definition StorageSet_read_all :: "'a StorageSet \<Rightarrow> 'a list" where
  "StorageSet_read_all s = map (sset_value s) [0..<unat (sset_len s)]"

definition sset_empty :: "'a::zero StorageSet" where
  "sset_empty = \<lparr>sset_len = 0, sset_value = (\<lambda>_. 0), sset_position = (\<lambda>_. 0)\<rparr>"

text \<open>Positions and values describe the same bijection.\<close>

definition sset_inv :: "'a StorageSet \<Rightarrow> bool" where
  "sset_inv s \<longleftrightarrow>
     (\<forall>i < unat (sset_len s). unat (sset_position s (sset_value s i)) = Suc i) \<and>
     (\<forall>v i. unat (sset_position s v) = Suc i \<longrightarrow>
        i < unat (sset_len s) \<and> sset_value s i = v)"

definition sset_room :: "nat \<Rightarrow> 'a StorageSet \<Rightarrow> bool" where
  "sset_room n s \<longleftrightarrow> unat (sset_len s) + n < 2 ^ 32"

section \<open>StorageVec\<close>

record 'a StorageVec =
  svec_len :: u32
  svec_data :: "nat \<Rightarrow> 'a"

definition StorageVec_get :: "u32 \<Rightarrow> 'a StorageVec \<Rightarrow> 'a option" where
  "StorageVec_get index s =
     (if index \<ge> svec_len s then None else Some (svec_data s (unat index)))"

definition StorageVec_set :: "u32 \<Rightarrow> 'a \<Rightarrow> ('a StorageVec, 'e, unit) prog" where
  "StorageVec_set index value =
     bindM (getsM svec_len) (\<lambda>length.
     if index \<ge> length then failM (Fatal (Text ''vec index out of bounds''))
     else writeM (\<lambda>s. s\<lparr>svec_data := (svec_data s)(unat index := value)\<rparr>))"

definition StorageVec_push :: "'a \<Rightarrow> ('a StorageVec, 'e, unit) prog" where
  "StorageVec_push value =
     bindM (getsM svec_len) (\<lambda>length.
     bindM (writeM (\<lambda>s. s\<lparr>svec_data := (svec_data s)(unat length := value)\<rparr>)) (\<lambda>_.
     writeM (\<lambda>s. s\<lparr>svec_len := length + 1\<rparr>)))"

definition StorageVec_pop :: "('a::zero StorageVec, 'e, 'a option) prog" where
  "StorageVec_pop =
     bindM (getsM svec_len) (\<lambda>length.
     if length = 0 then retM None
     else
       bindM (getsM (\<lambda>s. svec_data s (unat (length - 1)))) (\<lambda>value.
       bindM (writeM (\<lambda>s. s\<lparr>svec_data := (svec_data s)(unat (length - 1) := 0)\<rparr>)) (\<lambda>_.
       bindM (writeM (\<lambda>s. s\<lparr>svec_len := length - 1\<rparr>)) (\<lambda>_.
       retM (Some value)))))"

definition StorageVec_clear :: "('a::zero StorageVec, 'e, unit) prog" where
  "StorageVec_clear =
     bindM (getsM svec_len) (\<lambda>length.
     bindM (forEachM (\<lambda>i. writeM (\<lambda>s. s\<lparr>svec_data := (svec_data s)(i := 0)\<rparr>))
              [0..<unat length]) (\<lambda>_.
     writeM (\<lambda>s. s\<lparr>svec_len := 0\<rparr>)))"

definition StorageVec_read_all :: "'a StorageVec \<Rightarrow> 'a list" where
  "StorageVec_read_all s = map (svec_data s) [0..<unat (svec_len s)]"

section \<open>StorageDeque\<close>

text \<open>Indices are \<open>u128\<close> and wrap; the queue is empty iff \<open>begin = end\<close>.\<close>

record 'a StorageDeque =
  dq_begin :: u128
  dq_end :: u128
  dq_data :: "u128 \<Rightarrow> 'a"

definition StorageDeque_len :: "'a StorageDeque \<Rightarrow> u64" where
  "StorageDeque_len s =
     (let span = dq_end s - dq_begin s in
      if unat span < 2 ^ 64 then ucast span else - 1)"

definition StorageDeque_push_back :: "'a \<Rightarrow> ('a StorageDeque, 'e, unit) prog" where
  "StorageDeque_push_back value =
     bindM (getsM dq_end) (\<lambda>e.
     bindM (writeM (\<lambda>s. s\<lparr>dq_data := (dq_data s)(e := value)\<rparr>)) (\<lambda>_.
     writeM (\<lambda>s. s\<lparr>dq_end := e + 1\<rparr>)))"

definition StorageDeque_push_front :: "'a \<Rightarrow> ('a StorageDeque, 'e, unit) prog" where
  "StorageDeque_push_front value =
     bindM (getsM (\<lambda>s. dq_begin s - 1)) (\<lambda>b.
     bindM (writeM (\<lambda>s. s\<lparr>dq_data := (dq_data s)(b := value)\<rparr>)) (\<lambda>_.
     writeM (\<lambda>s. s\<lparr>dq_begin := b\<rparr>)))"

definition StorageDeque_pop_front :: "('a::zero StorageDeque, 'e, 'a option) prog" where
  "StorageDeque_pop_front =
     bindM (getsM dq_begin) (\<lambda>b.
     bindM (getsM dq_end) (\<lambda>e.
     if b = e then retM None
     else
       bindM (getsM (\<lambda>s. dq_data s b)) (\<lambda>value.
       bindM (writeM (\<lambda>s. s\<lparr>dq_data := (dq_data s)(b := 0)\<rparr>)) (\<lambda>_.
       bindM (writeM (\<lambda>s. s\<lparr>dq_begin := b + 1\<rparr>)) (\<lambda>_.
       retM (Some value))))))"

definition StorageDeque_pop_back :: "('a::zero StorageDeque, 'e, 'a option) prog" where
  "StorageDeque_pop_back =
     bindM (getsM dq_end) (\<lambda>e.
     bindM (getsM dq_begin) (\<lambda>b.
     if b = e then retM None
     else
       bindM (getsM (\<lambda>s. dq_data s (e - 1))) (\<lambda>value.
       bindM (writeM (\<lambda>s. s\<lparr>dq_data := (dq_data s)(e - 1 := 0)\<rparr>)) (\<lambda>_.
       bindM (writeM (\<lambda>s. s\<lparr>dq_end := e - 1\<rparr>)) (\<lambda>_.
       retM (Some value))))))"

definition StorageDeque_clear :: "('a::zero StorageDeque, 'e, unit) prog" where
  "StorageDeque_clear =
     bindM (getsM dq_begin) (\<lambda>b.
     bindM (getsM dq_end) (\<lambda>e.
     bindM (forEachM (\<lambda>i. writeM (\<lambda>s. s\<lparr>dq_data := (dq_data s)(b + word_of_nat i := 0)\<rparr>))
              [0..<unat (e - b)]) (\<lambda>_.
     bindM (writeM (\<lambda>s. s\<lparr>dq_begin := 0\<rparr>)) (\<lambda>_.
     writeM (\<lambda>s. s\<lparr>dq_end := 0\<rparr>)))))"

definition StorageDeque_at :: "u64 \<Rightarrow> 'a StorageDeque \<Rightarrow> 'a option" where
  "StorageDeque_at index s =
     (let span = dq_end s - dq_begin s in
      if ucast index \<ge> span then None else Some (dq_data s (dq_begin s + ucast index)))"

definition StorageDeque_front :: "'a StorageDeque \<Rightarrow> 'a option" where
  "StorageDeque_front s =
     (if dq_begin s = dq_end s then None else Some (dq_data s (dq_begin s)))"

definition StorageDeque_back :: "'a StorageDeque \<Rightarrow> 'a option" where
  "StorageDeque_back s =
     (if dq_begin s = dq_end s then None else Some (dq_data s (dq_end s - 1)))"

definition StorageDeque_read_all :: "'a StorageDeque \<Rightarrow> 'a list" where
  "StorageDeque_read_all s =
     map (\<lambda>i. dq_data s (dq_begin s + word_of_nat i)) [0..<unat (dq_end s - dq_begin s)]"

definition dq_room :: "nat \<Rightarrow> 'a StorageDeque \<Rightarrow> bool" where
  "dq_room n s \<longleftrightarrow> unat (dq_end s - dq_begin s) + n < 2 ^ 128"

section \<open>StorageCircularBuffer\<close>

record 'a StorageCircularBuffer =
  ring_total :: u256
  ring_capacity :: u32
  ring_data :: "nat \<Rightarrow> 'a"

definition StorageCircularBuffer_setup :: "u32 \<Rightarrow> ('a StorageCircularBuffer, 'e, unit) prog" where
  "StorageCircularBuffer_setup capacity =
     bindM (writeM (\<lambda>s. s\<lparr>ring_total := 0\<rparr>)) (\<lambda>_.
     writeM (\<lambda>s. s\<lparr>ring_capacity := capacity\<rparr>))"

definition StorageCircularBuffer_count :: "'a StorageCircularBuffer \<Rightarrow> u32" where
  "StorageCircularBuffer_count s =
     (if ring_total s \<ge> ucast (ring_capacity s) then ring_capacity s else ucast (ring_total s))"

definition StorageCircularBuffer_push ::
    "'a \<Rightarrow> ('a StorageCircularBuffer, 'e, 'a option) prog" where
  "StorageCircularBuffer_push value =
     bindM (getsM ring_capacity) (\<lambda>cap.
     if cap = 0 then failM (Revert (Text ''circular buffer not initialized''))
     else
       bindM (getsM ring_total) (\<lambda>total.
       let idx = unat (total mod ucast cap) in
       bindM (getsM (\<lambda>s. if total \<ge> ucast cap then Some (ring_data s idx) else None)) (\<lambda>evicted.
       bindM (writeM (\<lambda>s. s\<lparr>ring_data := (ring_data s)(idx := value)\<rparr>)) (\<lambda>_.
       bindM (writeM (\<lambda>s. s\<lparr>ring_total := total + 1\<rparr>)) (\<lambda>_.
       retM evicted)))))"

definition StorageCircularBuffer_clear :: "('a::zero StorageCircularBuffer, 'e, unit) prog" where
  "StorageCircularBuffer_clear =
     bindM (getsM StorageCircularBuffer_count) (\<lambda>count.
     bindM (forEachM (\<lambda>i. writeM (\<lambda>s. s\<lparr>ring_data := (ring_data s)(i := 0)\<rparr>))
              [0..<unat count]) (\<lambda>_.
     writeM (\<lambda>s. s\<lparr>ring_total := 0\<rparr>)))"

definition StorageCircularBuffer_at :: "u32 \<Rightarrow> 'a StorageCircularBuffer \<Rightarrow> 'a option" where
  "StorageCircularBuffer_at index s =
     (if index \<ge> StorageCircularBuffer_count s then None else Some (ring_data s (unat index)))"

definition StorageCircularBuffer_read_all :: "'a StorageCircularBuffer \<Rightarrow> 'a list" where
  "StorageCircularBuffer_read_all s =
     map (ring_data s) [0..<unat (StorageCircularBuffer_count s)]"

text \<open>The buffer holds the last \<open>capacity\<close> elements of the history of pushes.\<close>

definition ring_holds :: "'a list \<Rightarrow> 'a StorageCircularBuffer \<Rightarrow> bool" where
  "ring_holds vs s \<longleftrightarrow>
     0 < unat (ring_capacity s) \<and> unat (ring_total s) = length vs \<and>
     (\<forall>i < length vs. length vs \<le> i + unat (ring_capacity s) \<longrightarrow>
        ring_data s (i mod unat (ring_capacity s)) = vs ! i)"

text \<open>A history of set operations, and what it means for a mathematical set.\<close>

datatype 'v set_op = Insert 'v | Remove 'v

fun set_op_spec :: "'v set_op \<Rightarrow> 'v set \<Rightarrow> 'v set" where
  "set_op_spec (Insert v) A = insert v A"
| "set_op_spec (Remove v) A = A - {v}"

fun StorageSet_op :: "'a::zero set_op \<Rightarrow> ('a StorageSet, 'e, unit) prog" where
  "StorageSet_op (Insert v) = bindM (StorageSet_insert v) (\<lambda>_. retM ())"
| "StorageSet_op (Remove v) = bindM (StorageSet_remove v) (\<lambda>_. retM ())"

section \<open>The contract of an enumerable set\<close>

text \<open>
  What a client of \<open>StorageSet\<close> relies on. \<open>room n\<close> says that \<open>n\<close> further insertions fit in the
  32-bit length. A client embeds the set in its own state: \<open>get\<close> reads it there.
\<close>

locale enumerable_set =
  fixes inv :: "'s \<Rightarrow> bool"
    and elems :: "'s \<Rightarrow> 'v list"
    and room :: "nat \<Rightarrow> 's \<Rightarrow> bool"
    and contains :: "'v \<Rightarrow> 's \<Rightarrow> bool"
    and ins :: "'v \<Rightarrow> ('s, 'e, bool) prog"
    and del :: "'v \<Rightarrow> ('s, 'e, bool) prog"
  assumes contains_elems: "inv x \<Longrightarrow> contains v x \<longleftrightarrow> v \<in> set (elems x)"
    and distinct_elems: "inv x \<Longrightarrow> distinct (elems x)"
    and room_mono: "room n x \<Longrightarrow> m \<le> n \<Longrightarrow> room m x"
    and ins_inv: "ins v s = (Inr b, t) \<Longrightarrow> inv (store s) \<Longrightarrow> room (Suc n) (store s) \<Longrightarrow> inv (store t)"
    and ins_room: "ins v s = (Inr b, t) \<Longrightarrow> room (Suc n) (store s) \<Longrightarrow> room n (store t)"
    and ins_result: "ins v s = (Inr b, t) \<Longrightarrow> b \<longleftrightarrow> \<not> contains v (store s)"
    and ins_elems: "ins v s = (Inr b, t) \<Longrightarrow> room (Suc n) (store s) \<Longrightarrow>
          elems (store t) = (if contains v (store s) then elems (store s) else elems (store s) @ [v])"
    and del_inv: "del v s = (Inr b, t) \<Longrightarrow> inv (store s) \<Longrightarrow> inv (store t)"
    and del_room: "del v s = (Inr b, t) \<Longrightarrow> inv (store s) \<Longrightarrow> room n (store s) \<Longrightarrow> room n (store t)"
    and del_result: "del v s = (Inr b, t) \<Longrightarrow> b \<longleftrightarrow> contains v (store s)"
    and del_elems: "del v s = (Inr b, t) \<Longrightarrow> inv (store s) \<Longrightarrow>
          set (elems (store t)) = set (elems (store s)) - {v}"
begin

lemma ins_batch:
  fixes get :: "'w \<Rightarrow> 's" and f :: "'v \<Rightarrow> ('w, 'e, unit) prog"
  assumes step: "\<And>a s t. f a s = (Inr (), t) \<Longrightarrow>
      \<exists>u. ins a \<lparr>store = get (store s), budget = budget s\<rparr> = (Inr True, u) \<and> get (store t) = store u"
  shows "forEachM f xs s = (Inr (), t) \<Longrightarrow> inv (get (store s)) \<Longrightarrow>
    room (length xs + n) (get (store s)) \<Longrightarrow>
    inv (get (store t)) \<and> room n (get (store t)) \<and>
    elems (get (store t)) = elems (get (store s)) @ xs"
proof (induction xs arbitrary: s)
  case Nil
  then show ?case by (simp add: prog_ok)
next
  case (Cons a xs)
  from Cons.prems(1) obtain m where m: "f a s = (Inr (), m)" "forEachM f xs m = (Inr (), t)"
    by (auto simp: prog_ok)
  obtain u where u: "ins a \<lparr>store = get (store s), budget = budget s\<rparr> = (Inr True, u)"
    "get (store m) = store u"
    using step[OF m(1)] by blast
  have room: "room (Suc (length xs + n)) (get (store s))" using Cons.prems(3) by simp
  have fresh: "\<not> contains a (get (store s))"
    using ins_result[OF u(1)] by simp
  have "inv (get (store m))"
    using ins_inv[OF u(1)] Cons.prems(2) room u(2) by simp
  moreover have "room (length xs + n) (get (store m))"
    using ins_room[OF u(1)] room u(2) by simp
  moreover have "elems (get (store m)) = elems (get (store s)) @ [a]"
    using ins_elems[OF u(1)] room fresh u(2) by simp
  ultimately show ?case
    using Cons.IH[OF m(2)] by simp
qed

lemma ops_batch:
  assumes step: "\<And>v. f (Insert v) = bindM (ins v) (\<lambda>_. retM ())"
      "\<And>v. f (Remove v) = bindM (del v) (\<lambda>_. retM ())"
  shows "forEachM f ops s = (Inr (), t) \<Longrightarrow> inv (store s) \<Longrightarrow> room (length ops) (store s) \<Longrightarrow>
    inv (store t) \<and> set (elems (store t)) = fold set_op_spec ops (set (elems (store s)))"
proof (induction ops arbitrary: s)
  case Nil
  then show ?case by (simp add: prog_ok)
next
  case (Cons x ops)
  from Cons.prems(1) obtain m where m: "f x s = (Inr (), m)" "forEachM f ops m = (Inr (), t)"
    by (auto simp: prog_ok)
  have "inv (store m) \<and> room (length ops) (store m) \<and>
      set (elems (store m)) = set_op_spec x (set (elems (store s)))"
  proof (cases x)
    case (Insert v)
    then obtain b where b: "ins v s = (Inr b, m)" using m(1) step by (auto simp: prog_ok)
    have r: "room (Suc (length ops)) (store s)" using Cons.prems(3) by simp
    show ?thesis
      using ins_inv[OF b Cons.prems(2) r] ins_room[OF b r] ins_elems[OF b r]
        contains_elems[OF Cons.prems(2)] Insert by auto
  next
    case (Remove v)
    then obtain b where b: "del v s = (Inr b, m)" using m(1) step by (auto simp: prog_ok)
    have "room (length ops) (store s)" using room_mono[OF Cons.prems(3)] by simp
    then show ?thesis
      using del_inv[OF b Cons.prems(2)] del_room[OF b Cons.prems(2)] del_elems[OF b Cons.prems(2)]
        Remove by auto
  qed
  then show ?case using Cons.IH[OF m(2)] by simp
qed

lemma del_batch:
  fixes get :: "'w \<Rightarrow> 's" and f :: "'v \<Rightarrow> ('w, 'e, unit) prog"
  assumes step: "\<And>a s t. f a s = (Inr (), t) \<Longrightarrow>
      \<exists>u. del a \<lparr>store = get (store s), budget = budget s\<rparr> = (Inr True, u) \<and> get (store t) = store u"
  shows "forEachM f xs s = (Inr (), t) \<Longrightarrow> inv (get (store s)) \<Longrightarrow> room n (get (store s)) \<Longrightarrow>
    inv (get (store t)) \<and> room n (get (store t)) \<and>
    set (elems (get (store t))) = set (elems (get (store s))) - set xs"
proof (induction xs arbitrary: s)
  case Nil
  then show ?case by (simp add: prog_ok)
next
  case (Cons a xs)
  from Cons.prems(1) obtain m where m: "f a s = (Inr (), m)" "forEachM f xs m = (Inr (), t)"
    by (auto simp: prog_ok)
  obtain u where u: "del a \<lparr>store = get (store s), budget = budget s\<rparr> = (Inr True, u)"
    "get (store m) = store u"
    using step[OF m(1)] by blast
  have "inv (get (store m))" "room n (get (store m))"
    "set (elems (get (store m))) = set (elems (get (store s))) - {a}"
    using del_inv[OF u(1)] del_room[OF u(1)] del_elems[OF u(1)] Cons.prems(2,3) u(2) by simp_all
  then show ?case
    using Cons.IH[OF m(2)] by auto
qed

end

section \<open>The contract of a queue\<close>

locale fifo_queue =
  fixes elems :: "'s \<Rightarrow> 'v list"
    and room :: "nat \<Rightarrow> 's \<Rightarrow> bool"
    and push :: "'v \<Rightarrow> ('s, 'e, unit) prog"
    and pop :: "('s, 'e, 'v option) prog"
  assumes push_elems: "push v s = (Inr (), t) \<Longrightarrow> room (Suc n) (store s) \<Longrightarrow>
      elems (store t) = elems (store s) @ [v]"
    and push_room: "push v s = (Inr (), t) \<Longrightarrow> room (Suc n) (store s) \<Longrightarrow> room n (store t)"
    and pop_elems: "pop s = (Inr r, t) \<Longrightarrow>
      elems (store s) = (case r of None \<Rightarrow> [] | Some x \<Rightarrow> x # elems (store t))"
begin

lemma push_all:
  "forEachM push xs s = (Inr (), t) \<Longrightarrow> room (length xs) (store s) \<Longrightarrow>
   elems (store t) = elems (store s) @ xs"
proof (induction xs arbitrary: s)
  case Nil
  then show ?case by (simp add: prog_ok)
next
  case (Cons x xs)
  from Cons.prems(1) obtain m where m: "push x s = (Inr (), m)" "forEachM push xs m = (Inr (), t)"
    by (auto simp: prog_ok)
  then show ?case
    using Cons.IH[OF m(2)] push_elems[OF m(1)] push_room[OF m(1)] Cons.prems(2) by simp
qed

lemma pop_all:
  "repeatM k pop s = (Inr rs, t) \<Longrightarrow> k \<le> length (elems (store s)) \<Longrightarrow>
   rs = map Some (take k (elems (store s))) \<and> elems (store t) = drop k (elems (store s))"
proof (induction k arbitrary: s rs)
  case 0
  then show ?case by (simp add: prog_ok)
next
  case (Suc k)
  from Suc.prems(1) obtain r m rs' where m: "pop s = (Inr r, m)" "repeatM k pop m = (Inr rs', t)"
    "rs = r # rs'"
    by (auto simp: prog_ok)
  show ?case
    using Suc.IH[OF m(2)] pop_elems[OF m(1)] Suc.prems(2) m(3) by (auto split: option.splits)
qed

lemma push_all_pop:
  assumes "bindM (forEachM push xs) (\<lambda>_. repeatM k pop) s = (Inr rs, t)"
    and "room (length xs) (store s)" and "k \<le> length (elems (store s)) + length xs"
  shows "rs = map Some (take k (elems (store s) @ xs))"
    and "elems (store t) = drop k (elems (store s) @ xs)"
proof -
  obtain m where m: "forEachM push xs s = (Inr (), m)" "repeatM k pop m = (Inr rs, t)"
    using assms(1) by (auto simp: prog_ok)
  show "rs = map Some (take k (elems (store s) @ xs))"
    "elems (store t) = drop k (elems (store s) @ xs)"
    using pop_all[OF m(2)] push_all[OF m(1) assms(2)] assms(3) by simp_all
qed

end

section \<open>StorageSet meets the contract\<close>

lemma sset_contains_elems:
  assumes inv: "sset_inv s"
  shows "StorageSet_contains v s \<longleftrightarrow> v \<in> set (StorageSet_read_all s)"
proof
  assume "StorageSet_contains v s"
  then have "unat (sset_position s v) \<noteq> 0"
    by (simp add: StorageSet_contains_def unat_eq_zero)
  then obtain i where "unat (sset_position s v) = Suc i"
    by (cases "unat (sset_position s v)") auto
  with inv have "i < unat (sset_len s)" "v = sset_value s i"
    unfolding sset_inv_def by blast+
  then show "v \<in> set (StorageSet_read_all s)"
    by (simp add: StorageSet_read_all_def)
next
  assume "v \<in> set (StorageSet_read_all s)"
  then obtain i where "i < unat (sset_len s)" "v = sset_value s i"
    by (auto simp: StorageSet_read_all_def)
  with inv have "unat (sset_position s v) = Suc i"
    by (simp add: sset_inv_def)
  then show "StorageSet_contains v s"
    by (auto simp: StorageSet_contains_def)
qed

lemma sset_distinct: 
  assumes inv: "sset_inv s"
  shows "distinct (StorageSet_read_all s)"
proof -
  have "inj_on (sset_value s) {0..<unat (sset_len s)}"
  proof (rule inj_onI)
    fix i j
    assume "i \<in> {0..<unat (sset_len s)}" "j \<in> {0..<unat (sset_len s)}" "sset_value s i = sset_value s j"
    then have "Suc i = Suc j"
      using inv unfolding sset_inv_def by (metis atLeastLessThan_iff)
    then show "i = j" by simp
  qed
  then show ?thesis by (simp add: StorageSet_read_all_def distinct_map)
qed

lemma sset_len_suc: "sset_room (Suc n) s \<Longrightarrow> unat (sset_len s + 1) = Suc (unat (sset_len s))"
  by (simp add: sset_room_def unat_word_ariths)

lemma StorageSet_insert_ok:
  "StorageSet_insert v s = (Inr b, t) \<longleftrightarrow>
     (if sset_position (store s) v \<noteq> 0 then b = False \<and> t = s
      else b = True \<and> 3 \<le> budget s \<and>
        t = s\<lparr>store := (store s)\<lparr>
               sset_value := (sset_value (store s))(unat (sset_len (store s)) := v),
               sset_position := (sset_position (store s))(v := sset_len (store s) + 1),
               sset_len := sset_len (store s) + 1\<rparr>,
             budget := budget s - 3\<rparr>)"
  unfolding StorageSet_insert_def by (simp add: prog_ok) auto

lemma sset_insert_inv:
  assumes "StorageSet_insert v s = (Inr b, t)" "sset_inv (store s)" "sset_room (Suc n) (store s)"
  shows "sset_inv (store t)"
proof (cases "sset_position (store s) v = 0")
  case False
  with assms show ?thesis by (auto simp: StorageSet_insert_ok)
next
  case True
  let ?s = "store s" and ?L = "unat (sset_len (store s))"
  have t: "store t = ?s\<lparr>sset_value := (sset_value ?s)(?L := v),
      sset_position := (sset_position ?s)(v := sset_len ?s + 1), sset_len := sset_len ?s + 1\<rparr>"
    using assms(1) True by (simp add: StorageSet_insert_ok)
  have L: "unat (sset_len ?s + 1) = Suc ?L" using assms(3) by (rule sset_len_suc)
  have fwd: "unat (sset_position ?s (sset_value ?s i)) = Suc i" if "i < ?L" for i
    using assms(2) that by (simp add: sset_inv_def)
  have bwd: "i < ?L \<and> sset_value ?s i = w" if "unat (sset_position ?s w) = Suc i" for w i
    using assms(2) that by (simp add: sset_inv_def)
  have fresh: "sset_value ?s i \<noteq> v" if "i < ?L" for i
    using fwd[OF that] True by auto
  show ?thesis
    unfolding sset_inv_def t
    using fwd bwd fresh L by (auto simp: less_Suc_eq)
qed

lemma sset_insert_room:
  "StorageSet_insert v s = (Inr b, t) \<Longrightarrow> sset_room (Suc n) (store s) \<Longrightarrow> sset_room n (store t)"
  using sset_len_suc[of n "store s"]
  by (auto simp: StorageSet_insert_ok sset_room_def split: if_splits)

lemma sset_insert_elems:
  assumes "StorageSet_insert v s = (Inr b, t)" "sset_room (Suc n) (store s)"
  shows "StorageSet_read_all (store t) =
    (if StorageSet_contains v (store s) then StorageSet_read_all (store s)
     else StorageSet_read_all (store s) @ [v])"
  using assms sset_len_suc[OF assms(2)]
  by (auto simp: StorageSet_insert_ok StorageSet_read_all_def StorageSet_contains_def)

lemma StorageSet_remove_ok:
  "StorageSet_remove v s = (Inr b, t) \<longleftrightarrow>
     (let p = sset_position (store s) v; idx = p - 1; last = sset_len (store s) - 1;
          vals = sset_value (store s); poss = sset_position (store s)
      in if p = 0 then b = False \<and> t = s
      else b = True \<and> (if idx = last then 3 else 5) \<le> budget s \<and>
        t = s\<lparr>store := (store s)\<lparr>
               sset_value := (if idx = last then vals else vals(unat idx := vals (unat last)))
                 (unat last := 0),
               sset_position := (if idx = last then poss else poss(vals (unat last) := p))(v := 0),
               sset_len := last\<rparr>,
             budget := budget s - (if idx = last then 3 else 5)\<rparr>)"
  unfolding StorageSet_remove_def Let_def
  by (simp add: prog_run) (auto simp: prog_ok)

lemma sset_remove_absent:
  "StorageSet_remove v s = (Inr b, t) \<Longrightarrow> \<not> StorageSet_contains v (store s) \<Longrightarrow> t = s \<and> \<not> b"
  by (simp add: StorageSet_remove_ok StorageSet_contains_def)

text \<open>Both branches of the removal are one swap of the last element into the hole.\<close>

lemma sset_remove_present:
  assumes run: "StorageSet_remove v s = (Inr b, t)" and inv: "sset_inv (store s)"
    and pos: "unat (sset_position (store s) v) = Suc i"
  defines "z \<equiv> sset_value (store s) (unat (sset_len (store s)) - 1)"
  shows "i < unat (sset_len (store s))" "sset_value (store s) i = v"
    "unat (sset_len (store t)) = unat (sset_len (store s)) - 1"
    "sset_value (store t) = (sset_value (store s))(i := z, unat (sset_len (store s)) - 1 := 0)"
    "sset_position (store t) =
       (sset_position (store s))(z := sset_position (store s) v, v := 0)"
proof -
  let ?s = "store s" and ?L = "unat (sset_len (store s))" and ?p = "sset_position (store s) v"
  show iL: "i < ?L" and vi: "sset_value ?s i = v"
    using inv pos by (simp_all add: sset_inv_def)
  have p0: "?p \<noteq> 0" using pos by auto
  then have idx: "unat (?p - 1) = i" using pos by (simp add: unat_minus_one)
  have L0: "sset_len ?s \<noteq> 0" using iL by auto
  then have last: "unat (sset_len ?s - 1) = ?L - 1" by (simp add: unat_minus_one)
  have same: "?p - 1 = sset_len ?s - 1 \<longleftrightarrow> i = ?L - 1"
    using idx last by (metis unsigned_word_eqI)
  note r = run[unfolded StorageSet_remove_ok Let_def idx last same]
  show "unat (sset_len (store t)) = ?L - 1"
    using r p0 last by auto
  show "sset_value (store t) = (sset_value ?s)(i := z, ?L - 1 := 0)"
    using r p0 by (auto simp: z_def)
  show "sset_position (store t) = (sset_position ?s)(z := ?p, v := 0)"
    using r p0 vi by (auto simp: z_def)
qed

lemma sset_remove_inv:
  assumes run: "StorageSet_remove v s = (Inr b, t)" and inv: "sset_inv (store s)"
  shows "sset_inv (store t)"
proof (cases "unat (sset_position (store s) v)")
  case 0
  then show ?thesis
    using sset_remove_absent[OF run] inv by (simp add: StorageSet_contains_def unat_eq_zero)
next
  case (Suc i)
  let ?s = "store s" and ?L = "unat (sset_len (store s))"
  let ?z = "sset_value ?s (?L - 1)"
  have fwd: "unat (sset_position ?s (sset_value ?s j)) = Suc j" if "j < ?L" for j
    using inv that by (simp add: sset_inv_def)
  have bwd: "j < ?L \<and> sset_value ?s j = w" if "unat (sset_position ?s w) = Suc j" for w j
    using inv that by (simp add: sset_inv_def)
  note r = sset_remove_present[OF run inv Suc]
  show ?thesis
    unfolding sset_inv_def r(3,4,5)
  proof (intro conjI allI impI)
    fix j
    assume j: "j < ?L - 1"
    then have jL: "j < ?L" by simp
    have "?z \<noteq> v" if "j = i"
      using fwd[of "?L - 1"] j r(1) Suc that by auto
    moreover have "sset_value ?s j \<noteq> v \<and> sset_value ?s j \<noteq> ?z" if "j \<noteq> i"
      using fwd[of "?L - 1"] fwd[OF jL] j Suc that by auto
    ultimately show "unat (((sset_position ?s)(?z := sset_position ?s v, v := 0))
        (((sset_value ?s)(i := ?z, ?L - 1 := 0)) j)) = Suc j"
      using fwd[OF jL] j Suc by (cases "j = i") simp_all
  next
    fix w j
    assume "unat (((sset_position ?s)(?z := sset_position ?s v, v := 0)) w) = Suc j"
    then have "w \<noteq> v"
      and "w = ?z \<and> j = i \<or> w \<noteq> ?z \<and> unat (sset_position ?s w) = Suc j"
      using Suc by (auto split: if_splits)
    from this(2) have "j < ?L - 1 \<and> (j = i \<and> w = ?z \<or> j \<noteq> i \<and> sset_value ?s j = w)"
    proof (elim disjE conjE)
      assume "w = ?z" "j = i"
      then show ?thesis using \<open>w \<noteq> v\<close> r(1,2) by (cases "i = ?L - 1") auto
    next
      assume "w \<noteq> ?z" "unat (sset_position ?s w) = Suc j"
      then show ?thesis using bwd[of w j] \<open>w \<noteq> v\<close> r(2) by (cases "j = ?L - 1") auto
    qed
    then show "j < ?L - 1" "((sset_value ?s)(i := ?z, ?L - 1 := 0)) j = w"
      by auto
  qed
qed

lemma sset_remove_elems:
  assumes run: "StorageSet_remove v s = (Inr b, t)" and inv: "sset_inv (store s)"
  shows "set (StorageSet_read_all (store t)) = set (StorageSet_read_all (store s)) - {v}"
proof -
  note inv' = sset_remove_inv[OF run inv]
  have "StorageSet_contains w (store t) \<longleftrightarrow> StorageSet_contains w (store s) \<and> w \<noteq> v" for w
  proof (cases "unat (sset_position (store s) v)")
    case 0
    then show ?thesis
      using sset_remove_absent[OF run] by (auto simp: StorageSet_contains_def unat_eq_zero)
  next
    case (Suc i)
    let ?L = "unat (sset_len (store s))"
    note r = sset_remove_present[OF run inv Suc]
    have "unat (sset_position (store s) (sset_value (store s) (?L - 1))) = Suc (?L - 1)"
      using inv r(1) by (simp add: sset_inv_def)
    then show ?thesis
      using Suc by (auto simp: StorageSet_contains_def r(5))
  qed
  then show ?thesis
    using sset_contains_elems[OF inv] sset_contains_elems[OF inv'] by auto
qed

lemma sset_remove_room:
  assumes run: "StorageSet_remove v s = (Inr b, t)" and inv: "sset_inv (store s)"
    and room: "sset_room n (store s)"
  shows "sset_room n (store t)"
proof (cases "unat (sset_position (store s) v)")
  case 0
  then show ?thesis
    using sset_remove_absent[OF run] room by (simp add: StorageSet_contains_def unat_eq_zero)
next
  case (Suc i)
  then show ?thesis
    using sset_remove_present(3)[OF run inv Suc] room by (simp add: sset_room_def)
qed

interpretation lset: enumerable_set sset_inv StorageSet_read_all sset_room
  StorageSet_contains StorageSet_insert StorageSet_remove
  by unfold_locales
    (simp_all add: sset_contains_elems sset_distinct sset_insert_inv sset_insert_room
      sset_insert_elems sset_remove_inv sset_remove_elems sset_remove_room,
     auto simp: sset_room_def StorageSet_insert_ok StorageSet_remove_ok StorageSet_contains_def
       Let_def split: if_splits)

section \<open>StorageDeque\<close>

lemma deque_read_all_alt:
  assumes "dq_end s = dq_begin s + word_of_nat n" "n < 2 ^ 128"
  shows "StorageDeque_read_all s = map (\<lambda>i. dq_data s (dq_begin s + word_of_nat i)) [0..<n]"
  using assms by (simp add: StorageDeque_read_all_def unat_of_nat_exact)

lemma deque_span:
  obtains n where "dq_end s = dq_begin s + word_of_nat n" "n < 2 ^ 128"
    "n = unat (dq_end s - dq_begin s)"
proof
  show "dq_end s = dq_begin s + word_of_nat (unat (dq_end s - dq_begin s))" by simp
  show "unat (dq_end s - dq_begin s) < 2 ^ 128"
    using unat_bound[of "dq_end s - dq_begin s"] by simp
qed simp

lemma StorageDeque_push_back_ok:
  assumes run: "StorageDeque_push_back v s = (Inr u, t)"
    and room: "unat (dq_end (store s) - dq_begin (store s)) + 1 < 2 ^ 128"
  shows "StorageDeque_read_all (store t) = StorageDeque_read_all (store s) @ [v]"
    and "unat (dq_end (store t) - dq_begin (store t)) = unat (dq_end (store s) - dq_begin (store s)) + 1"
proof -
  obtain n where n: "dq_end (store s) = dq_begin (store s) + word_of_nat n" "n < 2 ^ 128"
    "n = unat (dq_end (store s) - dq_begin (store s))" by (rule deque_span)
  have t: "store t = (store s)\<lparr>dq_data := (dq_data (store s))(dq_end (store s) := v),
      dq_end := dq_end (store s) + 1\<rparr>"
    using run by (auto simp: StorageDeque_push_back_def prog_ok)
  have e: "dq_end (store t) = dq_begin (store t) + word_of_nat (Suc n)"
    using n(1) by (simp add: t)
  have n1: "Suc n < 2 ^ 128" using room n(3) by simp
  show "unat (dq_end (store t) - dq_begin (store t)) = unat (dq_end (store s) - dq_begin (store s)) + 1"
    using n1 n(3) by (simp only: e) (simp add: unat_of_nat_exact del: of_nat_Suc)
  show "StorageDeque_read_all (store t) = StorageDeque_read_all (store s) @ [v]"
    unfolding deque_read_all_alt[OF e n1] deque_read_all_alt[OF n(1,2)]
    using n(1,2) by (auto simp: t word_of_nat_eq)
qed

lemma StorageDeque_push_front_ok:
  assumes run: "StorageDeque_push_front v s = (Inr u, t)"
    and room: "unat (dq_end (store s) - dq_begin (store s)) + 1 < 2 ^ 128"
  shows "StorageDeque_read_all (store t) = v # StorageDeque_read_all (store s)"
proof -
  obtain n where n: "dq_end (store s) = dq_begin (store s) + word_of_nat n" "n < 2 ^ 128"
    "n = unat (dq_end (store s) - dq_begin (store s))" by (rule deque_span)
  have t: "store t = (store s)\<lparr>dq_data := (dq_data (store s))(dq_begin (store s) - 1 := v),
      dq_begin := dq_begin (store s) - 1\<rparr>"
    using run by (auto simp: StorageDeque_push_front_def prog_ok)
  have e: "dq_end (store t) = dq_begin (store t) + word_of_nat (Suc n)"
    using n(1) by (simp add: t)
  have n1: "Suc n < 2 ^ 128" using room n(3) by simp
  have ne: "1 + word_of_nat i \<noteq> (0::u128)" if "i < n" for i
    using word_of_nat_Suc_nonzero[of i, where 'a = 128] that n1 by simp
  show ?thesis
    unfolding deque_read_all_alt[OF e n1] deque_read_all_alt[OF n(1,2)]
    unfolding upt_conv_Cons[OF zero_less_Suc] map_Suc_upt[symmetric]
    using ne by (simp add: t)
qed

lemma StorageDeque_pop_front_ok:
  assumes run: "StorageDeque_pop_front s = (Inr r, t)"
  shows "StorageDeque_read_all (store s) =
           (case r of None \<Rightarrow> [] | Some x \<Rightarrow> x # StorageDeque_read_all (store t))"
    and "r = None \<Longrightarrow> t = s"
proof -
  obtain n where n: "dq_end (store s) = dq_begin (store s) + word_of_nat n" "n < 2 ^ 128"
    "n = unat (dq_end (store s) - dq_begin (store s))" by (rule deque_span)
  show "r = None \<Longrightarrow> t = s"
    using run by (auto simp: StorageDeque_pop_front_def prog_ok split: if_splits)
  show "StorageDeque_read_all (store s) =
           (case r of None \<Rightarrow> [] | Some x \<Rightarrow> x # StorageDeque_read_all (store t))"
  proof (cases n)
    case 0
    with n(1) have "dq_end (store s) = dq_begin (store s)" by simp
    then show ?thesis
      using run by (auto simp: StorageDeque_pop_front_def StorageDeque_read_all_def prog_ok)
  next
    case (Suc m)
    have ne: "dq_begin (store s) \<noteq> dq_end (store s)"
      using Suc n(3) by auto
    have t: "store t = (store s)\<lparr>dq_data := (dq_data (store s))(dq_begin (store s) := 0),
        dq_begin := dq_begin (store s) + 1\<rparr>" and r: "r = Some (dq_data (store s) (dq_begin (store s)))"
      using run ne by (auto simp: StorageDeque_pop_front_def prog_ok)
    have e: "dq_end (store t) = dq_begin (store t) + word_of_nat m"
      using n(1,2) Suc by (simp add: t)
    have m1: "m < 2 ^ 128" using n(1,2) Suc by simp
    have slot: "1 + word_of_nat i \<noteq> (0::u128)" if "i < m" for i
      using word_of_nat_Suc_nonzero[of i, where 'a = 128] that n(2) Suc by simp
    show ?thesis
      unfolding deque_read_all_alt[OF e m1] deque_read_all_alt[OF n(1,2)] Suc r
      unfolding upt_conv_Cons[OF zero_less_Suc] map_Suc_upt[symmetric]
      using slot by (simp add: t add.assoc)
  qed
qed

lemma StorageDeque_pop_back_ok:
  assumes run: "StorageDeque_pop_back s = (Inr r, t)"
  shows "StorageDeque_read_all (store s) =
           (case r of None \<Rightarrow> [] | Some x \<Rightarrow> StorageDeque_read_all (store t) @ [x])"
proof -
  obtain n where n: "dq_end (store s) = dq_begin (store s) + word_of_nat n" "n < 2 ^ 128"
    "n = unat (dq_end (store s) - dq_begin (store s))" by (rule deque_span)
  show ?thesis
  proof (cases n)
    case 0
    with n(1) have "dq_end (store s) = dq_begin (store s)" by simp
    then show ?thesis
      using run by (auto simp: StorageDeque_pop_back_def StorageDeque_read_all_def prog_ok)
  next
    case (Suc m)
    have ne: "dq_begin (store s) \<noteq> dq_end (store s)"
      using Suc n(3) by auto
    have last: "dq_end (store s) - 1 = dq_begin (store s) + word_of_nat m"
      using n(1) Suc by simp
    have t: "store t = (store s)\<lparr>dq_data := (dq_data (store s))(dq_begin (store s) + word_of_nat m := 0),
        dq_end := dq_begin (store s) + word_of_nat m\<rparr>"
      and r: "r = Some (dq_data (store s) (dq_begin (store s) + word_of_nat m))"
      using run ne by (auto simp: StorageDeque_pop_back_def prog_ok last)
    have e: "dq_end (store t) = dq_begin (store t) + word_of_nat m" by (simp add: t)
    have m1: "m < 2 ^ 128" using n(1,2) Suc by simp
    show ?thesis
      unfolding deque_read_all_alt[OF e m1] deque_read_all_alt[OF n(1,2)] Suc r
      using m1 by (auto simp: t word_of_nat_eq)
  qed
qed
interpretation ldeque: fifo_queue StorageDeque_read_all dq_room
  StorageDeque_push_back StorageDeque_pop_front
proof
  fix v :: 'a and s t :: "'a StorageDeque journal" and n
  assume run: "StorageDeque_push_back v s = (Inr (), t)" and room: "dq_room (Suc n) (store s)"
  then have r: "unat (dq_end (store s) - dq_begin (store s)) + 1 < 2 ^ 128"
    by (simp add: dq_room_def)
  show "StorageDeque_read_all (store t) = StorageDeque_read_all (store s) @ [v]"
    by (rule StorageDeque_push_back_ok(1)[OF run r])
  show "dq_room n (store t)"
    using StorageDeque_push_back_ok(2)[OF run r] room by (simp add: dq_room_def)
next
  fix s t :: "'a StorageDeque journal" and r
  assume "StorageDeque_pop_front s = (Inr r, t)"
  then show "StorageDeque_read_all (store s) =
      (case r of None \<Rightarrow> [] | Some x \<Rightarrow> x # StorageDeque_read_all (store t))"
    by (rule StorageDeque_pop_front_ok(1))
qed

section \<open>StorageCircularBuffer\<close>

lemma ring_index:
  fixes total :: u256 and cap :: u32
  shows "unat (total mod ucast cap) = unat total mod unat cap"
    and "(ucast cap \<le> total) = (unat cap \<le> unat total)"
  by (simp_all add: unat_mod word_le_nat_alt unat_ucast_up)

lemma StorageCircularBuffer_push_ok:
  assumes run: "StorageCircularBuffer_push v s = (Inr ev, t)"
    and holds: "ring_holds vs (store s)" and bound: "length vs + 1 < 2 ^ 256"
  shows "ring_holds (vs @ [v]) (store t)"
    and "ev = (if unat (ring_capacity (store s)) \<le> length vs
               then Some (vs ! (length vs - unat (ring_capacity (store s)))) else None)"
proof -
  let ?c = "unat (ring_capacity (store s))"
  have c: "0 < ?c" and n: "unat (ring_total (store s)) = length vs"
    and data: "\<And>i. i < length vs \<Longrightarrow> length vs \<le> i + ?c \<Longrightarrow> ring_data (store s) (i mod ?c) = vs ! i"
    using holds by (simp_all add: ring_holds_def)
  have c0: "ring_capacity (store s) \<noteq> 0" using c by auto
  have t: "store t = (store s)\<lparr>ring_data := (ring_data (store s))(length vs mod ?c := v),
      ring_total := ring_total (store s) + 1\<rparr>"
    and ev: "ev = (if ?c \<le> length vs then Some (ring_data (store s) (length vs mod ?c)) else None)"
    using run c0 n by (auto simp: StorageCircularBuffer_push_def Let_def prog_ok ring_index)
  have total: "unat (ring_total (store s) + 1) = Suc (length vs)"
    using bound n by (simp add: unat_word_ariths)
  have other: "i mod ?c \<noteq> length vs mod ?c" if "i < length vs" "length vs < i + ?c" for i
  proof
    assume "i mod ?c = length vs mod ?c"
    then have "?c dvd length vs - i"
      using that by (metis less_or_eq_imp_le mod_eq_dvd_iff_nat)
    then have "?c \<le> length vs - i" using that by (intro dvd_imp_le) auto
    then show False using that by linarith
  qed
  show "ring_holds (vs @ [v]) (store t)"
    unfolding ring_holds_def t
    using c total data other by (auto simp: nth_append less_Suc_eq)
  show "ev = (if ?c \<le> length vs then Some (vs ! (length vs - ?c)) else None)"
    using ev data[of "length vs - ?c"] c by (auto simp: le_mod_geq)
qed

lemma ring_read_all_rotate:
  assumes holds: "ring_holds vs s"
  shows "rotate (length vs) (StorageCircularBuffer_read_all s) =
    drop (length vs - unat (ring_capacity s)) vs"
proof -
  let ?c = "unat (ring_capacity s)"
  have c: "0 < ?c" and n: "unat (ring_total s) = length vs"
    and data: "\<And>i. i < length vs \<Longrightarrow> length vs \<le> i + ?c \<Longrightarrow> ring_data s (i mod ?c) = vs ! i"
    using holds by (simp_all add: ring_holds_def)
  have "unat (StorageCircularBuffer_count s) = min (length vs) ?c"
  proof (cases "?c \<le> length vs")
    case True
    then show ?thesis using n by (simp add: StorageCircularBuffer_count_def ring_index)
  next
    case False
    then have "unat (ring_total s) < 2 ^ 32" using n unat_bound[of "ring_capacity s"] by simp
    then show ?thesis
      using False n by (simp add: StorageCircularBuffer_count_def ring_index unat_ucast_small)
  qed
  then have all: "StorageCircularBuffer_read_all s = map (ring_data s) [0..<min (length vs) ?c]"
    by (simp add: StorageCircularBuffer_read_all_def)
  show ?thesis
  proof (rule nth_equalityI)
    show "length (rotate (length vs) (StorageCircularBuffer_read_all s)) =
        length (drop (length vs - ?c) vs)"
      by (auto simp: all)
  next
    fix k
    assume "k < length (rotate (length vs) (StorageCircularBuffer_read_all s))"
    then have k: "k < min (length vs) ?c" by (simp add: all)
    show "rotate (length vs) (StorageCircularBuffer_read_all s) ! k = drop (length vs - ?c) vs ! k"
    proof (cases "length vs \<le> ?c")
      case True
      then show ?thesis
        using k data[of k] by (simp add: all nth_rotate)
    next
      case False
      then have "(length vs - ?c + k) mod ?c = (length vs + k) mod ?c"
        by (metis add.commute add_diff_assoc le_mod_geq nat_le_linear trans_le_add1 le_add_diff_inverse mod_add_self2 add.assoc)
      then show ?thesis
        using False k data[of "length vs - ?c + k"] by (simp add: all nth_rotate)
    qed
  qed
qed
section \<open>StorageVec\<close>

lemma StorageVec_push_ok:
  assumes "StorageVec_push v s = (Inr u, t)" "unat (svec_len (store s)) + 1 < 2 ^ 32"
  shows "StorageVec_read_all (store t) = StorageVec_read_all (store s) @ [v]"
proof -
  have "unat (svec_len (store s) + 1) = Suc (unat (svec_len (store s)))"
    using assms(2) by (simp add: unat_word_ariths)
  then show ?thesis
    using assms(1) by (auto simp: StorageVec_push_def StorageVec_read_all_def prog_ok)
qed

lemma StorageVec_pop_ok:
  assumes "StorageVec_pop s = (Inr r, t)"
  shows "StorageVec_read_all (store s) =
    (case r of None \<Rightarrow> [] | Some x \<Rightarrow> StorageVec_read_all (store t) @ [x])"
proof (cases "svec_len (store s) = 0")
  case True
  then show ?thesis
    using assms by (auto simp: StorageVec_pop_def StorageVec_read_all_def prog_ok)
next
  case False
  then have "unat (svec_len (store s) - 1) = unat (svec_len (store s)) - 1"
    by (simp add: unat_minus_one)
  moreover have "unat (svec_len (store s)) \<noteq> 0"
    using False by (simp add: unat_eq_zero)
  ultimately obtain n where "unat (svec_len (store s)) = Suc n" "unat (svec_len (store s) - 1) = n"
    by (cases "unat (svec_len (store s))") auto
  then show ?thesis
    using assms False by (auto simp: StorageVec_pop_def StorageVec_read_all_def prog_ok)
qed

section \<open>Properties\<close>

text \<open>
  C16: Every history of fewer than \<open>2^32\<close> insertions and removals on an empty \<open>StorageSet\<close> leaves
  exactly the members that the same history gives a mathematical set: membership queries and the
  enumeration agree with it, and the enumeration has no duplicates.
\<close>

theorem StorageSet_refines_set:
  fixes t :: "'a::zero StorageSet journal"
  assumes run: "forEachM StorageSet_op ops \<lparr>store = sset_empty, budget = b\<rparr> = (Inr (), t)"
    and short: "length ops < 2 ^ 32"
  shows "set (StorageSet_read_all (store t)) = fold set_op_spec ops {} \<and>
    distinct (StorageSet_read_all (store t)) \<and>
    (\<forall>v. StorageSet_contains v (store t) \<longleftrightarrow> v \<in> fold set_op_spec ops {})"
proof -
  have "sset_inv (sset_empty :: 'a StorageSet)" "sset_room (length ops) (sset_empty :: 'a StorageSet)"
    "StorageSet_read_all (sset_empty :: 'a StorageSet) = []"
    using short by (simp_all add: sset_inv_def sset_empty_def sset_room_def StorageSet_read_all_def)
  then have "sset_inv (store t)" "set (StorageSet_read_all (store t)) = fold set_op_spec ops {}"
    using lset.ops_batch[OF _ _ run] by simp_all
  then show ?thesis
    using lset.distinct_elems lset.contains_elems by blast
qed

theorem StorageSet_refines_set_witness:
  "\<exists>t. forEachM StorageSet_op [Insert (7::u8), Insert 9, Remove 7] \<lparr>store = sset_empty, budget = 20\<rparr>
       = ((Inr () :: unit precompile_error + unit), t) \<and>
     set (StorageSet_read_all (store t)) = {9}"
proof -
  let ?r = "forEachM StorageSet_op [Insert (7::u8), Insert 9, Remove 7]
      \<lparr>store = sset_empty, budget = 20\<rparr> :: (unit precompile_error + unit) \<times> u8 StorageSet journal"
  have "fst ?r = Inr ()" by code_simp
  then have r: "?r = (Inr (), snd ?r)" by (metis prod.collapse)
  have "fold set_op_spec [Insert (7::u8), Insert 9, Remove 7] {} = {9}" by auto
  then show ?thesis
    using StorageSet_refines_set[OF r] r by (intro exI[of _ "snd ?r"]) simp
qed

text \<open>
  C17: A \<open>StorageDeque\<close> is a first-in first-out queue: after any values are pushed at the back,
  popping at the front returns the values that were queued before and then the pushed ones, in
  order, also when the 128-bit indices wrap around.
\<close>

theorem StorageDeque_fifo:
  assumes "bindM (forEachM StorageDeque_push_back xs) (\<lambda>_. repeatM k StorageDeque_pop_front) s
      = (Inr rs, t)"
    and "dq_room (length xs) (store s)"
    and "k \<le> length (StorageDeque_read_all (store s)) + length xs"
  shows "rs = map Some (take k (StorageDeque_read_all (store s) @ xs)) \<and>
    StorageDeque_read_all (store t) = drop k (StorageDeque_read_all (store s) @ xs)"
  using ldeque.push_all_pop[OF assms] by simp

theorem StorageDeque_fifo_witness:
  "\<exists>t. bindM (forEachM StorageDeque_push_back [3, 4::u8]) (\<lambda>_. repeatM 2 StorageDeque_pop_front)
       \<lparr>store = \<lparr>dq_begin = - 1, dq_end = - 1, dq_data = (\<lambda>_. 0)\<rparr>, budget = 20\<rparr>
       = ((Inr [Some 3, Some 4] :: unit precompile_error + u8 option list), t) \<and>
     StorageDeque_read_all (store t) = []"
proof -
  let ?s = "\<lparr>store = \<lparr>dq_begin = - 1, dq_end = - 1, dq_data = (\<lambda>_. 0::u8)\<rparr>, budget = 20\<rparr>"
  obtain rs t where t: "bindM (forEachM StorageDeque_push_back [3, 4::u8])
      (\<lambda>_. repeatM 2 StorageDeque_pop_front) ?s = ((Inr rs :: unit precompile_error + u8 option list), t)"
    by (simp add: StorageDeque_push_back_def StorageDeque_pop_front_def prog_run prog_ok
        numeral_2_eq_2)
  then show ?thesis
    using StorageDeque_fifo[OF t]
    by (intro exI[of _ t]) (simp add: dq_room_def StorageDeque_read_all_def)
qed

text \<open>
  C18: A ring buffer keeps the last \<open>capacity\<close> pushes. A push returns the value pushed
  \<open>capacity\<close> pushes before it, if there is one, and the enumeration afterwards is the window of
  the last \<open>capacity\<close> pushes in rotated order.
\<close>

theorem StorageCircularBuffer_window:
  assumes "StorageCircularBuffer_push v s = (Inr ev, t)"
    and "ring_holds vs (store s)" and "length vs + 1 < 2 ^ 256"
  shows "ring_holds (vs @ [v]) (store t) \<and>
    ev = (if unat (ring_capacity (store s)) \<le> length vs
          then Some (vs ! (length vs - unat (ring_capacity (store s)))) else None) \<and>
    rotate (length vs + 1) (StorageCircularBuffer_read_all (store t)) =
      drop (length vs + 1 - unat (ring_capacity (store t))) (vs @ [v])"
  using StorageCircularBuffer_push_ok[OF assms] ring_read_all_rotate[of "vs @ [v]" "store t"]
  by simp

theorem StorageCircularBuffer_window_witness:
  "\<exists>t. StorageCircularBuffer_push (9::u8)
       \<lparr>store = \<lparr>ring_total = 2, ring_capacity = 2, ring_data = (\<lambda>i. if i = 0 then 5 else 6)\<rparr>,
        budget = 5\<rparr> = ((Inr (Some 5) :: unit precompile_error + u8 option), t) \<and>
     ring_holds [5, 6, 9] (store t)"
proof -
  let ?s = "\<lparr>store = \<lparr>ring_total = 2, ring_capacity = 2, ring_data = (\<lambda>i. if i = 0 then 5 else 6::u8)\<rparr>,
        budget = 5\<rparr>"
  obtain ev t where t: "StorageCircularBuffer_push (9::u8) ?s =
      ((Inr ev :: unit precompile_error + u8 option), t)"
    by (simp add: StorageCircularBuffer_push_def prog_run prog_ok Let_def)
  moreover have "ring_holds [5, 6] (store ?s)"
    by (auto simp: ring_holds_def less_Suc_eq)
  ultimately show ?thesis
    using StorageCircularBuffer_window[OF t, of "[5, 6]"] by (intro exI[of _ t]) simp
qed

end
