(* ===== verification/Policy_Registry.thy ===== *)
theory Policy_Registry
  imports Storage_Collections
begin

text \<open>
  The transfer-policy registry, \<open>core/stablecoinpolicy\<close>: \<open>schema.rs\<close>, \<open>state.rs\<close>, \<open>errors.rs\<close>,
  \<open>api.rs\<close> and the call table of \<open>precompile.rs\<close>.

  The record \<open>StablecoinPolicyRegistryContract\<close> holds the next id, the descriptors (a storage
  record is present iff its \<open>exists\<close> attribute is set, hence an option) and one \<open>StorageSet\<close> of
  members per policy. A descriptor is written as one mutation.
\<close>

section \<open>Types\<close>

datatype PolicyType = DenyAll | AllowAll | Whitelist | Blacklist | Directional

datatype PolicyLane = Send | Receive | Mint

record PolicyDescriptor =
  policy_id :: u256
  policy_type :: u8
  admin :: address
  pending_admin :: address
  send_policy_id :: u256
  receive_policy_id :: u256
  mint_policy_id :: u256

datatype PolicyRegistryError =
    UnexpectedValue u256
  | InvalidPolicyType u8
  | UnknownPolicy u256
  | ImmutablePolicy u256
  | InvalidPolicyAdmin address
  | UnauthorizedPolicyAdmin u256 address
  | InvalidDirectionalChild u256
  | DirectionalMembershipUnsupported u256
  | InvalidMember address
  | EmptyMemberBatch
  | MemberBatchTooLarge nat nat
  | DuplicateMember address
  | MembershipUnchanged u256 address bool
  | InvalidPendingPolicyAdmin address
  | NotPendingPolicyAdmin u256 address
  | PolicyIdExhausted
  | InvalidListLimit u256 nat
  | PolicyMemberEnumerationUnsupported u256 u8

datatype PolicyEvent =
    PolicyCreated u256 address address u8 u256 u256 u256
  | PolicyMemberAdded u256 address address
  | PolicyMemberRemoved u256 address address
  | PolicyAdminTransferStarted u256 address address
  | PolicyAdminTransferCancelled u256 address address
  | PolicyAdminTransferred u256 address address

record StablecoinPolicyRegistryContract =
  next_policy_id :: u256
  policies :: "u256 \<Rightarrow> PolicyDescriptor option"
  member_set :: "u256 \<Rightarrow> address StorageSet"
  registry_logs :: "PolicyEvent list"

type_synonym 'a registry_prog = "(StablecoinPolicyRegistryContract, PolicyRegistryError, 'a) prog"

definition DENY_ALL_POLICY_ID :: u256 where
  "DENY_ALL_POLICY_ID = 0"

definition ALLOW_ALL_POLICY_ID :: u256 where
  "ALLOW_ALL_POLICY_ID = 1"

definition FIRST_MUTABLE_POLICY_ID :: u256 where
  "FIRST_MUTABLE_POLICY_ID = 2"

definition STABLECOIN_POLICY_MEMBER_BATCH_CAP :: nat where
  "STABLECOIN_POLICY_MEMBER_BATCH_CAP = 64"

definition STABLECOIN_LIST_PAGE_CAP :: nat where
  "STABLECOIN_LIST_PAGE_CAP = 100"

text \<open>\<open>impl From<PolicyRegistryError> for PrecompileError\<close>: every variant is ABI-encoded.\<close>

definition policy_error :: "PolicyRegistryError \<Rightarrow> PolicyRegistryError precompile_error" where
  "policy_error e = RevertBytes (Typed e)"

fun PolicyType_u8 :: "PolicyType \<Rightarrow> u8" where
  "PolicyType_u8 DenyAll = 0"
| "PolicyType_u8 AllowAll = 1"
| "PolicyType_u8 Whitelist = 2"
| "PolicyType_u8 Blacklist = 3"
| "PolicyType_u8 Directional = 4"

definition PolicyType_try_from :: "u8 \<Rightarrow> PolicyType option" where
  "PolicyType_try_from c =
     (if c = 0 then Some DenyAll
      else if c = 1 then Some AllowAll
      else if c = 2 then Some Whitelist
      else if c = 3 then Some Blacklist
      else if c = 4 then Some Directional
      else None)"

fun is_simple :: "PolicyType \<Rightarrow> bool" where
  "is_simple Whitelist = True"
| "is_simple Blacklist = True"
| "is_simple _ = False"

definition PolicyDescriptor_builtin :: "u256 \<Rightarrow> PolicyType \<Rightarrow> PolicyDescriptor" where
  "PolicyDescriptor_builtin pid ty =
     \<lparr>policy_id = pid, policy_type = PolicyType_u8 ty, admin = 0, pending_admin = 0,
      send_policy_id = 0, receive_policy_id = 0, mint_policy_id = 0\<rparr>"

section \<open>Reads\<close>

definition emit_policy :: "PolicyEvent \<Rightarrow> unit registry_prog" where
  "emit_policy ev = writeM (\<lambda>r. r\<lparr>registry_logs := registry_logs r @ [ev]\<rparr>)"

definition policy_exists :: "u256 \<Rightarrow> StablecoinPolicyRegistryContract \<Rightarrow> bool" where
  "policy_exists pid r \<longleftrightarrow>
     pid = DENY_ALL_POLICY_ID \<or> pid = ALLOW_ALL_POLICY_ID \<or> policies r pid \<noteq> None"

definition optional_descriptor ::
    "u256 \<Rightarrow> StablecoinPolicyRegistryContract \<Rightarrow> PolicyDescriptor option" where
  "optional_descriptor pid r =
     (if pid = DENY_ALL_POLICY_ID then Some (PolicyDescriptor_builtin DENY_ALL_POLICY_ID DenyAll)
      else if pid = ALLOW_ALL_POLICY_ID
      then Some (PolicyDescriptor_builtin ALLOW_ALL_POLICY_ID AllowAll)
      else policies r pid)"

definition descriptor :: "u256 \<Rightarrow> PolicyDescriptor registry_prog" where
  "descriptor pid =
     (if pid = DENY_ALL_POLICY_ID
      then retM (PolicyDescriptor_builtin DENY_ALL_POLICY_ID DenyAll)
      else if pid = ALLOW_ALL_POLICY_ID
      then retM (PolicyDescriptor_builtin ALLOW_ALL_POLICY_ID AllowAll)
      else
        bindM (getsM (\<lambda>r. policies r pid)) (\<lambda>d.
        unwrapM d (policy_error (UnknownPolicy pid))))"

definition descriptor_type :: "PolicyDescriptor \<Rightarrow> PolicyType registry_prog" where
  "descriptor_type d =
     unwrapM (PolicyType_try_from (policy_type d))
       (Fatal (Text ''policy has unknown stored descriptor''))"

definition get_policy_type :: "u256 \<Rightarrow> PolicyType registry_prog" where
  "get_policy_type pid = bindM (descriptor pid) descriptor_type"

definition policy_admin :: "u256 \<Rightarrow> address registry_prog" where
  "policy_admin pid = bindM (descriptor pid) (\<lambda>d. retM (admin d))"

definition pending_policy_admin :: "u256 \<Rightarrow> address registry_prog" where
  "pending_policy_admin pid = bindM (descriptor pid) (\<lambda>d. retM (pending_admin d))"

definition is_member :: "u256 \<Rightarrow> address \<Rightarrow> StablecoinPolicyRegistryContract \<Rightarrow> bool" where
  "is_member pid account r =
     (case optional_descriptor pid r of
        None \<Rightarrow> False
      | Some d \<Rightarrow>
          (case PolicyType_try_from (policy_type d) of
             None \<Rightarrow> False
           | Some ty \<Rightarrow>
               if \<not> is_simple ty then False
               else StorageSet_contains account (member_set r pid)))"

definition require_enumerable :: "u256 \<Rightarrow> PolicyType \<Rightarrow> unit registry_prog" where
  "require_enumerable pid ty =
     (if is_simple ty then retM ()
      else failM (policy_error (PolicyMemberEnumerationUnsupported pid (PolicyType_u8 ty))))"

definition policy_member_count :: "u256 \<Rightarrow> u256 registry_prog" where
  "policy_member_count pid =
     bindM (get_policy_type pid) (\<lambda>ty.
     bindM (require_enumerable pid ty) (\<lambda>_.
     getsM (\<lambda>r. ucast (sset_len (member_set r pid)))))"

definition list_policy_members :: "u256 \<Rightarrow> u256 \<Rightarrow> u256 \<Rightarrow> address list registry_prog" where
  "list_policy_members pid offset limit =
     (if limit = 0 \<or> limit > word_of_nat STABLECOIN_LIST_PAGE_CAP
      then failM (policy_error (InvalidListLimit limit STABLECOIN_LIST_PAGE_CAP))
      else
        bindM (get_policy_type pid) (\<lambda>ty.
        bindM (require_enumerable pid ty) (\<lambda>_.
        bindM (getsM (\<lambda>r. member_set r pid)) (\<lambda>members.
        let count = sset_len members in
        if offset \<ge> ucast count then retM []
        else
          let start = (ucast offset :: u32);
              requested = (ucast limit :: u32);
              end = min (saturating_add start requested) count
          in traverseM (\<lambda>index.
               unwrapM (StorageSet_at (word_of_nat index) members)
                 (Fatal (Text ''policy member set length/data mismatch'')))
               [unat start..<unat end]))))"

definition can_simple_child :: "u256 \<Rightarrow> address \<Rightarrow> StablecoinPolicyRegistryContract \<Rightarrow> bool" where
  "can_simple_child pid account r =
     (case optional_descriptor pid r of
        None \<Rightarrow> False
      | Some d \<Rightarrow>
          (case PolicyType_try_from (policy_type d) of
             Some DenyAll \<Rightarrow> False
           | Some AllowAll \<Rightarrow> True
           | Some Whitelist \<Rightarrow> StorageSet_contains account (member_set r pid)
           | Some Blacklist \<Rightarrow> \<not> StorageSet_contains account (member_set r pid)
           | Some Directional \<Rightarrow> False
           | None \<Rightarrow> False))"

definition lane_child :: "PolicyLane \<Rightarrow> PolicyDescriptor \<Rightarrow> u256" where
  "lane_child lane d =
     (case lane of
        Send \<Rightarrow> send_policy_id d
      | Receive \<Rightarrow> receive_policy_id d
      | Mint \<Rightarrow> mint_policy_id d)"

definition can :: "u256 \<Rightarrow> address \<Rightarrow> PolicyLane \<Rightarrow> StablecoinPolicyRegistryContract \<Rightarrow> bool" where
  "can pid account lane r =
     (case optional_descriptor pid r of
        None \<Rightarrow> False
      | Some d \<Rightarrow>
          (case PolicyType_try_from (policy_type d) of
             None \<Rightarrow> False
           | Some DenyAll \<Rightarrow> False
           | Some AllowAll \<Rightarrow> True
           | Some Whitelist \<Rightarrow> StorageSet_contains account (member_set r pid)
           | Some Blacklist \<Rightarrow> \<not> StorageSet_contains account (member_set r pid)
           | Some Directional \<Rightarrow> can_simple_child (lane_child lane d) account r))"

section \<open>Creation\<close>

definition validate_admin :: "address \<Rightarrow> unit registry_prog" where
  "validate_admin a = requireM (a \<noteq> 0) (policy_error (InvalidPolicyAdmin a))"

definition next_id :: "u256 registry_prog" where
  "next_id =
     bindM (getsM next_policy_id) (\<lambda>stored.
     if stored = 0 then retM FIRST_MUTABLE_POLICY_ID
     else if stored < FIRST_MUTABLE_POLICY_ID
     then failM (Fatal (Text ''stablecoin policy next id is corrupt''))
     else retM stored)"

text \<open>\<open>Map::create\<close> and \<open>Map::update\<close> of a storage record.\<close>

definition policies_map_create :: "PolicyDescriptor \<Rightarrow> unit registry_prog" where
  "policies_map_create d =
     bindM (getsM (\<lambda>r. policies r (policy_id d))) (\<lambda>old.
     if old \<noteq> None then failM (Revert (Text ''already exists''))
     else writeM (\<lambda>r. r\<lparr>policies := (policies r)(policy_id d := Some d)\<rparr>))"

definition policies_map_update :: "PolicyDescriptor \<Rightarrow> unit registry_prog" where
  "policies_map_update d =
     bindM (getsM (\<lambda>r. policies r (policy_id d))) (\<lambda>old.
     if old = None then failM (Revert (Text ''not found''))
     else writeM (\<lambda>r. r\<lparr>policies := (policies r)(policy_id d := Some d)\<rparr>))"

definition create_descriptor ::
    "address \<Rightarrow> PolicyType \<Rightarrow> address \<Rightarrow> u256 \<times> u256 \<times> u256 \<Rightarrow> u256 registry_prog" where
  "create_descriptor actor ty adm children =
     (case children of (send, receive, mint) \<Rightarrow>
     bindM next_id (\<lambda>pid.
     bindM (getsM (\<lambda>r. policies r pid)) (\<lambda>old.
     if old \<noteq> None
     then failM (Fatal (Text ''stablecoin policy next id collides with an existing descriptor''))
     else
       bindM (unwrapM (checked_add pid 1) (policy_error PolicyIdExhausted)) (\<lambda>nxt.
       let d = \<lparr>policy_id = pid, policy_type = PolicyType_u8 ty, admin = adm, pending_admin = 0,
                send_policy_id = send, receive_policy_id = receive, mint_policy_id = mint\<rparr>
       in
       bindM (with_checkpoint (
         bindM (policies_map_create d) (\<lambda>_.
         bindM (writeM (\<lambda>r. r\<lparr>next_policy_id := nxt\<rparr>)) (\<lambda>_.
         emit_policy (PolicyCreated pid actor adm (PolicyType_u8 ty) send receive mint))))) (\<lambda>_.
       retM pid)))))"

definition create_policy :: "address \<Rightarrow> u8 \<Rightarrow> address \<Rightarrow> u256 registry_prog" where
  "create_policy actor c adm =
     bindM (unwrapM (PolicyType_try_from c) (policy_error (InvalidPolicyType c))) (\<lambda>ty.
     if \<not> is_simple ty then failM (policy_error (InvalidPolicyType (PolicyType_u8 ty)))
     else
       bindM (validate_admin adm) (\<lambda>_.
       create_descriptor actor ty adm (0, 0, 0)))"

definition validate_directional_child :: "u256 \<Rightarrow> unit registry_prog" where
  "validate_directional_child child =
     bindM (getsM (optional_descriptor child)) (\<lambda>od.
     case od of
       None \<Rightarrow> failM (policy_error (InvalidDirectionalChild child))
     | Some d \<Rightarrow>
         bindM (descriptor_type d) (\<lambda>ty.
         if ty = Directional then failM (policy_error (InvalidDirectionalChild child))
         else retM ()))"

definition create_directional_policy ::
    "address \<Rightarrow> address \<Rightarrow> u256 \<Rightarrow> u256 \<Rightarrow> u256 \<Rightarrow> u256 registry_prog" where
  "create_directional_policy actor adm send receive mint =
     bindM (validate_admin adm) (\<lambda>_.
     bindM (forEachM validate_directional_child [send, receive, mint]) (\<lambda>_.
     create_descriptor actor Directional adm (send, receive, mint)))"

section \<open>Administration and membership\<close>

definition mutable_descriptor :: "u256 \<Rightarrow> PolicyDescriptor registry_prog" where
  "mutable_descriptor pid =
     (if pid = DENY_ALL_POLICY_ID \<or> pid = ALLOW_ALL_POLICY_ID
      then failM (policy_error (ImmutablePolicy pid))
      else descriptor pid)"

definition mutable_descriptor_for_admin :: "u256 \<Rightarrow> address \<Rightarrow> PolicyDescriptor registry_prog" where
  "mutable_descriptor_for_admin pid caller =
     bindM (mutable_descriptor pid) (\<lambda>d.
     if admin d \<noteq> caller then failM (policy_error (UnauthorizedPolicyAdmin pid caller))
     else retM d)"

definition begin_policy_admin_transfer :: "u256 \<Rightarrow> address \<Rightarrow> address \<Rightarrow> unit registry_prog" where
  "begin_policy_admin_transfer pid caller candidate =
     bindM (mutable_descriptor_for_admin pid caller) (\<lambda>d.
     if candidate = 0 \<or> candidate = admin d
     then failM (policy_error (InvalidPendingPolicyAdmin candidate))
     else
       with_checkpoint (
         bindM (policies_map_update (d\<lparr>pending_admin := candidate\<rparr>)) (\<lambda>_.
         emit_policy (PolicyAdminTransferStarted pid (admin d) candidate))))"

definition cancel_policy_admin_transfer :: "u256 \<Rightarrow> address \<Rightarrow> unit registry_prog" where
  "cancel_policy_admin_transfer pid caller =
     bindM (mutable_descriptor_for_admin pid caller) (\<lambda>d.
     if pending_admin d = 0 then failM (policy_error (InvalidPendingPolicyAdmin 0))
     else
       with_checkpoint (
         bindM (policies_map_update (d\<lparr>pending_admin := 0\<rparr>)) (\<lambda>_.
         emit_policy (PolicyAdminTransferCancelled pid caller (pending_admin d)))))"

definition accept_policy_admin_transfer :: "u256 \<Rightarrow> address \<Rightarrow> unit registry_prog" where
  "accept_policy_admin_transfer pid caller =
     bindM (mutable_descriptor pid) (\<lambda>d.
     if pending_admin d \<noteq> caller then failM (policy_error (NotPendingPolicyAdmin pid caller))
     else
       with_checkpoint (
         bindM (policies_map_update (d\<lparr>admin := caller, pending_admin := 0\<rparr>)) (\<lambda>_.
         emit_policy (PolicyAdminTransferred pid (admin d) caller))))"

fun validate_member_loop :: "address set \<Rightarrow> address list \<Rightarrow> unit registry_prog" where
  "validate_member_loop unique [] = retM ()"
| "validate_member_loop unique (account # accounts) =
     (if account = 0 then failM (policy_error (InvalidMember account))
      else if account \<in> unique then failM (policy_error (DuplicateMember account))
      else validate_member_loop (insert account unique) accounts)"

definition validate_member_batch :: "address list \<Rightarrow> unit registry_prog" where
  "validate_member_batch accounts =
     (if accounts = [] then failM (policy_error EmptyMemberBatch)
      else if length accounts > STABLECOIN_POLICY_MEMBER_BATCH_CAP
      then failM (policy_error
        (MemberBatchTooLarge (length accounts) STABLECOIN_POLICY_MEMBER_BATCH_CAP))
      else validate_member_loop {} accounts)"

definition on_members :: "u256 \<Rightarrow> (address StorageSet, PolicyRegistryError, 'a) prog \<Rightarrow> 'a registry_prog" where
  "on_members pid =
     zoomM (\<lambda>r. member_set r pid) (\<lambda>m r. r\<lparr>member_set := (member_set r)(pid := m)\<rparr>)"

definition mutate_member :: "u256 \<Rightarrow> address \<Rightarrow> bool \<Rightarrow> address \<Rightarrow> unit registry_prog" where
  "mutate_member pid caller add account =
     bindM (on_members pid (if add then StorageSet_insert account else StorageSet_remove account))
       (\<lambda>changed.
     if \<not> changed
     then failM (Fatal (Text ''validated policy membership changed during mutation''))
     else emit_policy (if add then PolicyMemberAdded pid account caller
                       else PolicyMemberRemoved pid account caller))"

definition mutate_members :: "u256 \<Rightarrow> address \<Rightarrow> address list \<Rightarrow> bool \<Rightarrow> unit registry_prog" where
  "mutate_members pid caller accounts add =
     bindM (mutable_descriptor_for_admin pid caller) (\<lambda>d.
     bindM (descriptor_type d) (\<lambda>ty.
     if \<not> is_simple ty then failM (policy_error (DirectionalMembershipUnsupported pid))
     else
       bindM (validate_member_batch accounts) (\<lambda>_.
       bindM (forEachM (\<lambda>account.
                bindM (getsM (\<lambda>r. StorageSet_contains account (member_set r pid))) (\<lambda>c.
                requireM (c \<noteq> add) (policy_error (MembershipUnchanged pid account add))))
              accounts) (\<lambda>_.
       with_checkpoint (forEachM (mutate_member pid caller add) accounts)))))"

definition add_members :: "u256 \<Rightarrow> address \<Rightarrow> address list \<Rightarrow> unit registry_prog" where
  "add_members pid caller accounts = mutate_members pid caller accounts True"

definition remove_members :: "u256 \<Rightarrow> address \<Rightarrow> address list \<Rightarrow> unit registry_prog" where
  "remove_members pid caller accounts = mutate_members pid caller accounts False"

section \<open>Dispatch\<close>

datatype RegistryCall =
    createPolicy u8 address
  | createDirectionalPolicy address u256 u256 u256
  | addMembers u256 "address list"
  | removeMembers u256 "address list"
  | beginPolicyAdminTransfer u256 address
  | cancelPolicyAdminTransfer u256
  | acceptPolicyAdminTransfer u256
  | policyExists u256
  | policyType u256
  | policyAdmin u256
  | pendingPolicyAdmin u256
  | isMember u256 address
  | policyMemberCount u256
  | listPolicyMembers u256 u256 u256
  | canSend u256 address
  | canReceive u256 address
  | canMint u256 address

datatype RegistryReturn =
    RNone | RU256 u256 | RU8 u8 | RBool bool | RAddress address | RAddresses "address list"

definition thenM :: "('a \<Rightarrow> 'b) \<Rightarrow> ('c, 'e, 'a) prog \<Rightarrow> ('c, 'e, 'b) prog" where
  "thenM f m = bindM m (\<lambda>a. retM (f a))"

fun registry_call :: "address \<Rightarrow> RegistryCall \<Rightarrow> RegistryReturn registry_prog" where
  "registry_call caller (createPolicy ty adm) = thenM RU256 (create_policy caller ty adm)"
| "registry_call caller (createDirectionalPolicy adm s r m) =
     thenM RU256 (create_directional_policy caller adm s r m)"
| "registry_call caller (addMembers pid xs) = thenM (\<lambda>_. RNone) (add_members pid caller xs)"
| "registry_call caller (removeMembers pid xs) = thenM (\<lambda>_. RNone) (remove_members pid caller xs)"
| "registry_call caller (beginPolicyAdminTransfer pid c) =
     thenM (\<lambda>_. RNone) (begin_policy_admin_transfer pid caller c)"
| "registry_call caller (cancelPolicyAdminTransfer pid) =
     thenM (\<lambda>_. RNone) (cancel_policy_admin_transfer pid caller)"
| "registry_call caller (acceptPolicyAdminTransfer pid) =
     thenM (\<lambda>_. RNone) (accept_policy_admin_transfer pid caller)"
| "registry_call caller (policyExists pid) = getsM (\<lambda>r. RBool (policy_exists pid r))"
| "registry_call caller (policyType pid) = thenM (\<lambda>ty. RU8 (PolicyType_u8 ty)) (get_policy_type pid)"
| "registry_call caller (policyAdmin pid) = thenM RAddress (policy_admin pid)"
| "registry_call caller (pendingPolicyAdmin pid) = thenM RAddress (pending_policy_admin pid)"
| "registry_call caller (isMember pid a) = getsM (\<lambda>r. RBool (is_member pid a r))"
| "registry_call caller (policyMemberCount pid) = thenM RU256 (policy_member_count pid)"
| "registry_call caller (listPolicyMembers pid off lim) =
     thenM RAddresses (list_policy_members pid off lim)"
| "registry_call caller (canSend pid a) = getsM (\<lambda>r. RBool (can pid a Send r))"
| "registry_call caller (canReceive pid a) = getsM (\<lambda>r. RBool (can pid a Receive r))"
| "registry_call caller (canMint pid a) = getsM (\<lambda>r. RBool (can pid a Mint r))"

definition registry_dispatch :: "address \<Rightarrow> u256 \<Rightarrow> RegistryCall \<Rightarrow> RegistryReturn registry_prog" where
  "registry_dispatch caller value call =
     (if value \<noteq> 0 then failM (policy_error (UnexpectedValue value))
      else registry_call caller call)"

text \<open>The registry of a fresh chain: every slot is zero.\<close>

definition registry_genesis :: StablecoinPolicyRegistryContract where
  "registry_genesis =
     \<lparr>next_policy_id = 0, policies = (\<lambda>_. None), member_set = (\<lambda>_. sset_empty), registry_logs = []\<rparr>"

text \<open>
  The states after dispatched calls, successful or not, of which \<open>n\<close> were successful \<open>addMembers\<close>. No
  account has the zero address, so no call comes from it.
\<close>

definition additions :: "RegistryCall \<Rightarrow> 'e + 'a \<Rightarrow> nat" where
  "additions c res = (case (c, res) of (addMembers _ _, Inr _) \<Rightarrow> 1 | _ \<Rightarrow> 0)"

inductive registry_reach :: "nat \<Rightarrow> StablecoinPolicyRegistryContract \<Rightarrow> bool" where
  genesis: "registry_reach 0 registry_genesis"
| call: "registry_reach n r \<Longrightarrow> caller \<noteq> 0 \<Longrightarrow>
    registry_dispatch caller value c \<lparr>store = r, budget = b\<rparr> = (res, t) \<Longrightarrow>
    registry_reach (n + additions c res) (store t)"

section \<open>Invariant\<close>

definition effective_next :: "StablecoinPolicyRegistryContract \<Rightarrow> u256" where
  "effective_next r = (if next_policy_id r = 0 then 2 else next_policy_id r)"

definition simple_or_builtin :: "StablecoinPolicyRegistryContract \<Rightarrow> u256 \<Rightarrow> bool" where
  "simple_or_builtin r pid \<longleftrightarrow>
     pid = 0 \<or> pid = 1 \<or> (\<exists>d. policies r pid = Some d \<and> (policy_type d = 2 \<or> policy_type d = 3))"

definition valid_descriptor :: "StablecoinPolicyRegistryContract \<Rightarrow> u256 \<Rightarrow> PolicyDescriptor \<Rightarrow> bool" where
  "valid_descriptor r pid d \<longleftrightarrow>
     2 \<le> pid \<and> pid < effective_next r \<and> policy_id d = pid \<and> admin d \<noteq> 0 \<and>
     (policy_type d = 2 \<or> policy_type d = 3 \<or>
      policy_type d = 4 \<and> (\<forall>lane. simple_or_builtin r (lane_child lane d)))"

definition registry_inv :: "StablecoinPolicyRegistryContract \<Rightarrow> bool" where
  "registry_inv r \<longleftrightarrow>
     (next_policy_id r = 0 \<or> 2 \<le> next_policy_id r) \<and>
     (\<forall>pid d. policies r pid = Some d \<longrightarrow> valid_descriptor r pid d) \<and>
     (\<forall>pid. sset_inv (member_set r pid)) \<and>
     (\<forall>pid v. StorageSet_contains v (member_set r pid) \<longrightarrow>
        v \<noteq> 0 \<and> (\<exists>d. policies r pid = Some d \<and> (policy_type d = 2 \<or> policy_type d = 3)))"

definition registry_room :: "nat \<Rightarrow> StablecoinPolicyRegistryContract \<Rightarrow> bool" where
  "registry_room n r \<longleftrightarrow> (\<forall>pid. sset_room n (member_set r pid))"

text \<open>The states that differ only in one descriptor and in the logs.\<close>

definition same_but_descriptor ::
    "u256 \<Rightarrow> PolicyDescriptor \<Rightarrow> StablecoinPolicyRegistryContract \<Rightarrow>
     StablecoinPolicyRegistryContract \<Rightarrow> bool" where
  "same_but_descriptor pid d r r' \<longleftrightarrow>
     next_policy_id r' = next_policy_id r \<and> policies r' = (policies r)(pid := Some d) \<and>
     member_set r' = member_set r"

text \<open>Concrete registries, for the witnesses.\<close>

definition sample_registry :: StablecoinPolicyRegistryContract where
  "sample_registry = store (snd (registry_dispatch 5 0 (createPolicy 2 5)
     \<lparr>store = registry_genesis, budget = 10\<rparr>))"

definition sample_directional :: StablecoinPolicyRegistryContract where
  "sample_directional = store (snd (registry_dispatch 5 0 (createDirectionalPolicy 5 0 1 2)
     \<lparr>store = sample_registry, budget = 10\<rparr>))"

section \<open>Which runs succeed\<close>

lemmas policy_ids = DENY_ALL_POLICY_ID_def ALLOW_ALL_POLICY_ID_def FIRST_MUTABLE_POLICY_ID_def

lemma thenM_ok [prog_ok]: "thenM f m s = (Inr b, t) \<longleftrightarrow> (\<exists>a. m s = (Inr a, t) \<and> b = f a)"
  by (auto simp: thenM_def prog_ok)

lemma atomic_thenM: "atomic_prog m \<Longrightarrow> atomic_prog (thenM f m)"
  unfolding thenM_def by (rule atomic_bind_retM)

lemma PolicyType_round_trip [simp]: "PolicyType_try_from (PolicyType_u8 ty) = Some ty"
  by (cases ty) (simp_all add: PolicyType_try_from_def)

lemma PolicyType_try_from_Some: "PolicyType_try_from c = Some ty \<longleftrightarrow> c = PolicyType_u8 ty"
  by (cases ty) (auto simp: PolicyType_try_from_def split: if_splits)

lemma is_simple_u8: "is_simple ty \<longleftrightarrow> PolicyType_u8 ty = 2 \<or> PolicyType_u8 ty = 3"
  by (cases ty) auto

lemma emit_policy_ok [prog_ok]:
  "emit_policy ev s = (Inr u, t) \<longleftrightarrow>
     0 < budget s \<and> t = s\<lparr>store := (store s)\<lparr>registry_logs := registry_logs (store s) @ [ev]\<rparr>,
                          budget := budget s - 1\<rparr>"
  by (simp add: emit_policy_def prog_ok)

lemma descriptor_type_ok [prog_ok]:
  "descriptor_type d s = (Inr ty, t) \<longleftrightarrow> policy_type d = PolicyType_u8 ty \<and> t = s"
  by (simp add: descriptor_type_def prog_ok PolicyType_try_from_Some)

lemma mutable_descriptor_ok [prog_ok]:
  "mutable_descriptor pid s = (Inr d, t) \<longleftrightarrow>
     t = s \<and> pid \<noteq> 0 \<and> pid \<noteq> 1 \<and> policies (store s) pid = Some d"
  by (auto simp: mutable_descriptor_def descriptor_def policy_ids prog_ok)

lemma mutable_descriptor_for_admin_ok [prog_ok]:
  "mutable_descriptor_for_admin pid caller s = (Inr d, t) \<longleftrightarrow>
     t = s \<and> pid \<noteq> 0 \<and> pid \<noteq> 1 \<and> policies (store s) pid = Some d \<and> admin d = caller"
  by (auto simp: mutable_descriptor_for_admin_def prog_ok)

lemma policies_map_update_ok [prog_ok]:
  "policies_map_update d s = (Inr u, t) \<longleftrightarrow>
     policies (store s) (policy_id d) \<noteq> None \<and> 0 < budget s \<and>
     t = s\<lparr>store := (store s)\<lparr>policies := (policies (store s))(policy_id d := Some d)\<rparr>,
           budget := budget s - 1\<rparr>"
  by (auto simp: policies_map_update_def prog_ok)

lemma create_descriptor_ok:
  assumes "create_descriptor actor ty adm (a, b, c) s = (Inr pid, t)"
  defines "d \<equiv> \<lparr>policy_id = pid, policy_type = PolicyType_u8 ty, admin = adm, pending_admin = 0,
                send_policy_id = a, receive_policy_id = b, mint_policy_id = c\<rparr>"
  shows "pid = effective_next (store s)" "2 \<le> pid" "policies (store s) pid = None"
    "unat pid + 1 < 2 ^ 256" "policies (store t) = (policies (store s))(pid := Some d)"
    "next_policy_id (store t) = pid + 1" "member_set (store t) = member_set (store s)"
  using assms(1)
  by (auto simp: create_descriptor_def next_id_def policies_map_create_def effective_next_def
      policy_ids Let_def d_def prog_ok split: if_splits)

lemma begin_policy_admin_transfer_ok:
  assumes "begin_policy_admin_transfer pid caller candidate s = (Inr u, t)" "registry_inv (store s)"
  obtains d where "policies (store s) pid = Some d" "admin d = caller"
    "candidate \<noteq> 0" "candidate \<noteq> caller"
    "same_but_descriptor pid (d\<lparr>pending_admin := candidate\<rparr>) (store s) (store t)"
  using assms
  by (auto simp: begin_policy_admin_transfer_def prog_ok registry_inv_def valid_descriptor_def
      same_but_descriptor_def split: if_splits)

lemma cancel_policy_admin_transfer_ok:
  assumes "cancel_policy_admin_transfer pid caller s = (Inr u, t)" "registry_inv (store s)"
  obtains d where "policies (store s) pid = Some d" "admin d = caller" "pending_admin d \<noteq> 0"
    "same_but_descriptor pid (d\<lparr>pending_admin := 0\<rparr>) (store s) (store t)"
  using assms
  by (auto simp: cancel_policy_admin_transfer_def prog_ok registry_inv_def valid_descriptor_def
      same_but_descriptor_def split: if_splits)

lemma accept_policy_admin_transfer_ok:
  assumes "accept_policy_admin_transfer pid caller s = (Inr u, t)" "registry_inv (store s)"
  obtains d where "policies (store s) pid = Some d" "pending_admin d = caller"
    "same_but_descriptor pid (d\<lparr>admin := caller, pending_admin := 0\<rparr>) (store s) (store t)"
  using assms
  by (auto simp: accept_policy_admin_transfer_def prog_ok registry_inv_def valid_descriptor_def
      same_but_descriptor_def split: if_splits)

lemma validate_member_loop_ok:
  "validate_member_loop unique xs s = (Inr u, t) \<longleftrightarrow>
     t = s \<and> distinct xs \<and> 0 \<notin> set xs \<and> set xs \<inter> unique = {}"
  by (induction xs arbitrary: unique) (auto simp: prog_ok)

lemma validate_member_batch_ok [prog_ok]:
  "validate_member_batch xs s = (Inr u, t) \<longleftrightarrow>
     t = s \<and> xs \<noteq> [] \<and> length xs \<le> 64 \<and> distinct xs \<and> 0 \<notin> set xs"
  by (auto simp: validate_member_batch_def STABLECOIN_POLICY_MEMBER_BATCH_CAP_def prog_ok
      validate_member_loop_ok)

lemma forEachM_check_ok:
  "forEachM (\<lambda>x. bindM (getsM (f x)) (\<lambda>c. requireM (P c) (e x))) xs s = (Inr u, t) \<longleftrightarrow>
     t = s \<and> (\<forall>x \<in> set xs. P (f x (store s)))"
  by (induction xs) (auto simp: prog_ok)

lemma mutate_member_ok:
  assumes "mutate_member pid caller add account s = (Inr u, t)"
  obtains m where
    "(if add then StorageSet_insert account else StorageSet_remove account)
       \<lparr>store = member_set (store s) pid, budget = budget s\<rparr> =
       ((Inr True :: PolicyRegistryError precompile_error + bool), m)"
    "member_set (store t) = (member_set (store s))(pid := store m)"
    "policies (store t) = policies (store s)" "next_policy_id (store t) = next_policy_id (store s)"
  using assms
  by (auto simp: mutate_member_def on_members_def zoomM_def prog_ok split: if_splits prod.splits)

lemma mutate_member_frame:
  "forEachM (mutate_member pid caller add) xs s = (Inr u, t) \<Longrightarrow>
     policies (store t) = policies (store s) \<and> next_policy_id (store t) = next_policy_id (store s) \<and>
     (\<forall>q. q \<noteq> pid \<longrightarrow> member_set (store t) q = member_set (store s) q)"
proof (induction xs arbitrary: s)
  case Nil
  then show ?case by (simp add: prog_ok)
next
  case (Cons x xs)
  then obtain m where m: "mutate_member pid caller add x s = (Inr (), m)"
    "forEachM (mutate_member pid caller add) xs m = (Inr u, t)"
    by (auto simp: prog_ok)
  show ?case
    using Cons.IH[OF m(2)] by - (rule mutate_member_ok[OF m(1)], auto)
qed

lemma mutate_members_ok:
  assumes "mutate_members pid caller xs add s = (Inr u, t)"
  obtains d where "policies (store s) pid = Some d" "admin d = caller"
    "policy_type d = 2 \<or> policy_type d = 3" "distinct xs" "0 \<notin> set xs" "length xs \<le> 64"
    "\<forall>x \<in> set xs. StorageSet_contains x (member_set (store s) pid) \<longleftrightarrow> \<not> add"
    "forEachM (mutate_member pid caller add) xs s = (Inr (), t)"
    "policies (store t) = policies (store s)" "next_policy_id (store t) = next_policy_id (store s)"
    "\<forall>q. q \<noteq> pid \<longrightarrow> member_set (store t) q = member_set (store s) q"
  using assms mutate_member_frame[of pid caller add xs s "()" t]
  by (auto simp: mutate_members_def prog_ok forEachM_check_ok is_simple_u8 split: if_splits)

lemma add_members_ok:
  assumes run: "add_members pid caller xs s = (Inr u, t)" and inv: "registry_inv (store s)"
    and room: "registry_room (64 + n) (store s)"
  shows "sset_inv (member_set (store t) pid)" "sset_room n (member_set (store t) pid)"
    "StorageSet_read_all (member_set (store t) pid) =
       StorageSet_read_all (member_set (store s) pid) @ xs"
proof -
  have "\<exists>m. StorageSet_insert a \<lparr>store = member_set (store s) pid, budget = budget s\<rparr> =
      ((Inr True :: PolicyRegistryError precompile_error + bool), m) \<and>
      member_set (store t) pid = store m"
    if "mutate_member pid caller True a s = (Inr (), t)" for a s t
    using that by - (rule mutate_member_ok[OF that], auto)
  note batch = lset.ins_batch[where f = "mutate_member pid caller True"
      and get = "\<lambda>r. member_set r pid", OF this]
  have "forEachM (mutate_member pid caller True) xs s = (Inr (), t)" "length xs \<le> 64"
    using run unfolding add_members_def by - (rule mutate_members_ok, assumption, simp)+
  moreover have "sset_inv (member_set (store s) pid)" using inv by (simp add: registry_inv_def)
  moreover have "sset_room (length xs + n) (member_set (store s) pid)"
    using room \<open>length xs \<le> 64\<close> by (auto simp: registry_room_def intro: lset.room_mono)
  ultimately show "sset_inv (member_set (store t) pid)" "sset_room n (member_set (store t) pid)"
    "StorageSet_read_all (member_set (store t) pid) =
       StorageSet_read_all (member_set (store s) pid) @ xs"
    using batch by blast+
qed

lemma remove_members_ok:
  assumes run: "remove_members pid caller xs s = (Inr u, t)" and inv: "registry_inv (store s)"
    and room: "registry_room n (store s)"
  shows "sset_inv (member_set (store t) pid)" "sset_room n (member_set (store t) pid)"
    "set (StorageSet_read_all (member_set (store t) pid)) =
       set (StorageSet_read_all (member_set (store s) pid)) - set xs"
proof -
  have "\<exists>m. StorageSet_remove a \<lparr>store = member_set (store s) pid, budget = budget s\<rparr> =
      ((Inr True :: PolicyRegistryError precompile_error + bool), m) \<and>
      member_set (store t) pid = store m"
    if "mutate_member pid caller False a s = (Inr (), t)" for a s t
    using that by - (rule mutate_member_ok[OF that], auto)
  note batch = lset.del_batch[where f = "mutate_member pid caller False"
      and get = "\<lambda>r. member_set r pid", OF this]
  have "forEachM (mutate_member pid caller False) xs s = (Inr (), t)"
    using run unfolding remove_members_def by - (rule mutate_members_ok, assumption, simp)
  moreover have "sset_inv (member_set (store s) pid)" using inv by (simp add: registry_inv_def)
  moreover have "sset_room n (member_set (store s) pid)"
    using room by (simp add: registry_room_def)
  ultimately show "sset_inv (member_set (store t) pid)" "sset_room n (member_set (store t) pid)"
    "set (StorageSet_read_all (member_set (store t) pid)) =
       set (StorageSet_read_all (member_set (store s) pid)) - set xs"
    using batch by blast+
qed

section \<open>A failed call changes nothing\<close>

lemma pure_descriptor [pure_intros]: "pure_prog (descriptor pid)"
  unfolding descriptor_def by (intro pure_intros)

lemma pure_descriptor_type [pure_intros]: "pure_prog (descriptor_type d)"
  unfolding descriptor_type_def by (intro pure_intros)

lemma pure_get_policy_type [pure_intros]: "pure_prog (get_policy_type pid)"
  unfolding get_policy_type_def by (intro pure_intros)

lemma pure_require_enumerable [pure_intros]: "pure_prog (require_enumerable pid ty)"
  unfolding require_enumerable_def by (intro pure_intros)

lemma pure_list_policy_members [pure_intros]: "pure_prog (list_policy_members pid off lim)"
  unfolding list_policy_members_def Let_def by (intro pure_intros)

lemma pure_mutable_descriptor [pure_intros]: "pure_prog (mutable_descriptor pid)"
  unfolding mutable_descriptor_def by (intro pure_intros)

lemma pure_mutable_descriptor_for_admin [pure_intros]:
  "pure_prog (mutable_descriptor_for_admin pid caller)"
  unfolding mutable_descriptor_for_admin_def by (intro pure_intros)

lemma pure_validate_admin [pure_intros]: "pure_prog (validate_admin a)"
  unfolding validate_admin_def by (intro pure_intros)

lemma pure_validate_directional_child [pure_intros]: "pure_prog (validate_directional_child c)"
  unfolding validate_directional_child_def by (intro pure_intros)

lemma pure_next_id [pure_intros]: "pure_prog next_id"
  unfolding next_id_def by (intro pure_intros)

lemma pure_validate_member_loop [pure_intros]: "pure_prog (validate_member_loop unique xs)"
  by (induction xs arbitrary: unique) (simp_all add: pure_intros)

lemma pure_validate_member_batch [pure_intros]: "pure_prog (validate_member_batch xs)"
  unfolding validate_member_batch_def by (intro pure_intros)

lemma atomic_create_descriptor [atomic_intros]:
  "atomic_prog (create_descriptor actor ty adm children)"
  unfolding create_descriptor_def Let_def prod.case_distrib[of atomic_prog]
  by (cases children, simp only: prod.case)
    (intro atomic_bindM pure_intros atomic_if atomic_failM atomic_bind_retM atomic_with_checkpoint)

lemma atomic_mutate_members [atomic_intros]: "atomic_prog (mutate_members pid caller xs add)"
  unfolding mutate_members_def by (intro atomic_intros pure_intros)

lemma atomic_registry_call: "atomic_prog (registry_call caller c)"
proof (cases c)
  case (createPolicy ty adm)
  show ?thesis
    unfolding createPolicy registry_call.simps create_policy_def
    by (intro atomic_thenM atomic_intros pure_intros)
next
  case (createDirectionalPolicy adm a b d)
  show ?thesis
    unfolding createDirectionalPolicy registry_call.simps create_directional_policy_def
    by (intro atomic_thenM atomic_intros pure_intros)
next
  case (beginPolicyAdminTransfer pid x)
  show ?thesis
    unfolding beginPolicyAdminTransfer registry_call.simps begin_policy_admin_transfer_def
    by (intro atomic_thenM atomic_intros pure_intros)
next
  case (cancelPolicyAdminTransfer pid)
  show ?thesis
    unfolding cancelPolicyAdminTransfer registry_call.simps cancel_policy_admin_transfer_def
    by (intro atomic_thenM atomic_intros pure_intros)
next
  case (acceptPolicyAdminTransfer pid)
  show ?thesis
    unfolding acceptPolicyAdminTransfer registry_call.simps accept_policy_admin_transfer_def
    by (intro atomic_thenM atomic_intros pure_intros)
qed (simp_all add: add_members_def remove_members_def policy_admin_def pending_policy_admin_def
    policy_member_count_def atomic_thenM atomic_intros atomic_pure pure_intros)

lemma atomic_registry_dispatch: "atomic_prog (registry_dispatch caller value c)"
  unfolding registry_dispatch_def by (intro atomic_if atomic_failM atomic_registry_call)

section \<open>The invariant is kept\<close>

lemma registry_inv_extend:
  assumes inv: "registry_inv r"
    and r': "pid = effective_next r" "2 \<le> pid" "policies r pid = None" "unat pid + 1 < 2 ^ 256"
      "policies r' = (policies r)(pid := Some d)" "next_policy_id r' = pid + 1"
      "member_set r' = member_set r"
    and d: "policy_id d = pid" "admin d \<noteq> 0"
      "policy_type d = 2 \<or> policy_type d = 3 \<or>
       policy_type d = 4 \<and> (\<forall>lane. simple_or_builtin r (lane_child lane d))"
  shows "registry_inv r'"
proof -
  have suc: "unat (pid + 1) = unat pid + 1" using r'(4) by (simp add: unat_word_ariths)
  then have next_gt: "pid < pid + 1" "2 \<le> pid + 1" "pid + 1 \<noteq> 0"
    using r'(2) by (auto simp: word_less_nat_alt word_le_nat_alt)
  then have nxt: "effective_next r' = pid + 1" by (simp add: effective_next_def r'(6))
  have mono: "simple_or_builtin r' q" if "simple_or_builtin r q" for q
    using that r'(3) by (auto simp: simple_or_builtin_def r'(5))
  have "valid_descriptor r' q e" if "policies r' q = Some e" for q e
  proof (cases "q = pid")
    case True
    then show ?thesis
      using that d mono next_gt r'(2) by (auto simp: valid_descriptor_def nxt r'(5))
  next
    case False
    then have "valid_descriptor r q e"
      using inv that by (auto simp: registry_inv_def r'(5))
    moreover from this have "q < pid + 1"
      using next_gt r'(1) by (auto simp: valid_descriptor_def)
    ultimately show ?thesis
      using mono by (auto simp: valid_descriptor_def nxt)
  qed
  moreover have "\<exists>d. policies r' q = Some d \<and> (policy_type d = 2 \<or> policy_type d = 3)"
    if "StorageSet_contains v (member_set r q)" for q v
    using inv that r'(3) unfolding registry_inv_def r'(5) by (metis fun_upd_other option.discI)
  ultimately show ?thesis
    using inv next_gt unfolding registry_inv_def r'(6,7) by blast
qed

lemma registry_inv_redescribe:
  assumes inv: "registry_inv r" and d: "policies r pid = Some d"
    and same: "same_but_descriptor pid d' r r'"
    and d': "policy_id d' = policy_id d" "policy_type d' = policy_type d" "admin d' \<noteq> 0"
      "\<And>lane. lane_child lane d' = lane_child lane d"
  shows "registry_inv r'"
proof -
  have eff: "effective_next r' = effective_next r"
    using same by (simp add: effective_next_def same_but_descriptor_def)
  have mono: "simple_or_builtin r' q" if "simple_or_builtin r q" for q
    using that d d' same by (auto simp: simple_or_builtin_def same_but_descriptor_def)
  have vd: "valid_descriptor r pid d" using inv d by (simp add: registry_inv_def)
  have "valid_descriptor r' q e" if "policies r' q = Some e" for q e
  proof (cases "q = pid")
    case True
    then have "e = d'" using that same by (simp add: same_but_descriptor_def)
    then show ?thesis using vd d' mono True by (auto simp: valid_descriptor_def eff)
  next
    case False
    then have "valid_descriptor r q e"
      using inv that same by (auto simp: registry_inv_def same_but_descriptor_def)
    then show ?thesis using mono by (auto simp: valid_descriptor_def eff)
  qed
  moreover have "\<exists>d. policies r' q = Some d \<and> (policy_type d = 2 \<or> policy_type d = 3)"
    if "StorageSet_contains v (member_set r q)" for q v
    using inv that d d' same unfolding registry_inv_def same_but_descriptor_def
    by (metis fun_upd_apply option.sel)
  ultimately show ?thesis
    using inv same unfolding registry_inv_def same_but_descriptor_def by simp
qed

lemma registry_inv_members:
  assumes inv: "registry_inv r" and d: "policies r pid = Some d" "policy_type d = 2 \<or> policy_type d = 3"
    and same: "policies r' = policies r" "next_policy_id r' = next_policy_id r"
      "\<forall>q. q \<noteq> pid \<longrightarrow> member_set r' q = member_set r q"
    and set: "sset_inv (member_set r' pid)"
      "set (StorageSet_read_all (member_set r' pid)) \<subseteq>
         set (StorageSet_read_all (member_set r pid)) \<union> set xs" "0 \<notin> set xs"
  shows "registry_inv r'"
proof -
  have "effective_next r' = effective_next r" "\<And>q. simple_or_builtin r' q = simple_or_builtin r q"
    using same by (simp_all add: effective_next_def simple_or_builtin_def)
  then have vd: "valid_descriptor r' q e = valid_descriptor r q e" for q e
    by (simp add: valid_descriptor_def)
  have sinv: "sset_inv (member_set r' q)" for q
    using inv same(3) set(1) by (cases "q = pid") (auto simp: registry_inv_def)
  have "v \<noteq> 0" if "StorageSet_contains v (member_set r' pid)" for v
  proof -
    have "v \<in> set (StorageSet_read_all (member_set r pid)) \<union> set xs"
      using that lset.contains_elems[OF set(1)] set(2) by blast
    moreover have "sset_inv (member_set r pid)" using inv by (simp add: registry_inv_def)
    ultimately show ?thesis
      using set(3) inv lset.contains_elems[of "member_set r pid" v]
      by (auto simp: registry_inv_def)
  qed
  then have "v \<noteq> 0 \<and> (\<exists>d. policies r' q = Some d \<and> (policy_type d = 2 \<or> policy_type d = 3))"
    if "StorageSet_contains v (member_set r' q)" for q v
    using that inv same d by (cases "q = pid") (auto simp: registry_inv_def)
  then show ?thesis
    using inv vd sinv unfolding registry_inv_def same(1,2) by blast
qed

lemma validate_directional_child_ok [prog_ok]:
  "registry_inv (store s) \<Longrightarrow> validate_directional_child c s = (Inr u, t) \<longleftrightarrow>
     t = s \<and> simple_or_builtin (store s) c"
  by (auto simp: validate_directional_child_def optional_descriptor_def simple_or_builtin_def
      PolicyDescriptor_builtin_def policy_ids prog_ok registry_inv_def valid_descriptor_def
      PolicyType_try_from_def descriptor_type_def split: option.splits if_splits)

lemma registry_room_mono: "registry_room n r \<Longrightarrow> m \<le> n \<Longrightarrow> registry_room m r"
  by (auto simp: registry_room_def intro: lset.room_mono)

lemma registry_step_create:
  assumes "create_descriptor actor ty adm (a, b, c) s = (Inr pid, t)" "registry_inv (store s)"
    "adm \<noteq> 0" "is_simple ty \<or> ty = Directional \<and> (\<forall>q \<in> {a, b, c}. simple_or_builtin (store s) q)"
  shows "registry_inv (store t)"
  using assms(3,4)
  by (intro registry_inv_extend[OF assms(2) create_descriptor_ok[OF assms(1)]])
    (auto simp: is_simple_u8 lane_child_def split: PolicyLane.splits)

lemma create_descriptor_keeps:
  assumes "create_descriptor actor ty adm (a, b, c) s = (Inr pid, t)" "registry_inv (store s)"
    "registry_room n (store s)"
    "adm \<noteq> 0" "is_simple ty \<or> ty = Directional \<and> (\<forall>q \<in> {a, b, c}. simple_or_builtin (store s) q)"
  shows "registry_inv (store t) \<and> registry_room n (store t)"
  using registry_step_create[OF assms(1,2,4,5)] create_descriptor_ok(7)[OF assms(1)] assms(3)
  by (simp add: registry_room_def)

lemma mutate_members_keeps:
  assumes run: "mutate_members pid caller xs add s = (Inr u, t)" and inv: "registry_inv (store s)"
    and room: "registry_room n (store s)"
    and set: "sset_inv (member_set (store t) pid)" "sset_room n (member_set (store t) pid)"
      "set (StorageSet_read_all (member_set (store t) pid)) \<subseteq>
         set (StorageSet_read_all (member_set (store s) pid)) \<union> set xs"
  shows "registry_inv (store t) \<and> registry_room n (store t)"
  using run
proof (rule mutate_members_ok)
  fix d
  assume d: "policies (store s) pid = Some d" "policy_type d = 2 \<or> policy_type d = 3" "0 \<notin> set xs"
    and same: "policies (store t) = policies (store s)"
      "next_policy_id (store t) = next_policy_id (store s)"
      "\<forall>q. q \<noteq> pid \<longrightarrow> member_set (store t) q = member_set (store s) q"
  have "registry_inv (store t)"
    by (rule registry_inv_members[OF inv d(1,2) same set(1,3) d(3)])
  moreover have "registry_room n (store t)"
    unfolding registry_room_def using set(2) same(3) room by (metis registry_room_def)
  ultimately show ?thesis ..
qed

lemma redescribe_keeps:
  assumes "registry_inv r" "registry_room n r" "policies r pid = Some d" "adm \<noteq> 0"
    "same_but_descriptor pid (d\<lparr>admin := adm, pending_admin := p\<rparr>) r r'"
  shows "registry_inv r' \<and> registry_room n r'"
  using registry_inv_redescribe[OF assms(1,3,5)] assms(2,4,5)
  by (auto simp: lane_child_def same_but_descriptor_def registry_room_def split: PolicyLane.splits)

lemma registry_call_inv:
  assumes run: "registry_call caller call s = (Inr out, t)" and inv: "registry_inv (store s)"
    and room: "registry_room (64 * additions call (fst (registry_call caller call s)) + n) (store s)" and caller: "caller \<noteq> 0"
  shows "registry_inv (store t) \<and> registry_room n (store t)"
proof -
  have room': "registry_room n (store s)" using room by (rule registry_room_mono) simp
  note * = inv room' run
  show ?thesis
  proof (cases call)
    case (createPolicy c adm)
    then show ?thesis
      using run create_descriptor_keeps[OF _ inv room']
      by (auto simp: create_policy_def validate_admin_def prog_ok split: if_splits)
  next
    case (createDirectionalPolicy adm a b c)
    then show ?thesis
      using run inv create_descriptor_keeps[OF _ inv room']
      by (auto simp: create_directional_policy_def validate_admin_def prog_ok split: if_splits)
  next
    case (addMembers pid xs)
    then have run': "add_members pid caller xs s = (Inr (), t)" using run by (auto simp: prog_ok)
    show ?thesis
      using mutate_members_keeps[OF run'[unfolded add_members_def] inv room']
        add_members_ok[OF run' inv] room addMembers run by (simp add: additions_def)
  next
    case (removeMembers pid xs)
    then have run': "remove_members pid caller xs s = (Inr (), t)" using run by (auto simp: prog_ok)
    show ?thesis
      using mutate_members_keeps[OF run'[unfolded remove_members_def] inv room']
        remove_members_ok[OF run' inv room'] by auto
  next
    case (beginPolicyAdminTransfer pid c)
    then have "begin_policy_admin_transfer pid caller c s = (Inr (), t)" using run by (auto simp: prog_ok)
    from this inv show ?thesis
      by (rule begin_policy_admin_transfer_ok) (use caller redescribe_keeps[OF inv room'] in fastforce)
  next
    case (cancelPolicyAdminTransfer pid)
    then have "cancel_policy_admin_transfer pid caller s = (Inr (), t)" using run by (auto simp: prog_ok)
    from this inv show ?thesis
      by (rule cancel_policy_admin_transfer_ok) (use caller redescribe_keeps[OF inv room'] in fastforce)
  next
    case (acceptPolicyAdminTransfer pid)
    then have "accept_policy_admin_transfer pid caller s = (Inr (), t)" using run by (auto simp: prog_ok)
    from this inv show ?thesis
      by (rule accept_policy_admin_transfer_ok) (use caller redescribe_keeps[OF inv room'] in fastforce)
  next
    case (listPolicyMembers pid off lim)
    then have "store t = store s"
      using run by (auto simp: prog_ok dest: pure_store[OF pure_list_policy_members])
    then show ?thesis using inv room' by simp
  qed (use * in \<open>auto simp: prog_ok descriptor_def get_policy_type_def policy_admin_def
      pending_policy_admin_def policy_member_count_def require_enumerable_def split: if_splits\<close>)
qed

lemma registry_dispatch_inv:
  assumes run: "registry_dispatch caller value call s = (res, t)" and inv: "registry_inv (store s)"
    and room: "registry_room (64 * additions call res + n) (store s)" and caller: "caller \<noteq> 0"
  shows "registry_inv (store t) \<and> registry_room n (store t)"
proof (cases res)
  case (Inl e)
  then have "store t = store s"
    using atomic_progD[OF atomic_registry_dispatch] run by simp
  then show ?thesis using inv registry_room_mono[OF room] by simp
next
  case (Inr out)
  then have call: "registry_call caller call s = (Inr out, t)"
    using run by (auto simp: registry_dispatch_def prog_ok split: if_splits)
  from registry_call_inv[OF call inv _ caller, of n] room show ?thesis unfolding call Inr by simp
qed

lemma registry_genesis_inv: "registry_inv registry_genesis"
  by (simp add: registry_inv_def registry_genesis_def sset_inv_def sset_empty_def
      StorageSet_contains_def)

lemma registry_reach_inv:
  "registry_reach n r \<Longrightarrow> 64 * n + m < 2 ^ 32 \<Longrightarrow> registry_inv r \<and> registry_room m r"
proof (induction n r arbitrary: m rule: registry_reach.induct)
  case genesis
  then show ?case
    using registry_genesis_inv
    by (simp add: registry_room_def registry_genesis_def sset_empty_def sset_room_def)
next
  case (call n r caller v c b res t)
  have "registry_inv r \<and> registry_room (64 * additions c res + m) r"
    using call.IH[of "64 * additions c res + m"] call.prems by (simp add: algebra_simps)
  then show ?case
    using registry_dispatch_inv[OF call.hyps(3), where n = m] call.hyps(2) by simp
qed

lemma traverseM_unwrapM_ok:
  "traverseM (\<lambda>i. unwrapM (f i) e) is s = (Inr ys, t) \<longleftrightarrow> t = s \<and> map f is = map Some ys"
  by (induction "is" arbitrary: ys) (auto simp: prog_ok Cons_eq_map_conv)

lemma page_end:
  fixes start requested count :: u32
  shows "unat (min (saturating_add start requested) count) =
    min (unat start + unat requested) (unat count)"
proof -
  have "unat count \<le> unat (- 1 :: u32)" by (simp add: word_le_nat_alt[symmetric])
  then show ?thesis
    using unat_bound[of count]
    by (auto simp: saturating_add_alt min_def word_le_nat_alt unat_add_exact)
qed

lemma page_take_drop:
  "map f [a..<min (a + n) c] = take n (drop a (map f [0..<c]))"
  by (rule nth_equalityI) (auto simp: less_diff_conv add.commute)

lemma descriptor_Some_ok:
  "descriptor pid s = (Inr d, t) \<longleftrightarrow> t = s \<and> optional_descriptor pid (store s) = Some d"
  by (auto simp: descriptor_def optional_descriptor_def prog_ok)

lemma list_policy_members_ok:
  assumes run: "list_policy_members pid off lim s = (Inr xs, t)"
  shows "xs = take (unat lim) (drop (unat off) (StorageSet_read_all (member_set (store s) pid)))"
    and "0 < unat lim" "unat lim \<le> 100"
proof -
  let ?m = "member_set (store s) pid"
  have lim: "lim \<noteq> 0" "lim \<le> 100"
    using run by (auto simp: list_policy_members_def STABLECOIN_LIST_PAGE_CAP_def prog_ok
        split: if_splits)
  then show lim': "0 < unat lim" "unat lim \<le> 100"
    by (auto simp: word_le_nat_alt unat_pos)
  show "xs = take (unat lim) (drop (unat off) (StorageSet_read_all ?m))"
  proof (cases "unat off < unat (sset_len ?m)")
    case False
    then have "off \<ge> ucast (sset_len ?m)" by (simp add: word_le_nat_alt unat_ucast_up)
    then show ?thesis
      using run False lim
      by (auto simp: list_policy_members_def get_policy_type_def require_enumerable_def
          descriptor_Some_ok StorageSet_read_all_def prog_ok split: if_splits)
  next
    case True
    then have lt: "\<not> off \<ge> ucast (sset_len ?m)" by (simp add: word_le_nat_alt unat_ucast_up)
    have small: "unat (ucast off :: u32) = unat off" "unat (ucast lim :: u32) = unat lim"
      using True lim' unat_bound[of "sset_len ?m"] by (simp_all add: unat_ucast_small)
    have "map (\<lambda>i. StorageSet_at (word_of_nat i) ?m)
        [unat off..<min (unat off + unat lim) (unat (sset_len ?m))] = map Some xs"
      using run lim lt
      by (auto simp: list_policy_members_def get_policy_type_def require_enumerable_def Let_def
          descriptor_Some_ok traverseM_unwrapM_ok page_end small prog_ok split: if_splits)
    moreover have "StorageSet_at (word_of_nat i) ?m = Some (sset_value ?m i)"
      if "i < unat (sset_len ?m)" for i
      using that unat_bound[of "sset_len ?m"]
      by (simp add: StorageSet_at_def word_le_nat_alt unat_of_nat_exact)
    ultimately have "map Some xs = map (\<lambda>i. Some (sset_value ?m i))
        [unat off..<min (unat off + unat lim) (unat (sset_len ?m))]"
      by (metis (no_types, lifting) map_cong min_less_iff_conj atLeastLessThan_iff set_upt)
    then have "map Some xs = map Some (map (sset_value ?m)
        [unat off..<min (unat off + unat lim) (unat (sset_len ?m))])"
      by simp
    then have "xs = map (sset_value ?m) [unat off..<min (unat off + unat lim) (unat (sset_len ?m))]"
      by (simp only: inj_map_eq_map[OF inj_Some])
    then show ?thesis
      by (simp only: page_take_drop StorageSet_read_all_def)
  qed
qed

lemma mutable_id: "2 \<le> (pid :: u256) \<Longrightarrow> pid \<noteq> 0 \<and> pid \<noteq> 1"
  by (auto simp: word_le_nat_alt)

lemma can_simple:
  assumes "registry_inv r" "simple_or_builtin r pid"
  shows "can_simple_child pid a r = can pid a lane r"
  using assms
  by (auto simp: can_simple_child_def can_def optional_descriptor_def simple_or_builtin_def
      PolicyDescriptor_builtin_def policy_ids PolicyType_try_from_def)

lemma can_directional:
  assumes inv: "registry_inv r" and d: "policies r pid = Some d" "policy_type d = 4"
  shows "can pid a lane r = can (lane_child lane d) a lane r"
proof -
  have vd: "valid_descriptor r pid d" using inv d(1) by (simp add: registry_inv_def)
  then have "pid \<noteq> 0" "pid \<noteq> 1" "simple_or_builtin r (lane_child lane d)"
    using d(2) mutable_id[of pid] by (auto simp: valid_descriptor_def)
  then have "can pid a lane r = can_simple_child (lane_child lane d) a r"
    using d by (simp add: can_def optional_descriptor_def policy_ids PolicyType_try_from_def)
  then show ?thesis using can_simple[OF inv \<open>simple_or_builtin r (lane_child lane d)\<close>] by simp
qed

lemma can_whitelist:
  assumes "registry_inv r" "policies r pid = Some d" "policy_type d = 2"
  shows "can pid a lane r \<longleftrightarrow> a \<in> set (StorageSet_read_all (member_set r pid))"
  using assms lset.contains_elems[of "member_set r pid" a] mutable_id[of pid]
  by (auto simp: can_def optional_descriptor_def policy_ids PolicyType_try_from_def registry_inv_def
      valid_descriptor_def)

lemma can_blacklist:
  assumes "registry_inv r" "policies r pid = Some d" "policy_type d = 3"
  shows "can pid a lane r \<longleftrightarrow> a \<notin> set (StorageSet_read_all (member_set r pid))"
  using assms lset.contains_elems[of "member_set r pid" a] mutable_id[of pid]
  by (auto simp: can_def optional_descriptor_def policy_ids PolicyType_try_from_def registry_inv_def
      valid_descriptor_def)


lemma mutate_members_authorised:
  assumes "mutate_members p caller xs add s = (Inr u, t)" "policies (store s) pid = Some d"
    and "policies (store t) pid \<noteq> Some d \<or> member_set (store t) pid \<noteq> member_set (store s) pid"
  shows "caller = admin d"
  using assms(1) by (rule mutate_members_ok) (use assms(2,3) in \<open>cases "pid = p"; auto\<close>)

lemma same_but_descriptor_change:
  assumes "same_but_descriptor p d' r r'" "policies r pid = Some d"
    and "policies r' pid \<noteq> Some d \<or> member_set r' pid \<noteq> member_set r pid"
  shows "p = pid"
  using assms by (auto simp: same_but_descriptor_def split: if_splits)

lemma registry_call_authorised:
  assumes run: "registry_call caller call s = (Inr out, t)" and inv: "registry_inv (store s)"
    and old: "policies (store s) pid = Some d"
    and change: "policies (store t) pid \<noteq> Some d \<or> member_set (store t) pid \<noteq> member_set (store s) pid"
  shows "caller = admin d \<or> caller = pending_admin d \<and> call = acceptPolicyAdminTransfer pid"
proof -
  have ne: "store t \<noteq> store s" using change old by auto
  have create: False if "create_descriptor caller ty adm (a, b, c) s = (Inr q, t)" for ty adm a b c q
    using create_descriptor_ok(3,5,7)[OF that] change old by (auto split: if_splits)
  show ?thesis
  proof (cases call)
    case (addMembers p xs)
    then show ?thesis
      using run mutate_members_authorised[OF _ old change] by (auto simp: add_members_def prog_ok)
  next
    case (removeMembers p xs)
    then show ?thesis
      using run mutate_members_authorised[OF _ old change] by (auto simp: remove_members_def prog_ok)
  next
    case (beginPolicyAdminTransfer p c)
    then have "begin_policy_admin_transfer p caller c s = (Inr (), t)" using run by (auto simp: prog_ok)
    from this inv show ?thesis
      by (rule begin_policy_admin_transfer_ok)
        (use old same_but_descriptor_change[OF _ old change] in fastforce)
  next
    case (cancelPolicyAdminTransfer p)
    then have "cancel_policy_admin_transfer p caller s = (Inr (), t)" using run by (auto simp: prog_ok)
    from this inv show ?thesis
      by (rule cancel_policy_admin_transfer_ok)
        (use old same_but_descriptor_change[OF _ old change] in fastforce)
  next
    case (acceptPolicyAdminTransfer p)
    then have "accept_policy_admin_transfer p caller s = (Inr (), t)" using run by (auto simp: prog_ok)
    from this inv show ?thesis
      by (rule accept_policy_admin_transfer_ok)
        (use old acceptPolicyAdminTransfer same_but_descriptor_change[OF _ old change] in fastforce)
  next
    case (listPolicyMembers p off lim)
    then show ?thesis
      using run ne by (auto simp: prog_ok dest: pure_store[OF pure_list_policy_members])
  qed (use run ne in \<open>auto dest: create simp: prog_ok create_policy_def create_directional_policy_def
      validate_admin_def descriptor_Some_ok get_policy_type_def policy_admin_def
      pending_policy_admin_def policy_member_count_def require_enumerable_def
      validate_directional_child_ok[OF inv] split: if_splits\<close>)
qed

section \<open>Properties\<close>

text \<open>
  C11: Whatever calls reach the registry, failed ones and ones cut off by the provider included, the
  storage stays well formed, as long as fewer than 67,108,864 calls of \<open>addMembers\<close> succeeded. Each adds at most 64
  accounts, so that the 32-bit length of a member set, which \<open>StorageSet\<close> increments without a check, cannot wrap.
  Well formed means: ids are handed out in order and never reused, the children of a
  directional policy are built-in or simple policies, members are non-zero accounts of simple
  policies, and the enumerable member sets stay consistent.
\<close>

theorem registry_stays_well_formed:
  assumes "registry_reach n r" and "64 * n < 2 ^ 32"
  shows "registry_inv r"
  using registry_reach_inv[OF assms(1), of 0] assms(2) by simp

lemma sample_registry_reach: "registry_reach 0 sample_registry"
  using registry_reach.call[OF registry_reach.genesis, where caller = 5 and c = "createPolicy 2 5", OF _ surjective_pairing]
  unfolding sample_registry_def by (simp add: additions_def)

theorem registry_stays_well_formed_witness:
  "policies sample_registry 2 \<noteq> None \<and> registry_inv sample_registry"
proof
  show "policies sample_registry 2 \<noteq> None"
    unfolding sample_registry_def by code_simp
  show "registry_inv sample_registry"
    by (rule registry_stays_well_formed[OF sample_registry_reach]) simp
qed

text \<open>
  C13: A directional policy decides exactly as the child policy of the lane does: nesting never
  falls into the branch of \<open>can_simple_child\<close> that denies a directional child. The registry is one
  reached with fewer than 67,108,864 successful \<open>addMembers\<close> calls, of at most 64 members each.
\<close>

theorem directional_policy_delegates:
  assumes "registry_reach n r" and "64 * n < 2 ^ 32"
    and "policies r pid = Some d" and "policy_type d = PolicyType_u8 Directional"
  shows "can pid account lane r = can (lane_child lane d) account lane r"
  using can_directional registry_reach_inv[OF assms(1), of 0] assms(2-4) by simp

theorem directional_policy_delegates_witness:
  "can 3 9 Receive sample_directional = can 1 9 Receive sample_directional"
proof -
  have reach: "registry_reach 0 sample_directional"
    using registry_reach.call[OF sample_registry_reach, where caller = 5 and c = "createDirectionalPolicy 5 0 1 2", OF _ surjective_pairing]
    unfolding sample_directional_def by (simp add: additions_def)
  have d: "policies sample_directional 3 = Some \<lparr>policy_id = 3, policy_type = 4, admin = 5,
      pending_admin = 0, send_policy_id = 0, receive_policy_id = 1, mint_policy_id = 2\<rparr>"
    unfolding sample_directional_def sample_registry_def by code_simp
  show ?thesis
    using directional_policy_delegates[OF reach _ d, of 9 Receive] by (simp add: lane_child_def)
qed

text \<open>
  C14: \<open>addMembers\<close> appends exactly the batch to the members of the policy. Afterwards a whitelist
  admits the old members and the batch, a blacklist admits whoever is in neither, and no other
  policy's members change. The member lists have room for 64 more entries below \<open>2 ^ 32\<close>.
\<close>

theorem add_members_decisions:
  assumes run: "add_members pid caller xs s = (Inr u, t)" and inv: "registry_inv (store s)"
    and room: "registry_room 64 (store s)"
  shows "StorageSet_read_all (member_set (store t) pid) =
      StorageSet_read_all (member_set (store s) pid) @ xs \<and>
    (\<forall>a lane. can pid a lane (store t) \<longleftrightarrow>
       (if get_policy_type pid s = (Inr Whitelist, s) then can pid a lane (store s) \<or> a \<in> set xs
        else can pid a lane (store s) \<and> a \<notin> set xs)) \<and>
    (\<forall>q. q \<noteq> pid \<longrightarrow> member_set (store t) q = member_set (store s) q)"
proof -
  have elems: "StorageSet_read_all (member_set (store t) pid) =
      StorageSet_read_all (member_set (store s) pid) @ xs"
    using add_members_ok(3)[OF run inv, of 0] room by simp
  have inv': "registry_inv (store t)"
    using mutate_members_keeps[OF run[unfolded add_members_def] inv, of 0]
      add_members_ok[OF run inv, of 0] room registry_room_mono[OF room, of 0] by simp
  obtain d where d: "policies (store s) pid = Some d" "policies (store t) pid = Some d"
    "policy_type d = 2 \<or> policy_type d = 3"
    and frame: "\<forall>q. q \<noteq> pid \<longrightarrow> member_set (store t) q = member_set (store s) q"
    using run unfolding add_members_def by - (rule mutate_members_ok, assumption, simp)
  have "valid_descriptor (store s) pid d" using inv d(1) by (simp add: registry_inv_def)
  then have "get_policy_type pid s = (Inr Whitelist, s) \<longleftrightarrow> policy_type d = 2"
    using d mutable_id[of pid] by (auto simp: get_policy_type_def descriptor_Some_ok prog_ok
        optional_descriptor_def policy_ids valid_descriptor_def)
  then show ?thesis
    using d(3) elems frame can_whitelist[OF inv d(1)] can_whitelist[OF inv' d(2)]
      can_blacklist[OF inv d(1)] can_blacklist[OF inv' d(2)] by auto
qed

theorem add_members_decisions_witness:
  "\<exists>t. add_members 2 5 [8, 9] \<lparr>store = sample_registry, budget = 20\<rparr> = (Inr (), t) \<and>
     StorageSet_read_all (member_set (store t) 2) = [8, 9]"
proof -
  let ?s = "\<lparr>store = sample_registry, budget = 20\<rparr>"
  let ?r = "add_members 2 5 [8, 9] ?s"
  have "fst ?r = Inr ()" unfolding sample_registry_def by code_simp
  then have r: "?r = (Inr (), snd ?r)" by (metis prod.collapse)
  have inv: "registry_inv (store ?s)" "registry_room 64 (store ?s)"
    using registry_reach_inv[OF sample_registry_reach, of 64] by simp_all
  have "StorageSet_read_all (member_set (store ?s) 2) = []"
    unfolding sample_registry_def by code_simp
  then show ?thesis
    using add_members_decisions[OF r inv] r by (intro exI[of _ "snd ?r"]) simp
qed

text \<open>
  C15: \<open>listPolicyMembers\<close> returns the requested window of the member enumeration, never more than a
  hundred entries, so that consecutive windows read every member once.
\<close>

theorem list_policy_members_page:
  assumes "list_policy_members pid offset limit s = (Inr xs, t)"
  shows "xs = take (unat limit) (drop (unat offset) (StorageSet_read_all (member_set (store s) pid)))
    \<and> length xs \<le> STABLECOIN_LIST_PAGE_CAP"
  using list_policy_members_ok[OF assms] by (simp add: STABLECOIN_LIST_PAGE_CAP_def)

theorem list_policy_members_page_witness:
  "\<exists>t. list_policy_members 2 1 1
       (snd (add_members 2 5 [8, 9] \<lparr>store = sample_registry, budget = 20\<rparr>)) = (Inr [9], t) \<and>
     [9::address] = take 1 (drop 1 (StorageSet_read_all (member_set
       (store (snd (add_members 2 5 [8, 9] \<lparr>store = sample_registry, budget = 20\<rparr>))) 2)))"
proof -
  let ?s = "snd (add_members 2 5 [8, 9] \<lparr>store = sample_registry, budget = 20\<rparr>)"
  let ?r = "list_policy_members 2 1 1 ?s"
  have "fst ?r = Inr [9]"
    unfolding sample_registry_def by code_simp
  then have r: "?r = (Inr [9], snd ?r)" by (metis prod.collapse)
  then show ?thesis using list_policy_members_page[OF r] by (intro exI[of _ "snd ?r"]) simp
qed

text \<open>
  C12: Only the admin of a policy can change its descriptor or its members, except that the pending
  admin can take the role over by accepting it. Built-in policies never change.
\<close>

theorem registry_change_is_authorised:
  assumes run: "registry_dispatch caller value call s = (res, t)" and inv: "registry_inv (store s)"
    and old: "policies (store s) pid = Some d"
    and change: "policies (store t) pid \<noteq> Some d \<or> member_set (store t) pid \<noteq> member_set (store s) pid"
  shows "caller = admin d \<or> caller = pending_admin d \<and> call = acceptPolicyAdminTransfer pid"
proof -
  have "store t \<noteq> store s" using change old by auto
  then obtain out where "res = Inr out"
    using atomic_progD[OF atomic_registry_dispatch] run by (cases res) auto
  then have "registry_call caller call s = (Inr out, t)"
    using run by (auto simp: registry_dispatch_def prog_ok split: if_splits)
  then show ?thesis using inv old change by (rule registry_call_authorised)
qed

theorem registry_change_is_authorised_witness:
  "\<exists>t. registry_dispatch 5 0 (addMembers 2 [8]) \<lparr>store = sample_registry, budget = 20\<rparr> = (Inr RNone, t)
     \<and> 5 = admin (the (policies sample_registry 2))"
proof -
  let ?s = "\<lparr>store = sample_registry, budget = 20\<rparr>"
  let ?r = "registry_dispatch 5 0 (addMembers 2 [8]) ?s"
  have "fst ?r = Inr RNone" unfolding sample_registry_def by code_simp
  then have r: "?r = (Inr RNone, snd ?r)" by (metis prod.collapse)
  have old: "policies (store ?s) 2 = Some \<lparr>policy_id = 2, policy_type = 2, admin = 5,
      pending_admin = 0, send_policy_id = 0, receive_policy_id = 0, mint_policy_id = 0\<rparr>"
    unfolding sample_registry_def by code_simp
  have "sset_len (member_set (store ?s) 2) = 0" "sset_len (member_set (store (snd ?r)) 2) = 1"
    unfolding sample_registry_def by code_simp+
  then have "member_set (store (snd ?r)) 2 \<noteq> member_set (store ?s) 2" by auto
  moreover have "registry_inv (store ?s)"
    using registry_reach_inv[OF sample_registry_reach, of 64] by simp
  ultimately have "(5::address) = 5 \<or> (5::address) = 0 \<and> addMembers 2 [8] = acceptPolicyAdminTransfer 2"
    using registry_change_is_authorised[OF r _ old] by simp
  then show ?thesis using old r by auto
qed

end
