(* ===== verification/Stablecoin_Payload.thy ===== *)
theory Stablecoin_Payload
  imports Prelude
begin

text \<open>
  \<open>primitives/src/stablecoin.rs\<close> and the budget rule of \<open>primitives/src/stablecoin_fork.rs\<close>: the
  ISO 4217 tables, the canonical codec of creation proposals, and token identity.

  A Rust \<open>String\<close> is the list of its UTF-8 bytes. The JSON printer and parser (\<open>serde_json\<close>), the
  address and integer formatting (\<open>alloy\<close>, \<open>ruint\<close>), the hex decoder (\<open>hex\<close>) and the hash
  (\<open>keccak256\<close>) are third-party code: the first five are the fields of the record \<open>codec\<close>, the hash
  is an argument.
\<close>

section \<open>UTF-8\<close>

text \<open>\<open>core::str::from_utf8\<close> and \<open>str::chars\<close>: the code points of a well-formed byte string.\<close>

definition utf8_cont :: "nat \<Rightarrow> nat \<Rightarrow> u8 \<Rightarrow> bool" where
  "utf8_cont lo hi b \<longleftrightarrow> lo \<le> unat b \<and> unat b \<le> hi"

fun utf8_decode :: "bytes \<Rightarrow> nat list option" where
  "utf8_decode [] = Some []"
| "utf8_decode (b # bs) =
     (let x = unat b in
      if x < 128 then map_option (Cons x) (utf8_decode bs)
      else if 194 \<le> x \<and> x \<le> 223 then
        (case bs of
           c # cs \<Rightarrow>
             if utf8_cont 128 191 c
             then map_option (Cons ((x - 192) * 64 + (unat c - 128))) (utf8_decode cs) else None
         | _ \<Rightarrow> None)
      else if 224 \<le> x \<and> x \<le> 239 then
        (case bs of
           c # d # ds \<Rightarrow>
             if utf8_cont (if x = 224 then 160 else 128) (if x = 237 then 159 else 191) c \<and>
                utf8_cont 128 191 d
             then map_option (Cons ((x - 224) * 4096 + (unat c - 128) * 64 + (unat d - 128)))
                    (utf8_decode ds) else None
         | _ \<Rightarrow> None)
      else if 240 \<le> x \<and> x \<le> 244 then
        (case bs of
           c # d # e # es \<Rightarrow>
             if utf8_cont (if x = 240 then 144 else 128) (if x = 244 then 143 else 191) c \<and>
                utf8_cont 128 191 d \<and> utf8_cont 128 191 e
             then map_option (Cons ((x - 240) * 262144 + (unat c - 128) * 4096 +
                    (unat d - 128) * 64 + (unat e - 128))) (utf8_decode es) else None
         | _ \<Rightarrow> None)
      else None)"

definition utf8_valid :: "bytes \<Rightarrow> bool" where
  "utf8_valid bs \<longleftrightarrow> utf8_decode bs \<noteq> None"

text \<open>\<open>char::is_control\<close>: general category Cc.\<close>

definition char_is_control :: "nat \<Rightarrow> bool" where
  "char_is_control c \<longleftrightarrow> c < 32 \<or> 127 \<le> c \<and> c < 160"

definition ascii :: "string \<Rightarrow> bytes" where
  "ascii s = map (\<lambda>c. word_of_nat (of_char c)) s"

section \<open>ISO 4217\<close>

definition ISO_4217_NUMERIC_CODES :: "u16 list" where
  "ISO_4217_NUMERIC_CODES = [
    8, 12, 32, 36, 44, 48, 50, 51, 52, 60, 64, 68, 72, 84, 90, 96, 104, 108, 116, 124, 132,
    136, 144, 152, 156, 170, 174, 188, 192, 203, 208, 214, 222, 230, 232, 238, 242, 262, 270,
    292, 320, 324, 328, 332, 340, 344, 348, 352, 356, 360, 364, 368, 376, 388, 392, 396, 398,
    400, 404, 408, 410, 414, 417, 418, 422, 426, 430, 434, 446, 454, 458, 462, 480, 484, 496,
    498, 504, 512, 516, 524, 532, 533, 548, 554, 558, 566, 578, 586, 590, 598, 600, 604, 608,
    634, 643, 646, 654, 682, 690, 702, 704, 706, 710, 728, 748, 752, 756, 760, 764, 776, 780,
    784, 788, 800, 807, 818, 826, 834, 840, 858, 860, 882, 886, 901, 924, 925, 926, 927, 928,
    929, 930, 933, 934, 936, 938, 940, 941, 943, 944, 946, 947, 948, 949, 950, 951, 952, 953,
    955, 956, 957, 958, 959, 960, 961, 962, 963, 964, 965, 967, 968, 969, 970, 971, 972, 973,
    976, 977, 978, 979, 980, 981, 984, 985, 986, 990, 994, 997, 999]"

definition ISO_4217_ALPHA :: "string list" where
  "ISO_4217_ALPHA = [
    ''ALL'', ''DZD'', ''ARS'', ''AUD'', ''BSD'', ''BHD'', ''BDT'', ''AMD'', ''BBD'', ''BMD'',
    ''BTN'', ''BOB'', ''BWP'', ''BZD'', ''SBD'', ''BND'', ''MMK'', ''BIF'', ''KHR'', ''CAD'',
    ''CVE'', ''KYD'', ''LKR'', ''CLP'', ''CNY'', ''COP'', ''KMF'', ''CRC'', ''CUP'', ''CZK'',
    ''DKK'', ''DOP'', ''SVC'', ''ETB'', ''ERN'', ''FKP'', ''FJD'', ''DJF'', ''GMD'', ''GIP'',
    ''GTQ'', ''GNF'', ''GYD'', ''HTG'', ''HNL'', ''HKD'', ''HUF'', ''ISK'', ''INR'', ''IDR'',
    ''IRR'', ''IQD'', ''ILS'', ''JMD'', ''JPY'', ''XAD'', ''KZT'', ''JOD'', ''KES'', ''KPW'',
    ''KRW'', ''KWD'', ''KGS'', ''LAK'', ''LBP'', ''LSL'', ''LRD'', ''LYD'', ''MOP'', ''MWK'',
    ''MYR'', ''MVR'', ''MUR'', ''MXN'', ''MNT'', ''MDL'', ''MAD'', ''OMR'', ''NAD'', ''NPR'',
    ''XCG'', ''AWG'', ''VUV'', ''NZD'', ''NIO'', ''NGN'', ''NOK'', ''PKR'', ''PAB'', ''PGK'',
    ''PYG'', ''PEN'', ''PHP'', ''QAR'', ''RUB'', ''RWF'', ''SHP'', ''SAR'', ''SCR'', ''SGD'',
    ''VND'', ''SOS'', ''ZAR'', ''SSP'', ''SZL'', ''SEK'', ''CHF'', ''SYP'', ''THB'', ''TOP'',
    ''TTD'', ''AED'', ''TND'', ''UGX'', ''MKD'', ''EGP'', ''GBP'', ''TZS'', ''USD'', ''UYU'',
    ''UZS'', ''WST'', ''YER'', ''TWD'', ''ZWG'', ''SLE'', ''VED'', ''UYW'', ''VES'', ''MRU'',
    ''STN'', ''BYN'', ''TMT'', ''GHS'', ''SDG'', ''UYI'', ''RSD'', ''MZN'', ''AZN'', ''RON'',
    ''CHE'', ''CHW'', ''TRY'', ''XAF'', ''XCD'', ''XOF'', ''XPF'', ''XBA'', ''XBB'', ''XBC'',
    ''XBD'', ''XAU'', ''XDR'', ''XAG'', ''XPT'', ''XTS'', ''XPD'', ''XUA'', ''ZMW'', ''SRD'',
    ''MGA'', ''COU'', ''AFN'', ''TJS'', ''AOA'', ''CDF'', ''BAM'', ''EUR'', ''MXV'', ''UAH'',
    ''GEL'', ''BOV'', ''PLN'', ''BRL'', ''CLF'', ''XSU'', ''USN'', ''XXX'']"

text \<open>\<open>slice::binary_search\<close>: halving on \<open>[lo, hi)\<close>.\<close>

function binary_search_in :: "'a::linorder list \<Rightarrow> 'a \<Rightarrow> nat \<Rightarrow> nat \<Rightarrow> nat option" where
  "binary_search_in xs x lo hi =
     (if hi \<le> lo then None
      else
        let mid = lo + (hi - lo) div 2 in
        if xs ! mid = x then Some mid
        else if xs ! mid < x then binary_search_in xs x (Suc mid) hi
        else binary_search_in xs x lo mid)"
  by pat_completeness auto
termination
  by (relation "measure (\<lambda>(xs, x, lo, hi). hi - lo)") auto

definition binary_search :: "'a::linorder list \<Rightarrow> 'a \<Rightarrow> nat option" where
  "binary_search xs x = binary_search_in xs x 0 (length xs)"

definition iso_4217_alpha :: "u16 \<Rightarrow> string option" where
  "iso_4217_alpha code =
     map_option (\<lambda>i. ISO_4217_ALPHA ! i) (binary_search ISO_4217_NUMERIC_CODES code)"

definition validate_currency_code :: "u16 \<Rightarrow> bool" where
  "validate_currency_code code \<longleftrightarrow> iso_4217_alpha code \<noteq> None"

definition is_supported_iso4217 :: "u16 \<Rightarrow> bool" where
  "is_supported_iso4217 code \<longleftrightarrow> binary_search ISO_4217_NUMERIC_CODES code \<noteq> None"

section \<open>Proposal payload\<close>

record StablecoinCreatePayload =
  pl_issuer :: address
  pl_name :: bytes
  pl_ticker :: bytes
  pl_iso4217 :: u16
  pl_decimals :: u8
  pl_supply_cap :: u256
  pl_policy_id :: u256

datatype StablecoinCodecError =
    InvalidUtf8
  | InvalidJson
  | NonCanonicalEncoding
  | UnsupportedVersion u8
  | InvalidKind
  | InvalidFactory
  | InvalidIssuer
  | InvalidName
  | InvalidTicker
  | InvalidIso4217 u16
  | InvalidDecimals u8
  | InvalidSupplyCap
  | InvalidPolicyId

record WirePayload =
  w_version :: u8
  w_kind :: bytes
  w_issuer :: bytes
  w_name :: bytes
  w_ticker :: bytes
  w_iso4217 :: u16
  w_decimals :: u8
  w_supply_cap :: bytes
  w_policy_id :: bytes

record codec =
  json_to_vec :: "WirePayload \<Rightarrow> bytes option"
  json_from_slice :: "bytes \<Rightarrow> WirePayload option"
  format_address :: "address \<Rightarrow> bytes"
  hex_decode :: "bytes \<Rightarrow> bytes option"
  u256_to_string :: "u256 \<Rightarrow> bytes"
  u256_parse :: "bytes \<Rightarrow> u256 option"

type_synonym 'a codec_result = "StablecoinCodecError + 'a"

definition andThen :: "'e + 'a \<Rightarrow> ('a \<Rightarrow> 'e + 'b) \<Rightarrow> 'e + 'b" where
  "andThen r f = (case r of Inl e \<Rightarrow> Inl e | Inr a \<Rightarrow> f a)"

definition ok_or :: "'a option \<Rightarrow> 'e \<Rightarrow> 'e + 'a" where
  "ok_or x e = (case x of None \<Rightarrow> Inl e | Some a \<Rightarrow> Inr a)"

definition STABLECOIN_CREATE_VERSION :: u8 where
  "STABLECOIN_CREATE_VERSION = 1"

definition STABLECOIN_CREATE_KIND :: bytes where
  "STABLECOIN_CREATE_KIND = ascii ''StablecoinCreate''"

definition STABLECOIN_TOKEN_ID_DOMAIN :: bytes where
  "STABLECOIN_TOKEN_ID_DOMAIN = ascii ''OUTBE_STABLECOIN_V1''"

definition MIN_TICKER_LEN :: nat where
  "MIN_TICKER_LEN = 2"

definition MAX_TICKER_LEN :: nat where
  "MAX_TICKER_LEN = 12"

definition MAX_NAME_LEN :: nat where
  "MAX_NAME_LEN = 64"

definition is_ascii_uppercase :: "u8 \<Rightarrow> bool" where
  "is_ascii_uppercase b \<longleftrightarrow> 65 \<le> b \<and> b \<le> 90"

definition is_ascii_digit :: "u8 \<Rightarrow> bool" where
  "is_ascii_digit b \<longleftrightarrow> 48 \<le> b \<and> b \<le> 57"

definition is_lower_hex :: "u8 \<Rightarrow> bool" where
  "is_lower_hex b \<longleftrightarrow> is_ascii_digit b \<or> 97 \<le> b \<and> b \<le> 102"

definition validate_ticker :: "bytes \<Rightarrow> unit codec_result" where
  "validate_ticker ticker =
     (if \<not> (MIN_TICKER_LEN \<le> length ticker \<and> length ticker \<le> MAX_TICKER_LEN) \<or>
         \<not> (ticker \<noteq> [] \<and> is_ascii_uppercase (hd ticker)) \<or>
         \<not> list_all (\<lambda>b. is_ascii_uppercase b \<or> is_ascii_digit b) (drop 1 ticker)
      then Inl InvalidTicker else Inr ())"

definition validate_payload :: "StablecoinCreatePayload \<Rightarrow> unit codec_result" where
  "validate_payload p =
     (if pl_issuer p = 0 then Inl InvalidIssuer
      else if length (pl_name p) = 0 \<or> length (pl_name p) > MAX_NAME_LEN \<or>
              (case utf8_decode (pl_name p) of None \<Rightarrow> False | Some cs \<Rightarrow> list_ex char_is_control cs)
      then Inl InvalidName
      else andThen (validate_ticker (pl_ticker p)) (\<lambda>_.
        if \<not> is_supported_iso4217 (pl_iso4217 p) then Inl (InvalidIso4217 (pl_iso4217 p))
        else if pl_decimals p > 18 then Inl (InvalidDecimals (pl_decimals p))
        else if pl_supply_cap p = 0 then Inl InvalidSupplyCap
        else Inr ()))"

definition parse_canonical_address :: "codec \<Rightarrow> bytes \<Rightarrow> address codec_result" where
  "parse_canonical_address c v =
     (if length v \<noteq> 42 \<or> take 2 v \<noteq> ascii ''0x'' \<or> \<not> list_all is_lower_hex (drop 2 v)
      then Inl InvalidIssuer
      else andThen (ok_or (hex_decode c (drop 2 v)) InvalidIssuer) (\<lambda>decoded.
        let a = address_of_bytes decoded in
        if a = 0 then Inl InvalidIssuer else Inr a))"

definition canonical_decimal :: "bytes \<Rightarrow> bool" where
  "canonical_decimal v \<longleftrightarrow>
     v = ascii ''0'' \<or>
     v \<noteq> [] \<and> is_ascii_digit (hd v) \<and> hd v \<noteq> 48 \<and> list_all is_ascii_digit v"

definition parse_canonical_decimal :: "codec \<Rightarrow> bytes \<Rightarrow> bool \<Rightarrow> u256 codec_result" where
  "parse_canonical_decimal c v reject_zero =
     (if \<not> canonical_decimal v then Inl InvalidJson
      else andThen (ok_or (u256_parse c v) InvalidJson) (\<lambda>parsed.
        if reject_zero \<and> parsed = 0 then Inl InvalidJson else Inr parsed))"

definition map_err :: "'f \<Rightarrow> 'e + 'a \<Rightarrow> 'f + 'a" where
  "map_err f r = (case r of Inl _ \<Rightarrow> Inl f | Inr a \<Rightarrow> Inr a)"

definition payload_from_wire :: "codec \<Rightarrow> WirePayload \<Rightarrow> StablecoinCreatePayload codec_result" where
  "payload_from_wire c w =
     (if w_version w \<noteq> STABLECOIN_CREATE_VERSION then Inl (UnsupportedVersion (w_version w))
      else if w_kind w \<noteq> STABLECOIN_CREATE_KIND then Inl InvalidKind
      else
        andThen (parse_canonical_address c (w_issuer w)) (\<lambda>issuer.
        andThen (map_err InvalidSupplyCap (parse_canonical_decimal c (w_supply_cap w) True)) (\<lambda>cap.
        andThen (map_err InvalidPolicyId (parse_canonical_decimal c (w_policy_id w) False)) (\<lambda>pid.
        let p = \<lparr>pl_issuer = issuer, pl_name = w_name w, pl_ticker = w_ticker w,
                 pl_iso4217 = w_iso4217 w, pl_decimals = w_decimals w, pl_supply_cap = cap,
                 pl_policy_id = pid\<rparr>
        in andThen (validate_payload p) (\<lambda>_. Inr p)))))"

definition wire_of_payload :: "codec \<Rightarrow> StablecoinCreatePayload \<Rightarrow> WirePayload" where
  "wire_of_payload c p =
     \<lparr>w_version = STABLECOIN_CREATE_VERSION, w_kind = STABLECOIN_CREATE_KIND,
      w_issuer = format_address c (pl_issuer p), w_name = pl_name p, w_ticker = pl_ticker p,
      w_iso4217 = pl_iso4217 p, w_decimals = pl_decimals p,
      w_supply_cap = u256_to_string c (pl_supply_cap p),
      w_policy_id = u256_to_string c (pl_policy_id p)\<rparr>"

definition encode_canonical_stablecoin_create ::
    "codec \<Rightarrow> StablecoinCreatePayload \<Rightarrow> bytes codec_result" where
  "encode_canonical_stablecoin_create c p =
     andThen (validate_payload p) (\<lambda>_.
     ok_or (json_to_vec c (wire_of_payload c p)) InvalidJson)"

definition decode_canonical_stablecoin_create ::
    "codec \<Rightarrow> bytes \<Rightarrow> StablecoinCreatePayload codec_result" where
  "decode_canonical_stablecoin_create c bs =
     (if \<not> utf8_valid bs then Inl InvalidUtf8
      else
        andThen (ok_or (json_from_slice c bs) InvalidJson) (\<lambda>w.
        andThen (payload_from_wire c w) (\<lambda>p.
        andThen (encode_canonical_stablecoin_create c p) (\<lambda>canonical.
        if canonical \<noteq> bs then Inl NonCanonicalEncoding else Inr p))))"

section \<open>Token identity\<close>

definition stablecoin_token_id_preimage ::
    "u64 \<Rightarrow> address \<Rightarrow> address \<Rightarrow> bytes \<Rightarrow> bytes codec_result" where
  "stablecoin_token_id_preimage chain_id factory issuer ticker =
     (if factory = 0 then Inl InvalidFactory
      else if issuer = 0 then Inl InvalidIssuer
      else
        andThen (validate_ticker ticker) (\<lambda>_.
        if length ticker > 255 then Inl InvalidTicker
        else Inr (STABLECOIN_TOKEN_ID_DOMAIN @ be_bytes 8 (uint chain_id) @ address_bytes factory @
                  address_bytes issuer @ [word_of_nat (length ticker)] @ ticker)))"

definition stablecoin_token_id ::
    "(bytes \<Rightarrow> b256) \<Rightarrow> u64 \<Rightarrow> address \<Rightarrow> address \<Rightarrow> bytes \<Rightarrow> b256 codec_result" where
  "stablecoin_token_id keccak chain_id factory issuer ticker =
     andThen (stablecoin_token_id_preimage chain_id factory issuer ticker) (\<lambda>pre. Inr (keccak pre))"

definition stablecoin_address :: "b256 \<Rightarrow> bytes \<Rightarrow> address" where
  "stablecoin_address token_id prefix = address_of_bytes (prefix @ drop 14 (word_bytes token_id))"

definition predict_stablecoin ::
    "(bytes \<Rightarrow> b256) \<Rightarrow> u64 \<Rightarrow> address \<Rightarrow> address \<Rightarrow> bytes \<Rightarrow> bytes \<Rightarrow> (b256 \<times> address) codec_result" where
  "predict_stablecoin keccak chain_id factory issuer ticker prefix =
     andThen (stablecoin_token_id keccak chain_id factory issuer ticker) (\<lambda>token_id.
     Inr (token_id, stablecoin_address token_id prefix))"

definition STABLECOIN_ADDRESS_PREFIX :: bytes where
  "STABLECOIN_ADDRESS_PREFIX = [0x53, 0xc0]"

definition STABLECOIN_FACTORY_ADDRESS :: address where
  "STABLECOIN_FACTORY_ADDRESS = 0xEE0F"

definition is_stablecoin_address :: "address \<Rightarrow> bool" where
  "is_stablecoin_address a \<longleftrightarrow>
     address_bytes a ! 0 = STABLECOIN_ADDRESS_PREFIX ! 0 \<and>
     address_bytes a ! 1 = STABLECOIN_ADDRESS_PREFIX ! 1"

section \<open>Gas budget rule\<close>

definition stablecoin_v1_budget_for_measurement :: "u64 \<Rightarrow> u64 option" where
  "stablecoin_v1_budget_for_measurement measured_gas =
     (case checked_mul measured_gas 125 of
        None \<Rightarrow> None
      | Some scaled \<Rightarrow>
          (case checked_add scaled 99 of
             None \<Rightarrow> None
           | Some v \<Rightarrow>
               let with_margin = v div 100 in
               if with_margin = 0 then Some 0
               else
                 (case checked_add with_margin (10000 - 1) of
                    None \<Rightarrow> None
                  | Some w \<Rightarrow> checked_mul (w div 10000) 10000)))"

text \<open>
  The documented behaviour of the formatting and parsing libraries at one payload: the JSON text of
  the wire form parses back to it and is UTF-8, an address prints as \<open>0x\<close> and forty lower-case hex
  digits that decode to its bytes, and an integer prints as its shortest decimal, which parses back.
\<close>

definition decimal_law :: "codec \<Rightarrow> u256 \<Rightarrow> bool" where
  "decimal_law c v \<longleftrightarrow>
     canonical_decimal (u256_to_string c v) \<and> u256_parse c (u256_to_string c v) = Some v"

definition codec_law :: "codec \<Rightarrow> StablecoinCreatePayload \<Rightarrow> bytes \<Rightarrow> bool" where
  "codec_law c p bs \<longleftrightarrow>
     (json_to_vec c (wire_of_payload c p) = Some bs \<longrightarrow>
        utf8_valid bs \<and> json_from_slice c bs = Some (wire_of_payload c p)) \<and>
     length (format_address c (pl_issuer p)) = 42 \<and>
     take 2 (format_address c (pl_issuer p)) = ascii ''0x'' \<and>
     list_all is_lower_hex (drop 2 (format_address c (pl_issuer p))) \<and>
     hex_decode c (drop 2 (format_address c (pl_issuer p))) = Some (address_bytes (pl_issuer p)) \<and>
     decimal_law c (pl_supply_cap p) \<and> decimal_law c (pl_policy_id p)"

definition sample_payload :: StablecoinCreatePayload where
  "sample_payload = \<lparr>pl_issuer = 1, pl_name = ascii ''Dollar'', pl_ticker = ascii ''USDX'',
     pl_iso4217 = 840, pl_decimals = 6, pl_supply_cap = 1, pl_policy_id = 1\<rparr>"

definition sample_codec :: codec where
  "sample_codec =
     (let addr = ascii ''0x0000000000000000000000000000000000000001'';
          one = ascii ''1'';
          w = \<lparr>w_version = 1, w_kind = STABLECOIN_CREATE_KIND, w_issuer = addr,
               w_name = ascii ''Dollar'', w_ticker = ascii ''USDX'', w_iso4217 = 840,
               w_decimals = 6, w_supply_cap = one, w_policy_id = one\<rparr>;
          text = ascii ''{...}''
      in \<lparr>json_to_vec = (\<lambda>_. Some text), json_from_slice = (\<lambda>_. Some w),
          format_address = (\<lambda>_. addr), hex_decode = (\<lambda>_. Some (address_bytes 1)),
          u256_to_string = (\<lambda>_. one), u256_parse = (\<lambda>_. Some 1)\<rparr>)"

declare binary_search_in.simps [simp del]

section \<open>Binary search\<close>

lemma binary_search_in_Some:
  "binary_search_in xs x lo hi = Some i \<Longrightarrow> lo \<le> i \<and> i < hi \<and> xs ! i = x"
proof (induction xs x lo hi rule: binary_search_in.induct)
  case (1 xs x lo hi)
  from 1(3) show ?case
    by (subst (asm) binary_search_in.simps)
      (use 1(1,2) in \<open>fastforce simp: Let_def split: if_splits\<close>)
qed

lemma binary_search_in_None:
  "binary_search_in xs x lo hi = None \<Longrightarrow> sorted_wrt (<) xs \<Longrightarrow> hi \<le> length xs \<Longrightarrow>
   lo \<le> i \<Longrightarrow> i < hi \<Longrightarrow> xs ! i \<noteq> x"
proof (induction xs x lo hi rule: binary_search_in.induct)
  case (1 xs x lo hi)
  define mid where "mid = lo + (hi - lo) div 2"
  have mid: "lo \<le> mid" "mid < hi" using 1(6,7) by (auto simp: mid_def)
  from 1(3) mid have ne: "xs ! mid \<noteq> x"
    and right: "xs ! mid < x \<Longrightarrow> binary_search_in xs x (Suc mid) hi = None"
    and left: "\<not> xs ! mid < x \<Longrightarrow> binary_search_in xs x lo mid = None"
    by (subst (asm) binary_search_in.simps, simp add: Let_def mid_def split: if_splits)+
  show ?case
  proof (cases "xs ! mid < x")
    case True
    show ?thesis
    proof (cases "i \<le> mid")
      case le: True
      then have "xs ! i \<le> xs ! mid"
        using sorted_wrt_nth_less[OF 1(4), of i mid] mid 1(5) by (cases "i = mid") auto
      then show ?thesis using True by simp
    next
      case False
      then show ?thesis
        using 1(1)[OF _ mid_def ne True right[OF True]] 1(4-7) by simp
    qed
  next
    case False
    show ?thesis
    proof (cases "i < mid")
      case lt: True
      then show ?thesis
        using 1(2)[OF _ mid_def ne False left[OF False]] 1(4-7) mid by simp
    next
      case ge: False
      then have "xs ! mid \<le> xs ! i"
        using sorted_wrt_nth_less[OF 1(4), of mid i] mid 1(5,7) by (cases "i = mid") auto
      then show ?thesis using False ne by auto
    qed
  qed
qed

lemma binary_search_mem:
  assumes "sorted_wrt (<) xs"
  shows "binary_search xs x \<noteq> None \<longleftrightarrow> x \<in> set xs"
  using binary_search_in_Some[of xs x 0 "length xs"] binary_search_in_None[of xs x 0 "length xs"] assms
  by (auto simp: binary_search_def in_set_conv_nth)

lemma binary_search_nth:
  assumes "sorted_wrt (<) xs" "i < length xs"
  shows "binary_search xs (xs ! i) = Some i"
proof -
  obtain j where j: "binary_search xs (xs ! i) = Some j"
    using binary_search_mem[OF assms(1), of "xs ! i"] assms(2) by auto
  then have "j < length xs" "xs ! j = xs ! i"
    using binary_search_in_Some[of xs "xs ! i" 0 "length xs" j] by (auto simp: binary_search_def)
  then have "j = i"
    using sorted_wrt_nth_less[OF assms(1), of i j] sorted_wrt_nth_less[OF assms(1), of j i] assms(2)
    by (metis linorder_neqE_nat less_irrefl)
  then show ?thesis using j by simp
qed

lemma iso_codes_sorted: "sorted_wrt (<) ISO_4217_NUMERIC_CODES"
proof -
  have "successively (<) ISO_4217_NUMERIC_CODES" by code_simp
  then show ?thesis by (simp add: successively_conv_sorted_wrt)
qed

lemma iso_tables_aligned: "length ISO_4217_ALPHA = length ISO_4217_NUMERIC_CODES"
  by code_simp

section \<open>Results\<close>

lemma andThen_ok [simp]: "andThen r f = Inr b \<longleftrightarrow> (\<exists>a. r = Inr a \<and> f a = Inr b)"
  by (cases r) (auto simp: andThen_def)

lemma andThen_Inr [simp]: "andThen (Inr a) f = f a"
  by (simp add: andThen_def)

lemma ok_or_Inr [simp]: "ok_or x e = Inr a \<longleftrightarrow> x = Some a"
  by (cases x) (auto simp: ok_or_def)

lemma ok_or_Some [simp]: "ok_or (Some a) e = Inr a"
  by (simp add: ok_or_def)

lemma map_err_Inr [simp]: "map_err f (Inr a) = Inr a"
  by (simp add: map_err_def)

lemma validate_ticker_ok:
  "validate_ticker t = Inr u \<longleftrightarrow>
     2 \<le> length t \<and> length t \<le> 12 \<and> is_ascii_uppercase (hd t) \<and>
     list_all (\<lambda>b. is_ascii_uppercase b \<or> is_ascii_digit b) (drop 1 t)"
  by (auto simp: validate_ticker_def MIN_TICKER_LEN_def MAX_TICKER_LEN_def)

lemma decode_ok:
  assumes "decode_canonical_stablecoin_create c bs = Inr p"
  shows "encode_canonical_stablecoin_create c p = Inr bs" "validate_payload p = Inr ()"
  using assms
  by (auto simp: decode_canonical_stablecoin_create_def encode_canonical_stablecoin_create_def
      split: if_splits)

section \<open>Token identity\<close>

lemma preimage_ok:
  assumes "stablecoin_token_id_preimage ch f i t = Inr bs"
  shows "bs = STABLECOIN_TOKEN_ID_DOMAIN @ be_bytes 8 (uint ch) @ address_bytes f @
      address_bytes i @ [word_of_nat (length t)] @ t"
    and "f \<noteq> 0" "i \<noteq> 0" "validate_ticker t = Inr ()"
  using assms by (auto simp: stablecoin_token_id_preimage_def split: if_splits)

lemma preimage_inj:
  assumes "stablecoin_token_id_preimage ch f i t = Inr bs"
    "stablecoin_token_id_preimage ch' f' i' t' = Inr bs"
  shows "ch = ch' \<and> f = f' \<and> i = i' \<and> t = t'"
proof -
  have "be_bytes 8 (uint ch) = be_bytes 8 (uint ch')" "address_bytes f = address_bytes f'"
    "address_bytes i = address_bytes i'" "t = t'"
    using preimage_ok(1)[OF assms(1)] preimage_ok(1)[OF assms(2)] by simp_all
  then show ?thesis using be_bytes_word_inj[of 8 ch ch'] by simp
qed

lemma stablecoin_address_bytes:
  "length prefix = 2 \<Longrightarrow>
   address_bytes (stablecoin_address token_id prefix) = prefix @ drop 14 (word_bytes token_id)"
  unfolding stablecoin_address_def by (rule address_bytes_of_bytes) simp

lemma budget_value:
  assumes "stablecoin_v1_budget_for_measurement g = Some b"
  shows "unat b = 10000 * (((125 * unat g + 99) div 100 + 9999) div 10000)"
proof -
  let ?v = "g * 125 + 99"
  have v: "unat ?v = 125 * unat g + 99" and
    b: "b = (if ?v div 100 = 0 then 0 else (?v div 100 + 9999) div 10000 * 10000)" and
    fits: "?v div 100 \<noteq> 0 \<Longrightarrow> unat (?v div 100) + 9999 < 2 ^ 64 \<and>
      unat ((?v div 100 + 9999) div 10000) * 10000 < 2 ^ 64"
    using assms
    by (auto simp: stablecoin_v1_budget_for_measurement_def Let_def unat_add_exact unat_mult_exact
        split: option.splits if_splits)
  have m: "unat (?v div 100) = (125 * unat g + 99) div 100"
    by (simp add: unat_div v)
  show ?thesis
  proof (cases "?v div 100 = 0")
    case True
    then have "(125 * unat g + 99) div 100 = 0" using m by simp
    then show ?thesis using True b by simp
  next
    case False
    have "unat (?v div 100 + 9999) = (125 * unat g + 99) div 100 + 9999"
      using unat_add_exact[of "?v div 100" 9999] fits[OF False] m by simp
    then have q: "unat ((?v div 100 + 9999) div 10000) = ((125 * unat g + 99) div 100 + 9999) div 10000"
      by (simp add: unat_div)
    show ?thesis
      using unat_mult_exact[of "(?v div 100 + 9999) div 10000" 10000] fits[OF False] q b False by simp
  qed
qed

section \<open>Properties\<close>

lemma parse_own_address:
  assumes "codec_law c p bs" "pl_issuer p \<noteq> 0"
  shows "parse_canonical_address c (format_address c (pl_issuer p)) = Inr (pl_issuer p)"
  using assms by (simp add: parse_canonical_address_def codec_law_def)

lemma parse_own_decimal:
  assumes "decimal_law c v" "\<not> (reject_zero \<and> v = 0)"
  shows "parse_canonical_decimal c (u256_to_string c v) reject_zero = Inr v"
  using assms by (auto simp: parse_canonical_decimal_def decimal_law_def)

lemma payload_from_own_wire:
  assumes law: "codec_law c p bs" and valid: "validate_payload p = Inr ()"
  shows "payload_from_wire c (wire_of_payload c p) = Inr p"
proof -
  have "pl_issuer p \<noteq> 0" "pl_supply_cap p \<noteq> 0"
    using valid by (auto simp: validate_payload_def split: if_splits)
  moreover have "decimal_law c (pl_supply_cap p)" "decimal_law c (pl_policy_id p)"
    using law by (simp_all add: codec_law_def)
  ultimately show ?thesis
    using parse_own_address[OF law] valid
    by (cases p) (simp add: payload_from_wire_def wire_of_payload_def parse_own_decimal Let_def)
qed

text \<open>
  C19: Encoding a valid creation payload and decoding the bytes gives the payload back.
\<close>

theorem payload_round_trip:
  assumes enc: "encode_canonical_stablecoin_create c p = Inr bs" and law: "codec_law c p bs"
  shows "decode_canonical_stablecoin_create c bs = Inr p"
proof -
  have valid: "validate_payload p = Inr ()" and json: "json_to_vec c (wire_of_payload c p) = Some bs"
    using enc by (auto simp: encode_canonical_stablecoin_create_def)
  then show ?thesis
    using payload_from_own_wire[OF law valid] enc law
    by (simp add: decode_canonical_stablecoin_create_def codec_law_def)
qed

theorem payload_round_trip_witness:
  "encode_canonical_stablecoin_create sample_codec sample_payload = Inr (ascii ''{...}'') \<and>
   decode_canonical_stablecoin_create sample_codec (ascii ''{...}'') = Inr sample_payload"
proof
  show enc: "encode_canonical_stablecoin_create sample_codec sample_payload = Inr (ascii ''{...}'')"
    by code_simp
  have "codec_law sample_codec sample_payload (ascii ''{...}'')"
    by code_simp
  with enc show "decode_canonical_stablecoin_create sample_codec (ascii ''{...}'') = Inr sample_payload"
    by (rule payload_round_trip)
qed

text \<open>
  C20: The codec is canonical: whatever the JSON library accepts, two byte strings that decode to the
  same payload are equal, and both are the encoding of that payload.
\<close>

theorem decode_is_canonical:
  assumes "decode_canonical_stablecoin_create c b1 = Inr p"
    and "decode_canonical_stablecoin_create c b2 = Inr p"
  shows "b1 = b2 \<and> encode_canonical_stablecoin_create c p = Inr b1 \<and> validate_payload p = Inr ()"
  using decode_ok[OF assms(1)] decode_ok[OF assms(2)] by simp

theorem decode_is_canonical_witness:
  "decode_canonical_stablecoin_create sample_codec (ascii ''{...}'') = Inr sample_payload \<and>
   validate_payload sample_payload = Inr ()"
proof -
  have "decode_canonical_stablecoin_create sample_codec (ascii ''{...}'') = Inr sample_payload"
    by code_simp
  with decode_is_canonical[OF this this] show ?thesis by simp
qed

text \<open>
  C21: The bytes hashed to a token id determine the chain, the factory, the issuer and the ticker: no
  two different tokens are hashed from the same bytes.
\<close>

theorem token_id_preimage_injective:
  assumes "stablecoin_token_id_preimage ch f i t = Inr bs"
    and "stablecoin_token_id_preimage ch' f' i' t' = Inr bs"
  shows "(ch, f, i, t) = (ch', f', i', t')"
  using preimage_inj[OF assms] by simp

theorem token_id_preimage_injective_witness:
  "\<exists>bs. stablecoin_token_id_preimage 1 2 3 (ascii ''AB'') = Inr bs \<and>
     (\<forall>i t. i \<noteq> 3 \<longrightarrow> stablecoin_token_id_preimage 1 2 i t \<noteq> Inr bs)"
proof -
  have ok: "stablecoin_token_id_preimage 1 2 3 (ascii ''AB'') =
      Inr (STABLECOIN_TOKEN_ID_DOMAIN @ be_bytes 8 1 @ address_bytes 2 @ address_bytes 3 @
        [2] @ ascii ''AB'')"
    by code_simp
  then show ?thesis using token_id_preimage_injective[OF ok] by auto
qed

text \<open>
  C22: A predicted token address lies in the reserved class, and its last eighteen bytes are the last
  eighteen bytes of the token id.
\<close>

theorem predicted_address_in_class:
  assumes "predict_stablecoin keccak ch f i t STABLECOIN_ADDRESS_PREFIX = Inr (tid, a)"
  shows "is_stablecoin_address a \<and> drop 2 (address_bytes a) = drop 14 (word_bytes tid) \<and> a \<noteq> 0"
proof -
  have "address_bytes a = STABLECOIN_ADDRESS_PREFIX @ drop 14 (word_bytes tid)"
    using assms stablecoin_address_bytes[of STABLECOIN_ADDRESS_PREFIX]
    by (auto simp: predict_stablecoin_def STABLECOIN_ADDRESS_PREFIX_def)
  then have bytes: "is_stablecoin_address a \<and> drop 2 (address_bytes a) = drop 14 (word_bytes tid)"
    by (simp add: is_stablecoin_address_def STABLECOIN_ADDRESS_PREFIX_def)
  moreover have "a \<noteq> 0"
  proof
    assume "a = 0"
    moreover have "\<not> is_stablecoin_address 0" by code_simp
    ultimately show False using bytes by simp
  qed
  ultimately show ?thesis by simp
qed

theorem predicted_address_in_class_witness:
  "\<exists>tid a. predict_stablecoin (\<lambda>bs. word_of_int (be_int bs)) 1 STABLECOIN_FACTORY_ADDRESS 7
      (ascii ''USDX'') STABLECOIN_ADDRESS_PREFIX = Inr (tid, a) \<and> is_stablecoin_address a"
proof -
  have "validate_ticker (ascii ''USDX'') = Inr ()" by code_simp
  then obtain r where r: "predict_stablecoin (\<lambda>bs. word_of_int (be_int bs)) 1 STABLECOIN_FACTORY_ADDRESS 7
      (ascii ''USDX'') STABLECOIN_ADDRESS_PREFIX = Inr r"
    by (simp add: predict_stablecoin_def stablecoin_token_id_def stablecoin_token_id_preimage_def
        STABLECOIN_FACTORY_ADDRESS_def ascii_def)
  obtain tid a where "r = (tid, a)" by (cases r)
  with r show ?thesis using predicted_address_in_class by blast
qed

text \<open>
  C23: The binary search in the currency tables finds exactly the listed codes, and each listed code
  is mapped to the alphabetic code at its own position.
\<close>

theorem iso_lookup_correct:
  "(is_supported_iso4217 code \<longleftrightarrow> code \<in> set ISO_4217_NUMERIC_CODES) \<and>
   (validate_currency_code code \<longleftrightarrow> code \<in> set ISO_4217_NUMERIC_CODES) \<and>
   iso_4217_alpha code = map_of (zip ISO_4217_NUMERIC_CODES ISO_4217_ALPHA) code"
proof -
  let ?N = ISO_4217_NUMERIC_CODES
  have mem: "binary_search ?N code \<noteq> None \<longleftrightarrow> code \<in> set ?N"
    by (rule binary_search_mem[OF iso_codes_sorted])
  have dist: "distinct ?N"
    using iso_codes_sorted strict_sorted_iff by blast
  have "iso_4217_alpha code = map_of (zip ?N ISO_4217_ALPHA) code"
  proof (cases "code \<in> set ?N")
    case True
    then obtain i where i: "i < length ?N" "code = ?N ! i" by (auto simp: in_set_conv_nth)
    then have "map_of (zip ?N ISO_4217_ALPHA) (?N ! i) = Some (ISO_4217_ALPHA ! i)"
      using map_of_zip_nth[OF iso_tables_aligned[symmetric] dist] iso_tables_aligned by simp
    then show ?thesis
      using i binary_search_nth[OF iso_codes_sorted i(1)] by (simp add: iso_4217_alpha_def)
  next
    case False
    then have "map_of (zip ?N ISO_4217_ALPHA) code = None"
      using map_of_eq_None_iff[of "zip ?N ISO_4217_ALPHA" code] by (auto dest: set_zip_leftD)
    then show ?thesis using mem False by (simp add: iso_4217_alpha_def)
  qed
  moreover have "is_supported_iso4217 code \<longleftrightarrow> code \<in> set ?N"
    using mem by (simp add: is_supported_iso4217_def)
  moreover have "validate_currency_code code \<longleftrightarrow> code \<in> set ?N"
    using mem by (simp add: validate_currency_code_def iso_4217_alpha_def)
  ultimately show ?thesis by simp
qed

text \<open>
  C24: The gas budget is the measurement with a quarter added, rounded up to the next multiple of
  10,000: it never falls below 125 percent of the measurement, and it is the least such multiple.
\<close>

theorem budget_is_least_multiple:
  assumes "stablecoin_v1_budget_for_measurement g = Some b"
  shows "10000 dvd unat b \<and> 125 * unat g \<le> 100 * unat b \<and>
    (\<forall>m. 10000 dvd m \<longrightarrow> 125 * unat g \<le> 100 * m \<longrightarrow> unat b \<le> m)"
proof -
  have b: "unat b = 10000 * (((125 * unat g + 99) div 100 + 9999) div 10000)"
    by (rule budget_value[OF assms])
  show ?thesis
  proof (intro conjI allI impI)
    show "10000 dvd unat b" by (simp add: b)
    show "125 * unat g \<le> 100 * unat b" unfolding b by linarith
  next
    fix m :: nat
    assume "10000 dvd m" and m: "125 * unat g \<le> 100 * m"
    then obtain k where k: "m = 10000 * k" by (elim dvdE)
    have "(125 * unat g + 99) div 100 \<le> (100 * m + 99) div 100"
      using m by (intro div_le_mono) simp
    also have "\<dots> = m" by simp
    finally have "((125 * unat g + 99) div 100 + 9999) div 10000 \<le> (m + 9999) div 10000"
      by (intro div_le_mono) simp
    also have "\<dots> = k" by (simp add: k)
    finally show "unat b \<le> m" by (simp add: b k)
  qed
qed

theorem budget_is_least_multiple_witness:
  "stablecoin_v1_budget_for_measurement 8001 = Some 20000 \<and>
   125 * unat (8001::u64) \<le> 100 * unat (20000::u64)"
proof -
  have "stablecoin_v1_budget_for_measurement 8001 = Some 20000" by code_simp
  with budget_is_least_multiple[OF this] show ?thesis by simp
qed

end
