(* ===== verification/Stablecoin_Token.thy ===== *)
theory Stablecoin_Token
  imports Policy_Registry Stablecoin_Payload
begin

text \<open>
  The stablecoin ledger, \<open>core/stablecoin\<close>: \<open>schema.rs\<close>, \<open>errors.rs\<close>, \<open>state.rs\<close>, \<open>api.rs\<close> and the
  call table of \<open>precompile.rs\<close>.

  The record \<open>StablecoinContract\<close> has one field per root slot, with the log of emitted events. A
  call runs in a \<open>token_env\<close>: the chain id and the time of the block, the address of the token, the
  policy registry (the ledger only reads it), the hash, the formatting libraries and the signature
  library. Fields whose name another contract also uses carry the prefix \<open>token_\<close>.
\<close>

section \<open>Types\<close>

datatype TokenEvent =
    Transfer address address u256
  | Approval address address u256
  | TransferWithMemo address address u256 b256
  | ForcedTransfer address address u256
  | Frozen address u256
  | RoleGranted b256 address address
  | RoleRevoked b256 address address
  | AdminTransferStarted address address
  | AdminTransferCancelled address address
  | AdminTransferred address address
  | Paused address
  | Unpaused address
  | SupplyCapChanged u256 u256 address
  | PolicyChanged u256 u256 address

record StablecoinContract =
  schema_version :: u64
  creation_protocol_version :: u64
  token_id :: b256
  token_name :: bytes
  token_symbol :: bytes
  currency :: u16
  token_decimals :: u8
  issuer :: address
  supply_cap :: u256
  total_supply :: u256
  token_policy_id :: u256
  paused :: bool
  token_admin :: address
  token_pending_admin :: address
  balances :: "address \<Rightarrow> u256"
  allowances :: "b256 \<Rightarrow> u256"
  nonces :: "address \<Rightarrow> u256"
  roles :: "b256 \<Rightarrow> bool"
  frozen :: "address \<Rightarrow> u256"
  token_logs :: "TokenEvent list"

datatype StablecoinStateError =
    UnexpectedValue u256
  | Uninitialized
  | AlreadyInitialized
  | InvalidInitializationIdentity
  | UnknownInitializationPolicy u256
  | MigrationRequired u64 u64
  | NonPristineRoot nat
  | InvalidAddress address
  | InvalidAmount
  | InsufficientBalance address u256 u256
  | InsufficientAllowance address address u256 u256
  | SupplyCapExceeded u256 u256
  | Unauthorized b256 address
  | UnsupportedRole b256
  | TokenPaused
  | TokenNotPaused
  | SupplyCapBelowSupply u256 u256
  | InvalidPendingAdmin address
  | NotPendingAdmin address
  | UnknownPolicy u256
  | PolicyDenied u256 address u8
  | ERC7943CannotSend address
  | ERC7943CannotReceive address
  | ERC7943CannotTransfer address address u256
  | ERC7943InsufficientUnfrozenBalance address u256 u256
  | FrozenAllowanceIncrease address u256 u256
  | ForcedSelfTransfer
  | PermitExpired u256
  | InvalidPermitSignature

type_synonym 'a token_prog = "(StablecoinContract, StablecoinStateError, 'a) prog"

record token_env =
  env_keccak :: "bytes \<Rightarrow> b256"
  env_codec :: codec
  env_self :: address
  env_chain_id :: u64
  env_timestamp :: u256
  env_registry :: StablecoinPolicyRegistryContract
  sig_from_slice :: "bytes \<Rightarrow> bool"
  sig_normalize_s :: "bytes \<Rightarrow> bool"
  sig_recover :: "b256 \<Rightarrow> bytes \<Rightarrow> u8 \<Rightarrow> bytes option"

record FactoryTokenInitialization =
  init_token_address :: address
  init_token_id :: b256
  init_creation_protocol_version :: u64
  init_payload :: StablecoinCreatePayload

record TokenIdentity =
  ti_token_id :: b256
  ti_name :: bytes
  ti_symbol :: bytes
  ti_currency :: u16
  ti_decimals :: u8
  ti_issuer :: address
  ti_creation_protocol_version :: u64

definition ADMIN_ROLE :: b256 where
  "ADMIN_ROLE = 0xdf8b4c520ffe197c5343c6f5aec59570151ef9a492f2c624fd45ddde6135ec42"

definition ISSUER_ROLE :: b256 where
  "ISSUER_ROLE = 0x76afa8a5929fef1b4c03674b2152ae5aaad1d974b8a4021c59477bcc846ccc1e"

definition CAP_MANAGER_ROLE :: b256 where
  "CAP_MANAGER_ROLE = 0xea85ad40095d48558c82add51498fcc17c0bbd84883ea60f8230c6b6b494ea40"

definition GUARDIAN_ROLE :: b256 where
  "GUARDIAN_ROLE = 0x8b5b16d04624687fcf0d0228f19993c9157c1ed07b41d8d430fd9100eb099fe8"

definition COMPLIANCE_ROLE :: b256 where
  "COMPLIANCE_ROLE = 0xa67a057d728d16e162a15912cbf6e8d4fcd69e5b7b0d1f849a0a10ca6e14741c"

definition ENFORCER_ROLE :: b256 where
  "ENFORCER_ROLE = 0x98151564cba5aa82ec81644cc0eefc457cbd612a3d0184596373eb688d514497"

definition OPERATIONAL_ROLES :: "b256 list" where
  "OPERATIONAL_ROLES =
     [ISSUER_ROLE, CAP_MANAGER_ROLE, GUARDIAN_ROLE, COMPLIANCE_ROLE, ENFORCER_ROLE]"

definition EIP712_DOMAIN_TYPEHASH :: b256 where
  "EIP712_DOMAIN_TYPEHASH = 0x8b73c3c69bb8fe3d512ecc4cf759cc79239f7b179b0ffacaa9a75d522b39400f"

definition EIP712_VERSION_HASH :: b256 where
  "EIP712_VERSION_HASH = 0xc89efdaa54c0f20c7adf612882df0950f5a951637e0307cdcb4c672f298b8bc6"

definition PERMIT_TYPEHASH :: b256 where
  "PERMIT_TYPEHASH = 0x6e71edae12b1b97f4d1f60370fef10105fa2faae0126114a169c64845d6126c9"

definition STABLECOIN_V1_SCHEMA_VERSION :: u32 where
  "STABLECOIN_V1_SCHEMA_VERSION = 1"

definition allowance_key :: "token_env \<Rightarrow> address \<Rightarrow> address \<Rightarrow> b256" where
  "allowance_key env owner spender = env_keccak env (address_bytes owner @ address_bytes spender)"

definition role_key :: "token_env \<Rightarrow> b256 \<Rightarrow> address \<Rightarrow> b256" where
  "role_key env role account = env_keccak env (word_bytes role @ address_bytes account)"

text \<open>\<open>impl From<StablecoinStateError> for PrecompileError\<close>.\<close>

fun token_error :: "StablecoinStateError \<Rightarrow> StablecoinStateError precompile_error" where
  "token_error AlreadyInitialized = Fatal (Typed AlreadyInitialized)"
| "token_error (NonPristineRoot slot) = Fatal (Typed (NonPristineRoot slot))"
| "token_error Uninitialized = Revert (Typed Uninitialized)"
| "token_error InvalidInitializationIdentity = Revert (Typed InvalidInitializationIdentity)"
| "token_error (UnknownInitializationPolicy pid) = Revert (Typed (UnknownInitializationPolicy pid))"
| "token_error e = RevertBytes (Typed e)"

section \<open>Field writes\<close>

definition emit_token :: "TokenEvent \<Rightarrow> unit token_prog" where
  "emit_token ev = writeM (\<lambda>c. c\<lparr>token_logs := token_logs c @ [ev]\<rparr>)"

definition balances_write :: "address \<Rightarrow> u256 \<Rightarrow> unit token_prog" where
  "balances_write a v = writeM (\<lambda>c. c\<lparr>balances := (balances c)(a := v)\<rparr>)"

definition allowances_write :: "b256 \<Rightarrow> u256 \<Rightarrow> unit token_prog" where
  "allowances_write k v = writeM (\<lambda>c. c\<lparr>allowances := (allowances c)(k := v)\<rparr>)"

definition roles_write :: "b256 \<Rightarrow> bool \<Rightarrow> unit token_prog" where
  "roles_write k v = writeM (\<lambda>c. c\<lparr>roles := (roles c)(k := v)\<rparr>)"

definition frozen_write :: "address \<Rightarrow> u256 \<Rightarrow> unit token_prog" where
  "frozen_write a v = writeM (\<lambda>c. c\<lparr>frozen := (frozen c)(a := v)\<rparr>)"

definition nonces_write :: "address \<Rightarrow> u256 \<Rightarrow> unit token_prog" where
  "nonces_write a v = writeM (\<lambda>c. c\<lparr>nonces := (nonces c)(a := v)\<rparr>)"

definition total_supply_write :: "u256 \<Rightarrow> unit token_prog" where
  "total_supply_write v = writeM (\<lambda>c. c\<lparr>total_supply := v\<rparr>)"

section \<open>Guards and reads\<close>

definition validated_schema_version :: "u64 token_prog" where
  "validated_schema_version =
     bindM (getsM schema_version) (\<lambda>stored.
     if stored = 0 then failM (token_error Uninitialized)
     else if stored = ucast STABLECOIN_V1_SCHEMA_VERSION then retM stored
     else failM (token_error (MigrationRequired stored (ucast STABLECOIN_V1_SCHEMA_VERSION))))"

definition read_utf8 :: "string \<Rightarrow> (StablecoinContract \<Rightarrow> bytes) \<Rightarrow> bytes token_prog" where
  "read_utf8 msg f =
     bindM (getsM f) (\<lambda>bs. if utf8_valid bs then retM bs else failM (Fatal (Text msg)))"

definition identity :: "TokenIdentity token_prog" where
  "identity =
     bindM validated_schema_version (\<lambda>_.
     bindM (read_utf8 ''stablecoin name storage is not UTF-8'' token_name) (\<lambda>nm.
     bindM (read_utf8 ''stablecoin symbol storage is not UTF-8'' token_symbol) (\<lambda>sym.
     getsM (\<lambda>c. \<lparr>ti_token_id = token_id c, ti_name = nm, ti_symbol = sym,
       ti_currency = currency c, ti_decimals = token_decimals c, ti_issuer = issuer c,
       ti_creation_protocol_version = creation_protocol_version c\<rparr>))))"

definition name_value :: "bytes token_prog" where
  "name_value =
     bindM validated_schema_version (\<lambda>_.
     read_utf8 ''stablecoin name storage is not UTF-8'' token_name)"

definition symbol_value :: "bytes token_prog" where
  "symbol_value =
     bindM validated_schema_version (\<lambda>_.
     read_utf8 ''stablecoin symbol storage is not UTF-8'' token_symbol)"

definition checked_read :: "(StablecoinContract \<Rightarrow> 'a) \<Rightarrow> 'a token_prog" where
  "checked_read f = bindM validated_schema_version (\<lambda>_. getsM f)"

definition balance_of :: "address \<Rightarrow> u256 token_prog" where
  "balance_of account = checked_read (\<lambda>c. balances c account)"

definition allowance_of :: "token_env \<Rightarrow> address \<Rightarrow> address \<Rightarrow> u256 token_prog" where
  "allowance_of env owner spender = checked_read (\<lambda>c. allowances c (allowance_key env owner spender))"

definition frozen_tokens :: "address \<Rightarrow> u256 token_prog" where
  "frozen_tokens account = checked_read (\<lambda>c. frozen c account)"

text \<open>The ABI encoding of a tuple of static values is the concatenation of their 32-byte words.\<close>

definition domain_separator :: "token_env \<Rightarrow> b256 token_prog" where
  "domain_separator env =
     bindM validated_schema_version (\<lambda>_.
     bindM (getsM token_name) (\<lambda>nm.
     retM (env_keccak env (concat (map word_bytes
       [EIP712_DOMAIN_TYPEHASH, env_keccak env nm, EIP712_VERSION_HASH,
        ucast (env_chain_id env), ucast (env_self env)])))))"

definition has_role :: "token_env \<Rightarrow> b256 \<Rightarrow> address \<Rightarrow> bool token_prog" where
  "has_role env role account =
     bindM validated_schema_version (\<lambda>_.
     if role \<noteq> ADMIN_ROLE \<and> role \<notin> set OPERATIONAL_ROLES then retM False
     else
       bindM (getsM (\<lambda>c. roles c (role_key env role account))) (\<lambda>member.
       if role = ADMIN_ROLE
       then
         bindM (getsM token_admin) (\<lambda>adm.
         if member \<noteq> (account = adm)
         then failM (Fatal (Text ''stablecoin ADMIN slot/role membership mismatch''))
         else retM member)
       else retM member))"

definition require_role :: "token_env \<Rightarrow> b256 \<Rightarrow> address \<Rightarrow> unit token_prog" where
  "require_role env role caller =
     bindM (has_role env role caller) (\<lambda>b. requireM b (token_error (Unauthorized role caller)))"

definition require_operational_role :: "b256 \<Rightarrow> unit token_prog" where
  "require_operational_role role =
     requireM (role \<in> set OPERATIONAL_ROLES) (token_error (UnsupportedRole role))"

definition require_nonzero :: "address \<Rightarrow> unit token_prog" where
  "require_nonzero account = requireM (account \<noteq> 0) (token_error (InvalidAddress account))"

definition require_nonzero_amount :: "u256 \<Rightarrow> unit token_prog" where
  "require_nonzero_amount amount = requireM (amount \<noteq> 0) (token_error InvalidAmount)"

definition require_not_paused :: "unit token_prog" where
  "require_not_paused = bindM (getsM paused) (\<lambda>p. requireM (\<not> p) (token_error TokenPaused))"

text \<open>The read-only surface of the registry, \<open>stablecoinpolicy/src/api.rs\<close>.\<close>

definition policy_can_send :: "token_env \<Rightarrow> u256 \<Rightarrow> address \<Rightarrow> bool" where
  "policy_can_send env pid account = can pid account Send (env_registry env)"

definition policy_can_receive :: "token_env \<Rightarrow> u256 \<Rightarrow> address \<Rightarrow> bool" where
  "policy_can_receive env pid account = can pid account Receive (env_registry env)"

definition policy_can_mint :: "token_env \<Rightarrow> u256 \<Rightarrow> address \<Rightarrow> bool" where
  "policy_can_mint env pid account = can pid account Mint (env_registry env)"

definition require_can_send :: "token_env \<Rightarrow> address \<Rightarrow> unit token_prog" where
  "require_can_send env account =
     bindM (getsM token_policy_id) (\<lambda>pid.
     requireM (policy_can_send env pid account) (token_error (ERC7943CannotSend account)))"

definition require_can_receive :: "token_env \<Rightarrow> address \<Rightarrow> unit token_prog" where
  "require_can_receive env account =
     bindM (getsM token_policy_id) (\<lambda>pid.
     requireM (policy_can_receive env pid account) (token_error (ERC7943CannotReceive account)))"

definition require_can_mint :: "token_env \<Rightarrow> address \<Rightarrow> unit token_prog" where
  "require_can_mint env account =
     bindM (getsM token_policy_id) (\<lambda>pid.
     requireM (policy_can_mint env pid account) (token_error (ERC7943CannotReceive account)))"

definition unfrozen :: "u256 \<Rightarrow> u256 \<Rightarrow> u256" where
  "unfrozen balance frz = saturating_sub balance frz"

definition require_unfrozen :: "address \<Rightarrow> u256 \<Rightarrow> u256 \<Rightarrow> unit token_prog" where
  "require_unfrozen account balance amount =
     bindM (getsM (\<lambda>c. unfrozen balance (frozen c account))) (\<lambda>available.
     requireM (amount \<le> available)
       (token_error (ERC7943InsufficientUnfrozenBalance account amount available)))"

definition require_balance :: "address \<Rightarrow> u256 \<Rightarrow> u256 \<Rightarrow> unit token_prog" where
  "require_balance account balance amount =
     requireM (amount \<le> balance) (token_error (InsufficientBalance account balance amount))"

definition consume_frozen :: "address \<Rightarrow> u256 \<Rightarrow> u256 \<Rightarrow> u256 \<Rightarrow> unit token_prog" where
  "consume_frozen account balance frz amount =
     (let available = unfrozen balance frz;
          consumed = (if amount > available then amount - available else 0)
      in if consumed = 0 then retM ()
         else
           bindM (unwrapM (checked_sub frz consumed)
                   (Fatal (Text ''stablecoin frozen-balance invariant is corrupted''))) (\<lambda>next_frozen.
           bindM (frozen_write account next_frozen) (\<lambda>_.
           emit_token (Frozen account next_frozen))))"

definition validate_allowance_update ::
    "token_env \<Rightarrow> address \<Rightarrow> address \<Rightarrow> u256 \<Rightarrow> unit token_prog" where
  "validate_allowance_update env owner spender value =
     bindM (getsM (\<lambda>c. allowances c (allowance_key env owner spender))) (\<lambda>current.
     bindM (getsM (\<lambda>c. frozen c owner)) (\<lambda>frz.
     requireM (\<not> (frz \<noteq> 0 \<and> value > current))
       (token_error (FrozenAllowanceIncrease owner current value))))"

definition write_approval :: "token_env \<Rightarrow> address \<Rightarrow> address \<Rightarrow> u256 \<Rightarrow> unit token_prog" where
  "write_approval env owner spender value =
     bindM (allowances_write (allowance_key env owner spender) value) (\<lambda>_.
     emit_token (Approval owner spender value))"

definition can_send :: "token_env \<Rightarrow> address \<Rightarrow> bool token_prog" where
  "can_send env account =
     bindM validated_schema_version (\<lambda>_.
     bindM (getsM paused) (\<lambda>p.
     if p \<or> account = 0 then retM False
     else getsM (\<lambda>c. policy_can_send env (token_policy_id c) account)))"

definition can_receive :: "token_env \<Rightarrow> address \<Rightarrow> bool token_prog" where
  "can_receive env account =
     bindM validated_schema_version (\<lambda>_.
     bindM (getsM paused) (\<lambda>p.
     if p \<or> account = 0 then retM False
     else getsM (\<lambda>c. policy_can_receive env (token_policy_id c) account)))"

definition can_transfer :: "token_env \<Rightarrow> address \<Rightarrow> address \<Rightarrow> u256 \<Rightarrow> bool token_prog" where
  "can_transfer env from to value =
     bindM validated_schema_version (\<lambda>_.
     bindM (getsM paused) (\<lambda>p.
     if p \<or> from = 0 \<or> to = 0 then retM False
     else
       bindM (getsM token_policy_id) (\<lambda>pid.
       if \<not> policy_can_send env pid from \<or> \<not> policy_can_receive env pid to then retM False
       else
         bindM (getsM (\<lambda>c. balances c from)) (\<lambda>balance.
         bindM (getsM (\<lambda>c. frozen c from)) (\<lambda>frz.
         retM (frz = 0 \<or> value \<le> unfrozen balance frz))))))"

section \<open>Initialization\<close>

text \<open>
  The root slots 1 to 18 in order, each with the question whether it is zero. Slot 3 and 4 head a
  byte string and are zero iff it is empty; the mapping slots 14 to 18 are never written.
\<close>

definition root_slots :: "StablecoinContract \<Rightarrow> (nat \<times> bool) list" where
  "root_slots c =
     [(1, creation_protocol_version c = 0), (2, token_id c = 0), (3, token_name c = []),
      (4, token_symbol c = []), (5, currency c = 0), (6, token_decimals c = 0), (7, issuer c = 0),
      (8, supply_cap c = 0), (9, total_supply c = 0), (10, token_policy_id c = 0),
      (11, \<not> paused c), (12, token_admin c = 0), (13, token_pending_admin c = 0),
      (14, True), (15, True), (16, True), (17, True), (18, True)]"

definition validate_pristine_root :: "unit token_prog" where
  "validate_pristine_root =
     bindM (getsM root_slots) (\<lambda>slots.
     forEachM (\<lambda>(slot, zero). requireM zero (token_error (NonPristineRoot slot))) slots)"

definition validate_initialization :: "token_env \<Rightarrow> FactoryTokenInitialization \<Rightarrow> unit token_prog" where
  "validate_initialization env ini =
     (if init_token_address ini \<noteq> env_self env \<or> init_token_address ini = 0 \<or> init_token_id ini = 0
      then failM (token_error InvalidInitializationIdentity)
      else
        case encode_canonical_stablecoin_create (env_codec env) (init_payload ini) of
          Inl _ \<Rightarrow> failM (token_error InvalidInitializationIdentity)
        | Inr _ \<Rightarrow>
            (case stablecoin_token_id (env_keccak env) (env_chain_id env) STABLECOIN_FACTORY_ADDRESS
                    (pl_issuer (init_payload ini)) (pl_ticker (init_payload ini)) of
               Inl _ \<Rightarrow> failM (token_error InvalidInitializationIdentity)
             | Inr expected_id \<Rightarrow>
                 if expected_id \<noteq> init_token_id ini \<or>
                    stablecoin_address expected_id STABLECOIN_ADDRESS_PREFIX \<noteq> env_self env
                 then failM (token_error InvalidInitializationIdentity)
                 else
                   requireM (policy_exists (pl_policy_id (init_payload ini)) (env_registry env))
                     (token_error (UnknownInitializationPolicy (pl_policy_id (init_payload ini))))))"

definition initialize_from_factory :: "token_env \<Rightarrow> FactoryTokenInitialization \<Rightarrow> unit token_prog" where
  "initialize_from_factory env ini =
     bindM (getsM schema_version) (\<lambda>stored.
     if stored \<noteq> 0
     then failM (if stored = ucast STABLECOIN_V1_SCHEMA_VERSION then token_error AlreadyInitialized
                 else Fatal (Text ''stablecoin Factory initialization reached incompatible schema''))
     else
       bindM validate_pristine_root (\<lambda>_.
       bindM (validate_initialization env ini) (\<lambda>_.
       let p = init_payload ini in
       with_checkpoint (
         bindM (writeM (\<lambda>c. c\<lparr>creation_protocol_version := init_creation_protocol_version ini\<rparr>)) (\<lambda>_.
         bindM (writeM (\<lambda>c. c\<lparr>token_id := init_token_id ini\<rparr>)) (\<lambda>_.
         bindM (writeM (\<lambda>c. c\<lparr>token_name := pl_name p\<rparr>)) (\<lambda>_.
         bindM (writeM (\<lambda>c. c\<lparr>token_symbol := pl_ticker p\<rparr>)) (\<lambda>_.
         bindM (writeM (\<lambda>c. c\<lparr>currency := pl_iso4217 p\<rparr>)) (\<lambda>_.
         bindM (writeM (\<lambda>c. c\<lparr>token_decimals := pl_decimals p\<rparr>)) (\<lambda>_.
         bindM (writeM (\<lambda>c. c\<lparr>issuer := pl_issuer p\<rparr>)) (\<lambda>_.
         bindM (writeM (\<lambda>c. c\<lparr>supply_cap := pl_supply_cap p\<rparr>)) (\<lambda>_.
         bindM (writeM (\<lambda>c. c\<lparr>token_policy_id := pl_policy_id p\<rparr>)) (\<lambda>_.
         bindM (writeM (\<lambda>c. c\<lparr>token_admin := pl_issuer p\<rparr>)) (\<lambda>_.
         bindM (roles_write (role_key env ADMIN_ROLE (pl_issuer p)) True) (\<lambda>_.
         bindM (forEachM (\<lambda>role. roles_write (role_key env role (pl_issuer p)) True)
                  OPERATIONAL_ROLES) (\<lambda>_.
         writeM (\<lambda>c. c\<lparr>schema_version := ucast STABLECOIN_V1_SCHEMA_VERSION\<rparr>)))))))))))))))))"

section \<open>Roles and administration\<close>

definition grant_role :: "token_env \<Rightarrow> address \<Rightarrow> b256 \<Rightarrow> address \<Rightarrow> unit token_prog" where
  "grant_role env actor role account =
     bindM (require_role env ADMIN_ROLE actor) (\<lambda>_.
     bindM (require_operational_role role) (\<lambda>_.
     bindM (require_nonzero account) (\<lambda>_.
     bindM (getsM (\<lambda>c. roles c (role_key env role account))) (\<lambda>member.
     if member then retM ()
     else
       with_checkpoint (
         bindM (roles_write (role_key env role account) True) (\<lambda>_.
         emit_token (RoleGranted role account actor)))))))"

definition revoke_role :: "token_env \<Rightarrow> address \<Rightarrow> b256 \<Rightarrow> address \<Rightarrow> unit token_prog" where
  "revoke_role env actor role account =
     bindM (require_role env ADMIN_ROLE actor) (\<lambda>_.
     bindM (require_operational_role role) (\<lambda>_.
     bindM (require_nonzero account) (\<lambda>_.
     bindM (getsM (\<lambda>c. roles c (role_key env role account))) (\<lambda>member.
     if \<not> member then retM ()
     else
       with_checkpoint (
         bindM (roles_write (role_key env role account) False) (\<lambda>_.
         emit_token (RoleRevoked role account actor)))))))"

definition begin_admin_transfer :: "token_env \<Rightarrow> address \<Rightarrow> address \<Rightarrow> unit token_prog" where
  "begin_admin_transfer env actor candidate =
     bindM (require_role env ADMIN_ROLE actor) (\<lambda>_.
     if candidate = 0 \<or> candidate = actor then failM (token_error (InvalidPendingAdmin candidate))
     else
       with_checkpoint (
         bindM (writeM (\<lambda>c. c\<lparr>token_pending_admin := candidate\<rparr>)) (\<lambda>_.
         emit_token (AdminTransferStarted actor candidate))))"

definition cancel_admin_transfer :: "token_env \<Rightarrow> address \<Rightarrow> unit token_prog" where
  "cancel_admin_transfer env actor =
     bindM (require_role env ADMIN_ROLE actor) (\<lambda>_.
     bindM (getsM token_pending_admin) (\<lambda>pending.
     if pending = 0 then failM (token_error (InvalidPendingAdmin 0))
     else
       with_checkpoint (
         bindM (writeM (\<lambda>c. c\<lparr>token_pending_admin := 0\<rparr>)) (\<lambda>_.
         emit_token (AdminTransferCancelled actor pending)))))"

definition accept_admin_transfer :: "token_env \<Rightarrow> address \<Rightarrow> unit token_prog" where
  "accept_admin_transfer env actor =
     bindM validated_schema_version (\<lambda>_.
     bindM (getsM token_pending_admin) (\<lambda>pending.
     if actor = 0 \<or> actor \<noteq> pending then failM (token_error (NotPendingAdmin actor))
     else
       bindM (getsM token_admin) (\<lambda>previous.
       bindM (getsM (\<lambda>c. roles c (role_key env ADMIN_ROLE previous))) (\<lambda>old_role.
       bindM (getsM (\<lambda>c. roles c (role_key env ADMIN_ROLE actor))) (\<lambda>new_role.
       if previous = 0 \<or> \<not> old_role \<or> new_role
       then failM (Fatal (Text ''stablecoin admin transfer reached inconsistent role state''))
       else
         with_checkpoint (
           bindM (roles_write (role_key env ADMIN_ROLE previous) False) (\<lambda>_.
           bindM (roles_write (role_key env ADMIN_ROLE actor) True) (\<lambda>_.
           bindM (writeM (\<lambda>c. c\<lparr>token_admin := actor\<rparr>)) (\<lambda>_.
           bindM (writeM (\<lambda>c. c\<lparr>token_pending_admin := 0\<rparr>)) (\<lambda>_.
           emit_token (AdminTransferred previous actor)))))))))))"

definition pause :: "token_env \<Rightarrow> address \<Rightarrow> unit token_prog" where
  "pause env actor =
     bindM (require_role env GUARDIAN_ROLE actor) (\<lambda>_.
     bindM (getsM paused) (\<lambda>p.
     if p then failM (token_error TokenPaused)
     else
       with_checkpoint (
         bindM (writeM (\<lambda>c. c\<lparr>paused := True\<rparr>)) (\<lambda>_.
         emit_token (Paused actor)))))"

definition unpause :: "token_env \<Rightarrow> address \<Rightarrow> unit token_prog" where
  "unpause env actor =
     bindM (require_role env ADMIN_ROLE actor) (\<lambda>_.
     bindM (getsM paused) (\<lambda>p.
     if \<not> p then failM (token_error TokenNotPaused)
     else
       with_checkpoint (
         bindM (writeM (\<lambda>c. c\<lparr>paused := False\<rparr>)) (\<lambda>_.
         emit_token (Unpaused actor)))))"

definition set_supply_cap :: "token_env \<Rightarrow> address \<Rightarrow> u256 \<Rightarrow> unit token_prog" where
  "set_supply_cap env actor new_cap =
     bindM (require_role env CAP_MANAGER_ROLE actor) (\<lambda>_.
     bindM (getsM total_supply) (\<lambda>supply.
     if new_cap < supply then failM (token_error (SupplyCapBelowSupply new_cap supply))
     else
       bindM (getsM supply_cap) (\<lambda>previous.
       if previous = new_cap then retM ()
       else
         with_checkpoint (
           bindM (writeM (\<lambda>c. c\<lparr>supply_cap := new_cap\<rparr>)) (\<lambda>_.
           emit_token (SupplyCapChanged previous new_cap actor))))))"

definition set_policy_id :: "token_env \<Rightarrow> address \<Rightarrow> u256 \<Rightarrow> unit token_prog" where
  "set_policy_id env actor new_policy_id =
     bindM (require_role env COMPLIANCE_ROLE actor) (\<lambda>_.
     if \<not> policy_exists new_policy_id (env_registry env)
     then failM (token_error (UnknownPolicy new_policy_id))
     else
       bindM (getsM token_policy_id) (\<lambda>previous.
       if previous = new_policy_id then retM ()
       else
         with_checkpoint (
           bindM (writeM (\<lambda>c. c\<lparr>token_policy_id := new_policy_id\<rparr>)) (\<lambda>_.
           emit_token (PolicyChanged previous new_policy_id actor)))))"

definition set_frozen_tokens :: "token_env \<Rightarrow> address \<Rightarrow> address \<Rightarrow> u256 \<Rightarrow> unit token_prog" where
  "set_frozen_tokens env actor account amount =
     bindM (require_role env COMPLIANCE_ROLE actor) (\<lambda>_.
     bindM (require_nonzero account) (\<lambda>_.
     with_checkpoint (
       bindM (frozen_write account amount) (\<lambda>_.
       emit_token (Frozen account amount)))))"

section \<open>Allowances and permits\<close>

definition approve :: "token_env \<Rightarrow> address \<Rightarrow> address \<Rightarrow> u256 \<Rightarrow> unit token_prog" where
  "approve env owner spender value =
     bindM validated_schema_version (\<lambda>_.
     bindM (require_nonzero owner) (\<lambda>_.
     bindM (require_nonzero spender) (\<lambda>_.
     bindM (validate_allowance_update env owner spender value) (\<lambda>_.
     with_checkpoint (write_approval env owner spender value)))))"

text \<open>
  The library parses a 64-byte signature (\<open>from_slice\<close>), tells whether it is in high-s form
  (\<open>normalize_s\<close>) and recovers an uncompressed public key (\<open>recover_from_prehash\<close>).
\<close>

definition recover_permit_signer ::
    "token_env \<Rightarrow> b256 \<Rightarrow> u8 \<Rightarrow> b256 \<Rightarrow> b256 \<Rightarrow> address token_prog" where
  "recover_permit_signer env digest v r s =
     (if v \<noteq> 27 \<and> v \<noteq> 28 then failM (token_error InvalidPermitSignature)
      else
        let sig = word_bytes r @ word_bytes s in
        if \<not> sig_from_slice env sig \<or> sig_normalize_s env sig
        then failM (token_error InvalidPermitSignature)
        else
          bindM (unwrapM (sig_recover env digest sig (v - 27)) (token_error InvalidPermitSignature))
            (\<lambda>public_key.
          retM (address_of_bytes (drop 12 (word_bytes (env_keccak env (drop 1 public_key)))))))"

definition permit_digest ::
    "token_env \<Rightarrow> b256 \<Rightarrow> address \<Rightarrow> address \<Rightarrow> u256 \<Rightarrow> u256 \<Rightarrow> u256 \<Rightarrow> b256" where
  "permit_digest env separator owner spender value nonce deadline =
     env_keccak env ([0x19, 0x01] @ word_bytes separator @
       word_bytes (env_keccak env (concat (map word_bytes
         [PERMIT_TYPEHASH, ucast owner, ucast spender, value, nonce, deadline]))))"

definition permit ::
    "token_env \<Rightarrow> address \<Rightarrow> address \<Rightarrow> u256 \<Rightarrow> u256 \<Rightarrow> u8 \<Rightarrow> b256 \<Rightarrow> b256 \<Rightarrow> unit token_prog" where
  "permit env owner spender value deadline v r s =
     bindM validated_schema_version (\<lambda>_.
     bindM (require_nonzero owner) (\<lambda>_.
     bindM (require_nonzero spender) (\<lambda>_.
     if env_timestamp env > deadline then failM (token_error (PermitExpired deadline))
     else
       bindM (getsM (\<lambda>c. nonces c owner)) (\<lambda>nonce.
       bindM (domain_separator env) (\<lambda>separator.
       bindM (recover_permit_signer env
                (permit_digest env separator owner spender value nonce deadline) v r s) (\<lambda>signer.
       if signer \<noteq> owner then failM (token_error InvalidPermitSignature)
       else
         bindM (validate_allowance_update env owner spender value) (\<lambda>_.
         bindM (unwrapM (checked_add nonce 1)
                 (Fatal (Text ''stablecoin permit nonce overflow''))) (\<lambda>next_nonce.
         with_checkpoint (
           bindM (nonces_write owner next_nonce) (\<lambda>_.
           write_approval env owner spender value))))))))))"

section \<open>Movements\<close>

definition next_to_balance :: "string \<Rightarrow> address \<Rightarrow> address \<Rightarrow> u256 \<Rightarrow> u256 \<Rightarrow> u256 token_prog" where
  "next_to_balance msg from to from_balance value =
     (if from = to then retM from_balance
      else
        bindM (getsM (\<lambda>c. balances c to)) (\<lambda>b.
        unwrapM (checked_add b value) (Fatal (Text msg))))"

definition move_balances :: "address \<Rightarrow> address \<Rightarrow> u256 \<Rightarrow> u256 \<Rightarrow> u256 \<Rightarrow> unit token_prog" where
  "move_balances from to from_balance value next_to =
     (if from \<noteq> to
      then
        bindM (balances_write from (from_balance - value)) (\<lambda>_.
        balances_write to next_to)
      else retM ())"

definition transfer :: "token_env \<Rightarrow> address \<Rightarrow> address \<Rightarrow> u256 \<Rightarrow> unit token_prog" where
  "transfer env from to value =
     bindM validated_schema_version (\<lambda>_.
     bindM require_not_paused (\<lambda>_.
     bindM (require_nonzero from) (\<lambda>_.
     bindM (require_nonzero to) (\<lambda>_.
     bindM (require_can_send env from) (\<lambda>_.
     bindM (require_can_receive env to) (\<lambda>_.
     bindM (getsM (\<lambda>c. balances c from)) (\<lambda>from_balance.
     bindM (require_balance from from_balance value) (\<lambda>_.
     bindM (require_unfrozen from from_balance value) (\<lambda>_.
     bindM (next_to_balance ''stablecoin recipient balance overflow'' from to from_balance value)
       (\<lambda>next_to.
     with_checkpoint (
       bindM (move_balances from to from_balance value next_to) (\<lambda>_.
       emit_token (Transfer from to value)))))))))))))"

definition require_allowance :: "address \<Rightarrow> address \<Rightarrow> u256 \<Rightarrow> u256 \<Rightarrow> unit token_prog" where
  "require_allowance owner spender allowance amount =
     requireM (amount \<le> allowance)
       (token_error (InsufficientAllowance owner spender allowance amount))"

definition spend_allowance :: "b256 \<Rightarrow> u256 \<Rightarrow> u256 \<Rightarrow> unit token_prog" where
  "spend_allowance key allowance amount =
     (if allowance \<noteq> - 1 then allowances_write key (allowance - amount) else retM ())"

definition transfer_from :: "token_env \<Rightarrow> address \<Rightarrow> address \<Rightarrow> address \<Rightarrow> u256 \<Rightarrow> unit token_prog" where
  "transfer_from env spender from to value =
     bindM validated_schema_version (\<lambda>_.
     bindM require_not_paused (\<lambda>_.
     bindM (require_nonzero spender) (\<lambda>_.
     bindM (require_nonzero from) (\<lambda>_.
     bindM (require_nonzero to) (\<lambda>_.
     bindM (require_can_send env from) (\<lambda>_.
     bindM (require_can_receive env to) (\<lambda>_.
     bindM (getsM (\<lambda>c. allowances c (allowance_key env from spender))) (\<lambda>allowance.
     bindM (require_allowance from spender allowance value) (\<lambda>_.
     bindM (getsM (\<lambda>c. balances c from)) (\<lambda>from_balance.
     bindM (require_balance from from_balance value) (\<lambda>_.
     bindM (require_unfrozen from from_balance value) (\<lambda>_.
     bindM (next_to_balance ''stablecoin recipient balance overflow'' from to from_balance value)
       (\<lambda>next_to.
     with_checkpoint (
       bindM (spend_allowance (allowance_key env from spender) allowance value) (\<lambda>_.
       bindM (move_balances from to from_balance value next_to) (\<lambda>_.
       emit_token (Transfer from to value)))))))))))))))))"

definition mint_core :: "address \<Rightarrow> u256 \<Rightarrow> unit token_prog" where
  "mint_core to amount =
     bindM validated_schema_version (\<lambda>_.
     bindM (require_nonzero to) (\<lambda>_.
     bindM (require_nonzero_amount amount) (\<lambda>_.
     bindM (getsM total_supply) (\<lambda>supply.
     bindM (getsM supply_cap) (\<lambda>cap.
     if supply > cap
     then failM (Fatal (Text ''stablecoin total supply exceeds its stored cap''))
     else
       bindM (unwrapM (checked_add supply amount) (token_error (SupplyCapExceeded cap (- 1))))
         (\<lambda>requested_supply.
       if requested_supply > cap
       then failM (token_error (SupplyCapExceeded cap requested_supply))
       else
         bindM (getsM (\<lambda>c. balances c to)) (\<lambda>balance.
         bindM (unwrapM (checked_add balance amount) (Fatal (Text ''stablecoin balance overflow'')))
           (\<lambda>next_balance.
         with_checkpoint (
           bindM (total_supply_write requested_supply) (\<lambda>_.
           bindM (balances_write to next_balance) (\<lambda>_.
           emit_token (Transfer 0 to amount))))))))))))"

definition burn_core :: "address \<Rightarrow> u256 \<Rightarrow> unit token_prog" where
  "burn_core from amount =
     bindM validated_schema_version (\<lambda>_.
     bindM (require_nonzero from) (\<lambda>_.
     bindM (require_nonzero_amount amount) (\<lambda>_.
     bindM (getsM (\<lambda>c. balances c from)) (\<lambda>balance.
     bindM (require_balance from balance amount) (\<lambda>_.
     bindM (getsM total_supply) (\<lambda>supply.
     bindM (unwrapM (checked_sub supply amount)
             (Fatal (Text ''stablecoin supply/balance invariant is corrupted''))) (\<lambda>next_supply.
     with_checkpoint (
       bindM (balances_write from (balance - amount)) (\<lambda>_.
       bindM (total_supply_write next_supply) (\<lambda>_.
       emit_token (Transfer from 0 amount)))))))))))"

definition mint :: "token_env \<Rightarrow> address \<Rightarrow> address \<Rightarrow> u256 \<Rightarrow> unit token_prog" where
  "mint env actor to amount =
     bindM (require_role env ISSUER_ROLE actor) (\<lambda>_.
     bindM require_not_paused (\<lambda>_.
     bindM (require_nonzero to) (\<lambda>_.
     bindM (require_can_mint env to) (\<lambda>_.
     mint_core to amount))))"

definition burn :: "token_env \<Rightarrow> address \<Rightarrow> u256 \<Rightarrow> unit token_prog" where
  "burn env actor amount =
     bindM (require_role env ISSUER_ROLE actor) (\<lambda>_.
     bindM require_not_paused (\<lambda>_.
     bindM (require_nonzero_amount amount) (\<lambda>_.
     bindM (getsM (\<lambda>c. balances c actor)) (\<lambda>balance.
     bindM (require_balance actor balance amount) (\<lambda>_.
     bindM (getsM (\<lambda>c. frozen c actor)) (\<lambda>frz.
     with_checkpoint (
       bindM (consume_frozen actor balance frz amount) (\<lambda>_.
       burn_core actor amount))))))))"

definition burn_from :: "token_env \<Rightarrow> address \<Rightarrow> address \<Rightarrow> u256 \<Rightarrow> unit token_prog" where
  "burn_from env spender from amount =
     bindM validated_schema_version (\<lambda>_.
     bindM require_not_paused (\<lambda>_.
     bindM (require_nonzero spender) (\<lambda>_.
     bindM (require_nonzero from) (\<lambda>_.
     bindM (require_nonzero_amount amount) (\<lambda>_.
     bindM (require_can_send env from) (\<lambda>_.
     bindM (getsM (\<lambda>c. allowances c (allowance_key env from spender))) (\<lambda>allowance.
     bindM (require_allowance from spender allowance amount) (\<lambda>_.
     bindM (getsM (\<lambda>c. balances c from)) (\<lambda>balance.
     bindM (require_balance from balance amount) (\<lambda>_.
     bindM (require_unfrozen from balance amount) (\<lambda>_.
     with_checkpoint (
       bindM (burn_core from amount) (\<lambda>_.
       spend_allowance (allowance_key env from spender) allowance amount)))))))))))))"

definition forced_transfer ::
    "token_env \<Rightarrow> address \<Rightarrow> address \<Rightarrow> address \<Rightarrow> u256 \<Rightarrow> unit token_prog" where
  "forced_transfer env actor from to amount =
     bindM (require_role env ENFORCER_ROLE actor) (\<lambda>_.
     bindM require_not_paused (\<lambda>_.
     bindM (require_nonzero from) (\<lambda>_.
     bindM (require_nonzero to) (\<lambda>_.
     bindM (require_nonzero_amount amount) (\<lambda>_.
     if from = to then failM (token_error ForcedSelfTransfer)
     else
       bindM (require_can_receive env to) (\<lambda>_.
       bindM (getsM (\<lambda>c. balances c from)) (\<lambda>from_balance.
       bindM (require_balance from from_balance amount) (\<lambda>_.
       bindM (getsM (\<lambda>c. balances c to)) (\<lambda>to_balance.
       bindM (unwrapM (checked_add to_balance amount)
               (Fatal (Text ''stablecoin forced-transfer recipient overflow''))) (\<lambda>next_to.
       bindM (getsM (\<lambda>c. frozen c from)) (\<lambda>frz.
       with_checkpoint (
         bindM (consume_frozen from from_balance frz amount) (\<lambda>_.
         bindM (balances_write from (from_balance - amount)) (\<lambda>_.
         bindM (balances_write to next_to) (\<lambda>_.
         bindM (emit_token (Transfer from to amount)) (\<lambda>_.
         emit_token (ForcedTransfer from to amount)))))))))))))))))"

definition with_memo :: "address \<Rightarrow> address \<Rightarrow> u256 \<Rightarrow> b256 \<Rightarrow> unit token_prog \<Rightarrow> unit token_prog" where
  "with_memo from to amount memo operation =
     with_checkpoint (
       bindM operation (\<lambda>_.
       emit_token (TransferWithMemo from to amount memo)))"

definition transfer_with_memo ::
    "token_env \<Rightarrow> address \<Rightarrow> address \<Rightarrow> u256 \<Rightarrow> b256 \<Rightarrow> unit token_prog" where
  "transfer_with_memo env from to amount memo =
     with_memo from to amount memo (transfer env from to amount)"

definition transfer_from_with_memo ::
    "token_env \<Rightarrow> address \<Rightarrow> address \<Rightarrow> address \<Rightarrow> u256 \<Rightarrow> b256 \<Rightarrow> unit token_prog" where
  "transfer_from_with_memo env spender from to amount memo =
     with_memo from to amount memo (transfer_from env spender from to amount)"

definition mint_with_memo ::
    "token_env \<Rightarrow> address \<Rightarrow> address \<Rightarrow> u256 \<Rightarrow> b256 \<Rightarrow> unit token_prog" where
  "mint_with_memo env actor to amount memo =
     with_memo 0 to amount memo (mint env actor to amount)"

definition burn_with_memo :: "token_env \<Rightarrow> address \<Rightarrow> u256 \<Rightarrow> b256 \<Rightarrow> unit token_prog" where
  "burn_with_memo env actor amount memo =
     with_memo actor 0 amount memo (burn env actor amount)"

definition burn_from_with_memo ::
    "token_env \<Rightarrow> address \<Rightarrow> address \<Rightarrow> u256 \<Rightarrow> b256 \<Rightarrow> unit token_prog" where
  "burn_from_with_memo env spender from amount memo =
     with_memo from 0 amount memo (burn_from env spender from amount)"

definition forced_transfer_with_memo ::
    "token_env \<Rightarrow> address \<Rightarrow> address \<Rightarrow> address \<Rightarrow> u256 \<Rightarrow> b256 \<Rightarrow> unit token_prog" where
  "forced_transfer_with_memo env actor from to amount memo =
     with_memo from to amount memo (forced_transfer env actor from to amount)"

section \<open>Dispatch\<close>

datatype TokenCall =
    nameCall | symbolCall | decimalsCall | totalSupplyCall
  | balanceOfCall address
  | allowanceCall address address
  | approveCall address u256
  | transferCall address u256
  | transferFromCall address address u256
  | noncesCall address
  | domainSeparatorCall
  | permitCall address address u256 u256 u8 b256 b256
  | currencyCall | supplyCapCall | policyIdCall | issuerCall | pausedCall
  | hasRoleCall b256 address
  | pendingAdminCall | creationProtocolVersionCall
  | supportsInterfaceCall u32
  | canSendCall address
  | canReceiveCall address
  | canTransferCall address address u256
  | getFrozenTokensCall address
  | forcedTransferCall address address u256
  | setFrozenTokensCall address u256
  | mintCall address u256
  | burnCall u256
  | burnFromCall address u256
  | transferWithMemoCall address u256 b256
  | transferFromWithMemoCall address address u256 b256
  | mintWithMemoCall address u256 b256
  | burnWithMemoCall u256 b256
  | burnFromWithMemoCall address u256 b256
  | forcedTransferWithMemoCall address address u256 b256
  | grantRoleCall b256 address
  | revokeRoleCall b256 address
  | setSupplyCapCall u256
  | setPolicyIdCall u256
  | pauseCall | unpauseCall
  | beginAdminTransferCall address
  | cancelAdminTransferCall | acceptAdminTransferCall

datatype TokenReturn =
    TVoid | TBool bool | TU256 u256 | TU64 u64 | TU16 u16 | TU8 u8 | TB256 b256 | TAddress address
  | TBytes bytes

definition ERC165_INTERFACE_ID :: u32 where
  "ERC165_INTERFACE_ID = 0x01ffc9a7"

definition ERC7943_FUNGIBLE_INTERFACE_ID :: u32 where
  "ERC7943_FUNGIBLE_INTERFACE_ID = 0x3edbb4c4"

abbreviation then_true :: "unit token_prog \<Rightarrow> TokenReturn token_prog" where
  "then_true m \<equiv> thenM (\<lambda>_. TBool True) m"

abbreviation then_void :: "unit token_prog \<Rightarrow> TokenReturn token_prog" where
  "then_void m \<equiv> thenM (\<lambda>_. TVoid) m"

primrec token_call :: "token_env \<Rightarrow> address \<Rightarrow> TokenCall \<Rightarrow> TokenReturn token_prog" where
  "token_call env caller nameCall = thenM TBytes name_value"
| "token_call env caller symbolCall = thenM TBytes symbol_value"
| "token_call env caller decimalsCall = thenM TU8 (checked_read token_decimals)"
| "token_call env caller totalSupplyCall = thenM TU256 (checked_read total_supply)"
| "token_call env caller (balanceOfCall a) = thenM TU256 (balance_of a)"
| "token_call env caller (allowanceCall owner spender) = thenM TU256 (allowance_of env owner spender)"
| "token_call env caller (approveCall spender v) = then_true (approve env caller spender v)"
| "token_call env caller (transferCall to v) = then_true (transfer env caller to v)"
| "token_call env caller (transferFromCall from to v) = then_true (transfer_from env caller from to v)"
| "token_call env caller (noncesCall a) = thenM TU256 (checked_read (\<lambda>c. nonces c a))"
| "token_call env caller domainSeparatorCall = thenM TB256 (domain_separator env)"
| "token_call env caller (permitCall owner spender v deadline rv r s) =
     then_void (permit env owner spender v deadline rv r s)"
| "token_call env caller currencyCall = thenM TU16 (checked_read currency)"
| "token_call env caller supplyCapCall = thenM TU256 (checked_read supply_cap)"
| "token_call env caller policyIdCall = thenM TU256 (checked_read token_policy_id)"
| "token_call env caller issuerCall = thenM TAddress (checked_read issuer)"
| "token_call env caller pausedCall = thenM TBool (checked_read paused)"
| "token_call env caller (hasRoleCall role a) = thenM TBool (has_role env role a)"
| "token_call env caller pendingAdminCall = thenM TAddress (checked_read token_pending_admin)"
| "token_call env caller creationProtocolVersionCall =
     thenM TU64 (checked_read creation_protocol_version)"
| "token_call env caller (supportsInterfaceCall iface) =
     retM (TBool (iface = ERC165_INTERFACE_ID \<or> iface = ERC7943_FUNGIBLE_INTERFACE_ID))"
| "token_call env caller (canSendCall a) = thenM TBool (can_send env a)"
| "token_call env caller (canReceiveCall a) = thenM TBool (can_receive env a)"
| "token_call env caller (canTransferCall from to v) = thenM TBool (can_transfer env from to v)"
| "token_call env caller (getFrozenTokensCall a) = thenM TU256 (frozen_tokens a)"
| "token_call env caller (forcedTransferCall from to v) =
     then_true (forced_transfer env caller from to v)"
| "token_call env caller (setFrozenTokensCall a v) = then_true (set_frozen_tokens env caller a v)"
| "token_call env caller (mintCall to v) = then_true (mint env caller to v)"
| "token_call env caller (burnCall v) = then_true (burn env caller v)"
| "token_call env caller (burnFromCall from v) = then_true (burn_from env caller from v)"
| "token_call env caller (transferWithMemoCall to v memo) =
     then_true (transfer_with_memo env caller to v memo)"
| "token_call env caller (transferFromWithMemoCall from to v memo) =
     then_true (transfer_from_with_memo env caller from to v memo)"
| "token_call env caller (mintWithMemoCall to v memo) = then_true (mint_with_memo env caller to v memo)"
| "token_call env caller (burnWithMemoCall v memo) = then_true (burn_with_memo env caller v memo)"
| "token_call env caller (burnFromWithMemoCall from v memo) =
     then_true (burn_from_with_memo env caller from v memo)"
| "token_call env caller (forcedTransferWithMemoCall from to v memo) =
     then_true (forced_transfer_with_memo env caller from to v memo)"
| "token_call env caller (grantRoleCall role a) = then_void (grant_role env caller role a)"
| "token_call env caller (revokeRoleCall role a) = then_void (revoke_role env caller role a)"
| "token_call env caller (setSupplyCapCall cap) = then_void (set_supply_cap env caller cap)"
| "token_call env caller (setPolicyIdCall pid) = then_void (set_policy_id env caller pid)"
| "token_call env caller pauseCall = then_void (pause env caller)"
| "token_call env caller unpauseCall = then_void (unpause env caller)"
| "token_call env caller (beginAdminTransferCall a) = then_void (begin_admin_transfer env caller a)"
| "token_call env caller cancelAdminTransferCall = then_void (cancel_admin_transfer env caller)"
| "token_call env caller acceptAdminTransferCall = then_void (accept_admin_transfer env caller)"

definition token_dispatch ::
    "token_env \<Rightarrow> address \<Rightarrow> u256 \<Rightarrow> TokenCall \<Rightarrow> TokenReturn token_prog" where
  "token_dispatch env caller value call =
     (if value \<noteq> 0 then failM (token_error (UnexpectedValue value))
      else token_call env caller call)"

definition token_pristine :: StablecoinContract where
  "token_pristine =
     \<lparr>schema_version = 0, creation_protocol_version = 0, token_id = 0, token_name = [],
      token_symbol = [], currency = 0, token_decimals = 0, issuer = 0, supply_cap = 0,
      total_supply = 0, token_policy_id = 0, paused = False, token_admin = 0,
      token_pending_admin = 0, balances = (\<lambda>_. 0), allowances = (\<lambda>_. 0), nonces = (\<lambda>_. 0),
      roles = (\<lambda>_. False), frozen = (\<lambda>_. 0), token_logs = []\<rparr>"

definition live :: "StablecoinContract \<Rightarrow> bool" where
  "live c \<longleftrightarrow> schema_version c = 1"

text \<open>What a successful operation does to the balances, the allowances and the frozen amounts.\<close>

definition moved :: "address \<Rightarrow> address \<Rightarrow> u256 \<Rightarrow> (address \<Rightarrow> u256) \<Rightarrow> address \<Rightarrow> u256" where
  "moved from to v bal = (if from = to then bal else bal(from := bal from - v, to := bal to + v))"

definition spent :: "b256 \<Rightarrow> u256 \<Rightarrow> (b256 \<Rightarrow> u256) \<Rightarrow> b256 \<Rightarrow> u256" where
  "spent k v al = (if al k = - 1 then al else al(k := al k - v))"

definition thawed :: "address \<Rightarrow> u256 \<Rightarrow> u256 \<Rightarrow> (address \<Rightarrow> u256) \<Rightarrow> address \<Rightarrow> u256" where
  "thawed a bal v frz =
     (if v \<le> unfrozen bal (frz a) then frz
      else frz(a := if frz a \<le> bal then bal - v else frz a - v))"

section \<open>Which runs succeed\<close>

lemmas token_writes = emit_token_def balances_write_def allowances_write_def roles_write_def
  frozen_write_def nonces_write_def total_supply_write_def

lemma validated_schema_version_ok [prog_ok]:
  "validated_schema_version s = (Inr v, t) \<longleftrightarrow> live (store s) \<and> v = 1 \<and> t = s"
  by (auto simp: validated_schema_version_def STABLECOIN_V1_SCHEMA_VERSION_def live_def prog_ok)

lemma checked_read_ok [prog_ok]:
  "checked_read f s = (Inr v, t) \<longleftrightarrow> live (store s) \<and> v = f (store s) \<and> t = s"
  by (auto simp: checked_read_def prog_ok)

lemma roles_distinct:
  "ADMIN_ROLE \<notin> set OPERATIONAL_ROLES" "distinct OPERATIONAL_ROLES"
  by (code_simp, code_simp)

lemma has_role_ok [prog_ok]:
  "has_role env role a s = (Inr b, t) \<longleftrightarrow>
     live (store s) \<and> t = s \<and>
     (if role = ADMIN_ROLE
      then b = roles (store s) (role_key env role a) \<and> b = (a = token_admin (store s))
      else b = (role \<in> set OPERATIONAL_ROLES \<and> roles (store s) (role_key env role a)))"
  by (auto simp: has_role_def prog_ok split: if_splits)

lemma require_role_ok [prog_ok]:
  "require_role env role a s = (Inr u, t) \<longleftrightarrow>
     live (store s) \<and> t = s \<and> roles (store s) (role_key env role a) \<and>
     (if role = ADMIN_ROLE then a = token_admin (store s) else role \<in> set OPERATIONAL_ROLES)"
  by (auto simp: require_role_def prog_ok)

lemma require_operational_role_ok [prog_ok]:
  "require_operational_role role s = (Inr u, t) \<longleftrightarrow> role \<in> set OPERATIONAL_ROLES \<and> t = s"
  by (simp add: require_operational_role_def prog_ok)

lemma require_nonzero_ok [prog_ok]: "require_nonzero a s = (Inr u, t) \<longleftrightarrow> a \<noteq> 0 \<and> t = s"
  by (simp add: require_nonzero_def prog_ok)

lemma require_nonzero_amount_ok [prog_ok]:
  "require_nonzero_amount v s = (Inr u, t) \<longleftrightarrow> v \<noteq> 0 \<and> t = s"
  by (simp add: require_nonzero_amount_def prog_ok)

lemma require_not_paused_ok [prog_ok]:
  "require_not_paused s = (Inr u, t) \<longleftrightarrow> \<not> paused (store s) \<and> t = s"
  by (simp add: require_not_paused_def prog_ok)

lemma require_can_send_ok [prog_ok]:
  "require_can_send env a s = (Inr u, t) \<longleftrightarrow>
     policy_can_send env (token_policy_id (store s)) a \<and> t = s"
  by (simp add: require_can_send_def prog_ok)

lemma require_can_receive_ok [prog_ok]:
  "require_can_receive env a s = (Inr u, t) \<longleftrightarrow>
     policy_can_receive env (token_policy_id (store s)) a \<and> t = s"
  by (simp add: require_can_receive_def prog_ok)

lemma require_can_mint_ok [prog_ok]:
  "require_can_mint env a s = (Inr u, t) \<longleftrightarrow>
     policy_can_mint env (token_policy_id (store s)) a \<and> t = s"
  by (simp add: require_can_mint_def prog_ok)

lemma require_balance_ok [prog_ok]:
  "require_balance a b v s = (Inr u, t) \<longleftrightarrow> v \<le> b \<and> t = s"
  by (simp add: require_balance_def prog_ok)

lemma require_allowance_ok [prog_ok]:
  "require_allowance a b al v s = (Inr u, t) \<longleftrightarrow> v \<le> al \<and> t = s"
  by (simp add: require_allowance_def prog_ok)

lemma require_unfrozen_ok [prog_ok]:
  "require_unfrozen a b v s = (Inr u, t) \<longleftrightarrow> v \<le> unfrozen b (frozen (store s) a) \<and> t = s"
  by (auto simp: require_unfrozen_def prog_ok)

lemma validate_allowance_update_ok [prog_ok]:
  "validate_allowance_update env owner spender v s = (Inr u, t) \<longleftrightarrow>
     (frozen (store s) owner = 0 \<or> v \<le> allowances (store s) (allowance_key env owner spender)) \<and> t = s"
  by (auto simp: validate_allowance_update_def prog_ok)

lemma next_to_balance_ok [prog_ok]:
  "next_to_balance msg from to b v s = (Inr n, t) \<longleftrightarrow>
     t = s \<and> (if from = to then n = b
              else unat (balances (store s) to) + unat v < 2 ^ 256 \<and> n = balances (store s) to + v)"
  by (auto simp: next_to_balance_def prog_ok)

lemma unfrozen_unat: "unat (unfrozen b f) = unat b - unat f"
  by (simp add: unfrozen_def saturating_sub_unat)

lemma consumed_frozen:
  fixes bal frz v :: u256
  assumes "v \<le> bal" "unfrozen bal frz < v"
  shows "v - unfrozen bal frz \<le> frz"
    and "frz - (v - unfrozen bal frz) = (if frz \<le> bal then bal - v else frz - v)"
proof -
  have u: "unat (unfrozen bal frz) = unat bal - unat frz" by (rule unfrozen_unat)
  have le: "unfrozen bal frz \<le> v" using assms(2) by simp
  have d: "unat (v - unfrozen bal frz) = unat v - (unat bal - unat frz)"
    using unat_sub_exact[OF le] u by simp
  show c: "v - unfrozen bal frz \<le> frz"
    unfolding word_le_nat_alt d using assms by (auto simp: word_le_nat_alt word_less_nat_alt u)
  show "frz - (v - unfrozen bal frz) = (if frz \<le> bal then bal - v else frz - v)"
  proof (cases "frz \<le> bal")
    case True
    then have "unfrozen bal frz = bal - frz" by (simp add: unfrozen_def saturating_sub_def)
    then show ?thesis using True by simp
  next
    case False
    then have "unfrozen bal frz = 0" by (simp add: unfrozen_def saturating_sub_def)
    then show ?thesis using False by simp
  qed
qed

lemma move_balances_ok:
  assumes "move_balances from to (balances (store s) from) v n s = (Inr u, t)"
    and "from \<noteq> to \<Longrightarrow> n = balances (store s) to + v"
  shows "store t = (store s)\<lparr>balances := moved from to v (balances (store s))\<rparr>"
proof (cases "from = to")
  case True
  then show ?thesis using assms(1) by (simp add: move_balances_def moved_def prog_ok)
next
  case False
  then have "n = balances (store s) to + v" by (rule assms(2))
  with False show ?thesis
    using assms(1) by (simp add: move_balances_def moved_def token_writes prog_ok)
qed

lemma spend_allowance_ok:
  "spend_allowance k (allowances (store s) k) v s = (Inr u, t) \<Longrightarrow>
   store t = (store s)\<lparr>allowances := spent k v (allowances (store s))\<rparr>"
  by (auto simp: spend_allowance_def spent_def token_writes prog_ok split: if_splits)

lemma consume_frozen_ok:
  assumes "consume_frozen a bal (frozen (store s) a) v s = (Inr u, t)" "v \<le> bal"
  shows "\<exists>logs. store t = (store s)\<lparr>frozen := thawed a bal v (frozen (store s)), token_logs := logs\<rparr>"
proof (cases "v \<le> unfrozen bal (frozen (store s) a)")
  case True
  then have "\<not> unfrozen bal (frozen (store s) a) < v" by simp
  then have "store t = store s"
    using assms(1) by (simp only: consume_frozen_def Let_def if_False if_True refl retM_ok)
  then have "store t = (store s)\<lparr>frozen := thawed a bal v (frozen (store s)),
      token_logs := token_logs (store s)\<rparr>"
    using True by (simp add: thawed_def)
  then show ?thesis by blast
next
  case False
  let ?f = "frozen (store s) a"
  have gt: "unfrozen bal ?f < v" using False by simp
  then have nz: "v - unfrozen bal ?f \<noteq> 0" by auto
  have "thawed a bal v (frozen (store s)) =
      (frozen (store s))(a := ?f - (v - unfrozen bal ?f))"
    unfolding consumed_frozen(2)[OF assms(2) gt] using False by (simp add: thawed_def)
  then have "store t = (store s)\<lparr>frozen := thawed a bal v (frozen (store s)),
      token_logs := token_logs (store s) @ [Frozen a (?f - (v - unfrozen bal ?f))]\<rparr>"
    using assms(1) gt nz by (simp add: consume_frozen_def Let_def token_writes prog_ok)
  then show ?thesis by blast
qed

lemma transfer_ok:
  assumes "transfer env from to v s = (Inr u, t)"
  defines "c \<equiv> store s"
  shows "live c" "\<not> paused c" "from \<noteq> 0" "to \<noteq> 0"
    "policy_can_send env (token_policy_id c) from" "policy_can_receive env (token_policy_id c) to"
    "v \<le> balances c from" "v \<le> unfrozen (balances c from) (frozen c from)"
    "store t = c\<lparr>balances := moved from to v (balances c),
       token_logs := token_logs c @ [Transfer from to v]\<rparr>"
proof -
  obtain n m where n: "live c \<and> \<not> paused c \<and> from \<noteq> 0 \<and> to \<noteq> 0 \<and>
      policy_can_send env (token_policy_id c) from \<and> policy_can_receive env (token_policy_id c) to \<and>
      v \<le> balances c from \<and> v \<le> unfrozen (balances c from) (frozen c from)"
    "from = to \<or> n = balances c to + v"
    "move_balances from to (balances c from) v n s = (Inr (), m)"
    "emit_token (Transfer from to v) m = (Inr (), t)"
    using assms(1) by (auto simp: transfer_def prog_ok c_def split: if_splits)
  then show "live c" "\<not> paused c" "from \<noteq> 0" "to \<noteq> 0"
    "policy_can_send env (token_policy_id c) from" "policy_can_receive env (token_policy_id c) to"
    "v \<le> balances c from" "v \<le> unfrozen (balances c from) (frozen c from)"
    by simp_all
  have "store m = c\<lparr>balances := moved from to v (balances c)\<rparr>"
    using move_balances_ok[of "from" to s v n "()" m] n(2,3) by (auto simp: c_def)
  then show "store t = c\<lparr>balances := moved from to v (balances c),
       token_logs := token_logs c @ [Transfer from to v]\<rparr>"
    using n(4) by (simp add: token_writes prog_ok)
qed

lemma transfer_from_ok:
  assumes "transfer_from env spender from to v s = (Inr u, t)"
  defines "c \<equiv> store s" and "k \<equiv> allowance_key env from spender"
  shows "live c" "\<not> paused c" "spender \<noteq> 0" "from \<noteq> 0" "to \<noteq> 0"
    "policy_can_send env (token_policy_id c) from" "policy_can_receive env (token_policy_id c) to"
    "v \<le> allowances c k" "v \<le> balances c from" "v \<le> unfrozen (balances c from) (frozen c from)"
    "store t = c\<lparr>allowances := spent k v (allowances c), balances := moved from to v (balances c),
       token_logs := token_logs c @ [Transfer from to v]\<rparr>"
proof -
  obtain n m m' where n: "live c \<and> \<not> paused c \<and> spender \<noteq> 0 \<and> from \<noteq> 0 \<and> to \<noteq> 0 \<and>
      policy_can_send env (token_policy_id c) from \<and> policy_can_receive env (token_policy_id c) to \<and>
      v \<le> allowances c k \<and> v \<le> balances c from \<and> v \<le> unfrozen (balances c from) (frozen c from)"
    "from = to \<or> n = balances c to + v"
    "spend_allowance k (allowances c k) v s = (Inr (), m')"
    "move_balances from to (balances c from) v n m' = (Inr (), m)"
    "emit_token (Transfer from to v) m = (Inr (), t)"
    using assms(1) by (auto simp: transfer_from_def prog_ok c_def k_def split: if_splits)
  then show "live c" "\<not> paused c" "spender \<noteq> 0" "from \<noteq> 0" "to \<noteq> 0"
    "policy_can_send env (token_policy_id c) from" "policy_can_receive env (token_policy_id c) to"
    "v \<le> allowances c k" "v \<le> balances c from" "v \<le> unfrozen (balances c from) (frozen c from)"
    by simp_all
  have m': "store m' = c\<lparr>allowances := spent k v (allowances c)\<rparr>"
    using spend_allowance_ok n(3) by (simp add: c_def)
  then have "store m = (store m')\<lparr>balances := moved from to v (balances c)\<rparr>"
    using move_balances_ok[of "from" to m' v n "()" m] n(2,4) by auto
  then show "store t = c\<lparr>allowances := spent k v (allowances c), balances := moved from to v (balances c),
       token_logs := token_logs c @ [Transfer from to v]\<rparr>"
    using n(5) m' by (simp add: token_writes prog_ok)
qed

lemma mint_core_ok:
  assumes "mint_core to v s = (Inr u, t)"
  defines "c \<equiv> store s"
  shows "live c" "to \<noteq> 0" "v \<noteq> 0" "unat (total_supply c) + unat v < 2 ^ 256"
    "total_supply c + v \<le> supply_cap c"
    "store t = c\<lparr>total_supply := total_supply c + v,
       balances := (balances c)(to := balances c to + v),
       token_logs := token_logs c @ [Transfer 0 to v]\<rparr>"
  using assms(1) unfolding c_def
  by (simp_all add: mint_core_def token_writes prog_ok split: if_splits)

lemma mint_ok:
  assumes "mint env actor to v s = (Inr u, t)"
  shows "roles (store s) (role_key env ISSUER_ROLE actor)" "\<not> paused (store s)"
    "policy_can_mint env (token_policy_id (store s)) to" "mint_core to v s = (Inr (), t)"
  using assms by (auto simp: mint_def prog_ok split: if_splits)

lemma burn_core_ok:
  assumes "burn_core from v s = (Inr u, t)"
  defines "c \<equiv> store s"
  shows "live c" "from \<noteq> 0" "v \<noteq> 0" "v \<le> balances c from" "v \<le> total_supply c"
    "store t = c\<lparr>balances := (balances c)(from := balances c from - v),
       total_supply := total_supply c - v,
       token_logs := token_logs c @ [Transfer from 0 v]\<rparr>"
  using assms(1) unfolding c_def
  by (simp_all add: burn_core_def token_writes prog_ok)

lemma burn_ok:
  assumes "burn env actor v s = (Inr u, t)"
  defines "c \<equiv> store s"
  shows "roles c (role_key env ISSUER_ROLE actor)" "\<not> paused c" "v \<le> balances c actor"
    "\<exists>logs. store t = c\<lparr>frozen := thawed actor (balances c actor) v (frozen c),
       balances := (balances c)(actor := balances c actor - v),
       total_supply := total_supply c - v, token_logs := logs\<rparr>"
proof -
  obtain m where n: "roles c (role_key env ISSUER_ROLE actor) \<and> \<not> paused c \<and> v \<le> balances c actor"
    "consume_frozen actor (balances c actor) (frozen c actor) v s = (Inr (), m)"
    "burn_core actor v m = (Inr (), t)"
    using assms(1) by (auto simp: burn_def prog_ok c_def split: if_splits)
  then show "roles c (role_key env ISSUER_ROLE actor)" "\<not> paused c" "v \<le> balances c actor"
    by simp_all
  obtain logs where m: "store m = c\<lparr>frozen := thawed actor (balances c actor) v (frozen c),
      token_logs := logs\<rparr>"
    using consume_frozen_ok n(1,2) unfolding c_def by blast
  show "\<exists>logs. store t = c\<lparr>frozen := thawed actor (balances c actor) v (frozen c),
       balances := (balances c)(actor := balances c actor - v),
       total_supply := total_supply c - v, token_logs := logs\<rparr>"
    using burn_core_ok(6)[OF n(3)] m by (intro exI[of _ "logs @ [Transfer actor 0 v]"]) simp
qed

lemma burn_from_ok:
  assumes "burn_from env spender from v s = (Inr u, t)"
  defines "c \<equiv> store s" and "k \<equiv> allowance_key env from spender"
  shows "\<not> paused c" "spender \<noteq> 0" "policy_can_send env (token_policy_id c) from"
    "v \<le> allowances c k" "v \<le> balances c from" "v \<le> unfrozen (balances c from) (frozen c from)"
    "store t = c\<lparr>balances := (balances c)(from := balances c from - v),
       total_supply := total_supply c - v, token_logs := token_logs c @ [Transfer from 0 v],
       allowances := spent k v (allowances c)\<rparr>"
proof -
  obtain m where n: "\<not> paused c \<and> spender \<noteq> 0 \<and> policy_can_send env (token_policy_id c) from \<and>
      v \<le> allowances c k \<and> v \<le> balances c from \<and> v \<le> unfrozen (balances c from) (frozen c from)"
    "burn_core from v s = (Inr (), m)" "spend_allowance k (allowances c k) v m = (Inr (), t)"
    using assms(1) by (auto simp: burn_from_def prog_ok c_def k_def)
  then show "\<not> paused c" "spender \<noteq> 0" "policy_can_send env (token_policy_id c) from"
    "v \<le> allowances c k" "v \<le> balances c from" "v \<le> unfrozen (balances c from) (frozen c from)"
    by simp_all
  note m = burn_core_ok(6)[OF n(2), folded c_def]
  have "store t = (store m)\<lparr>allowances := spent k v (allowances (store m))\<rparr>"
    using spend_allowance_ok[of k m v "()" t] n(3) m by simp
  then show "store t = c\<lparr>balances := (balances c)(from := balances c from - v),
       total_supply := total_supply c - v, token_logs := token_logs c @ [Transfer from 0 v],
       allowances := spent k v (allowances c)\<rparr>"
    by (simp add: m)
qed

lemma forced_transfer_ok:
  assumes "forced_transfer env actor from to v s = (Inr u, t)"
  defines "c \<equiv> store s"
  shows "roles c (role_key env ENFORCER_ROLE actor)" "\<not> paused c" "from \<noteq> to" "from \<noteq> 0" "to \<noteq> 0"
    "policy_can_receive env (token_policy_id c) to" "v \<le> balances c from"
    "\<exists>logs. store t = c\<lparr>frozen := thawed from (balances c from) v (frozen c),
       balances := moved from to v (balances c), token_logs := logs\<rparr>"
proof -
  obtain m m1 m2 m3 where n: "roles c (role_key env ENFORCER_ROLE actor) \<and> \<not> paused c \<and> from \<noteq> to \<and>
      from \<noteq> 0 \<and> to \<noteq> 0 \<and> policy_can_receive env (token_policy_id c) to \<and> v \<le> balances c from"
    "consume_frozen from (balances c from) (frozen c from) v s = (Inr (), m)"
    "balances_write from (balances c from - v) m = (Inr (), m1)"
    "balances_write to (balances c to + v) m1 = (Inr (), m2)"
    "emit_token (Transfer from to v) m2 = (Inr (), m3)"
    "emit_token (ForcedTransfer from to v) m3 = (Inr (), t)"
    using assms(1) by (auto simp: forced_transfer_def prog_ok c_def split: if_splits)
  then show "roles c (role_key env ENFORCER_ROLE actor)" "\<not> paused c" "from \<noteq> to" "from \<noteq> 0" "to \<noteq> 0"
    "policy_can_receive env (token_policy_id c) to" "v \<le> balances c from"
    by simp_all
  obtain logs where m: "store m = c\<lparr>frozen := thawed from (balances c from) v (frozen c),
      token_logs := logs\<rparr>"
    using consume_frozen_ok n(1,2) unfolding c_def by blast
  show "\<exists>logs. store t = c\<lparr>frozen := thawed from (balances c from) v (frozen c),
       balances := moved from to v (balances c), token_logs := logs\<rparr>"
    using n(1,3-6) m
    by (intro exI[of _ "logs @ [Transfer from to v, ForcedTransfer from to v]"])
      (simp add: token_writes prog_ok moved_def)
qed

lemma with_memo_ok:
  "with_memo from to v memo m s = (Inr u, t) \<longleftrightarrow>
   (\<exists>x. m s = (Inr (), x) \<and> emit_token (TransferWithMemo from to v memo) x = (Inr (), t))"
  by (simp add: with_memo_def prog_ok)

end
