(* ===== verification/Stablecoin_Ledger.thy ===== *)
theory Stablecoin_Ledger
  imports Stablecoin_Token
begin

text \<open>
  Correctness of the stablecoin token: calls are atomic, the books always balance under the supply
  cap, there is one administrator, and a live token reports no fatal error.
\<close>

definition ledger_inv :: "StablecoinContract \<Rightarrow> bool" where
  "ledger_inv c \<longleftrightarrow>
     conserved (balances c) (total_supply c) \<and> total_supply c \<le> supply_cap c \<and> balances c 0 = 0"

definition permit_signer :: "token_env \<Rightarrow> b256 \<Rightarrow> u8 \<Rightarrow> b256 \<Rightarrow> b256 \<Rightarrow> address option" where
  "permit_signer env digest v r s =
     (let sig = word_bytes r @ word_bytes s in
      if v \<in> {27, 28} \<and> sig_from_slice env sig \<and> \<not> sig_normalize_s env sig
      then map_option (\<lambda>pk. address_of_bytes (drop 12 (word_bytes (env_keccak env (drop 1 pk)))))
             (sig_recover env digest sig (v - 27))
      else None)"

definition separator_of :: "token_env \<Rightarrow> StablecoinContract \<Rightarrow> b256" where
  "separator_of env c =
     env_keccak env (concat (map word_bytes
       [EIP712_DOMAIN_TYPEHASH, env_keccak env (token_name c), EIP712_VERSION_HASH,
        ucast (env_chain_id env), ucast (env_self env)]))"

text \<open>The hash keeps the slots of the roles apart, as its collision resistance promises.\<close>

definition role_slots_apart :: "(bytes \<Rightarrow> b256) \<Rightarrow> bool" where
  "role_slots_apart h \<longleftrightarrow>
     inj_on (\<lambda>(role, a). h (word_bytes role @ address_bytes a)) (set (ADMIN_ROLE # OPERATIONAL_ROLES) \<times> UNIV)"

definition admin_inv :: "(bytes \<Rightarrow> b256) \<Rightarrow> StablecoinContract \<Rightarrow> bool" where
  "admin_inv h c \<longleftrightarrow>
     token_admin c \<noteq> 0 \<and> token_pending_admin c \<noteq> token_admin c \<and>
     (\<forall>a. roles c (h (word_bytes ADMIN_ROLE @ address_bytes a)) \<longleftrightarrow> a = token_admin c)"

definition token_inv :: "(bytes \<Rightarrow> b256) \<Rightarrow> StablecoinContract \<Rightarrow> bool" where
  "token_inv h c \<longleftrightarrow>
     live c \<and> utf8_valid (token_name c) \<and> utf8_valid (token_symbol c) \<and> ledger_inv c \<and> admin_inv h c"

text \<open>A call as the chain delivers it: the block's environment, the caller, the value, the data.\<close>

fun token_message :: "token_env \<times> address \<times> u256 \<times> TokenCall \<Rightarrow> TokenReturn token_prog" where
  "token_message (env, caller, v, call) = token_dispatch env caller v call"

fun message_hashes :: "(bytes \<Rightarrow> b256) \<Rightarrow> token_env \<times> address \<times> u256 \<times> TokenCall \<Rightarrow> bool" where
  "message_hashes h (env, _) \<longleftrightarrow> env_keccak env = h"

definition token_sound :: "(bytes \<Rightarrow> b256) \<Rightarrow> StablecoinContract \<Rightarrow> bool" where
  "token_sound h c \<longleftrightarrow> (role_slots_apart h \<longrightarrow> token_inv h c)"

definition recoverable :: "StablecoinStateError precompile_error \<Rightarrow> bool" where
  "recoverable e \<longleftrightarrow> (\<forall>d. e = Fatal d \<longrightarrow> d = Text ''stablecoin permit nonce overflow'')"

section \<open>A failed call changes nothing\<close>

lemma pure_validated_schema_version [pure_intros]: "pure_prog validated_schema_version"
  unfolding validated_schema_version_def by (intro pure_intros)

lemma pure_read_utf8 [pure_intros]: "pure_prog (read_utf8 msg f)"
  unfolding read_utf8_def by (intro pure_intros)

lemma pure_checked_read [pure_intros]: "pure_prog (checked_read f)"
  unfolding checked_read_def by (intro pure_intros)

lemma pure_domain_separator [pure_intros]: "pure_prog (domain_separator env)"
  unfolding domain_separator_def by (intro pure_intros)

lemma pure_has_role [pure_intros]: "pure_prog (has_role env role a)"
  unfolding has_role_def by (intro pure_intros)

lemma pure_require_role [pure_intros]: "pure_prog (require_role env role a)"
  unfolding require_role_def by (intro pure_intros)

lemma pure_guards [pure_intros]:
  "pure_prog (require_operational_role role)" "pure_prog (require_nonzero a)"
  "pure_prog (require_nonzero_amount v)" "pure_prog require_not_paused"
  "pure_prog (require_balance a bal v)" "pure_prog (require_allowance a b bal v)"
  "pure_prog (require_unfrozen a bal v)" "pure_prog (validate_allowance_update env a b v)"
  "pure_prog (require_can_send env a)" "pure_prog (require_can_receive env a)"
  "pure_prog (require_can_mint env a)" "pure_prog (next_to_balance msg a b bal v)"
  unfolding require_operational_role_def require_nonzero_def require_nonzero_amount_def
    require_not_paused_def require_balance_def require_allowance_def require_unfrozen_def
    validate_allowance_update_def require_can_send_def require_can_receive_def
    require_can_mint_def next_to_balance_def
  by (intro pure_intros)+

lemma pure_recover_permit_signer [pure_intros]: "pure_prog (recover_permit_signer env d v r s)"
  unfolding recover_permit_signer_def Let_def by (intro pure_intros)

lemma pure_views [pure_intros]:
  "pure_prog name_value" "pure_prog symbol_value" "pure_prog identity"
  "pure_prog (balance_of a)" "pure_prog (allowance_of env a b)" "pure_prog (frozen_tokens a)"
  "pure_prog (can_send env a)" "pure_prog (can_receive env a)" "pure_prog (can_transfer env a b v)"
  unfolding name_value_def symbol_value_def identity_def balance_of_def allowance_of_def
    frozen_tokens_def can_send_def can_receive_def can_transfer_def
  by (intro pure_intros)+

lemma pure_thenM [pure_intros]: "pure_prog m \<Longrightarrow> pure_prog (thenM f m)"
  unfolding thenM_def by (intro pure_intros)

lemma atomic_with_memo [atomic_intros]: "atomic_prog (with_memo a b v memo m)"
  unfolding with_memo_def by (rule atomic_with_checkpoint)

lemma atomic_core [atomic_intros]: "atomic_prog (mint_core a v)" "atomic_prog (burn_core a v)"
  unfolding mint_core_def burn_core_def by (intro atomic_intros pure_intros)+

lemma atomic_token_ops [atomic_intros]:
  "atomic_prog (grant_role env a role b)" "atomic_prog (revoke_role env a role b)"
  "atomic_prog (begin_admin_transfer env a b)" "atomic_prog (cancel_admin_transfer env a)"
  "atomic_prog (accept_admin_transfer env a)" "atomic_prog (pause env a)" "atomic_prog (unpause env a)"
  "atomic_prog (set_supply_cap env a v)" "atomic_prog (set_policy_id env a v)"
  "atomic_prog (set_frozen_tokens env a b v)" "atomic_prog (approve env a b v)"
  "atomic_prog (permit env a b v deadline rv r s)" "atomic_prog (transfer env a b v)"
  "atomic_prog (transfer_from env a b d v)" "atomic_prog (mint env a b v)"
  "atomic_prog (burn env a v)" "atomic_prog (burn_from env a b v)"
  "atomic_prog (forced_transfer env a b d v)"
  unfolding grant_role_def revoke_role_def begin_admin_transfer_def cancel_admin_transfer_def
    accept_admin_transfer_def pause_def unpause_def set_supply_cap_def set_policy_id_def
    set_frozen_tokens_def approve_def permit_def transfer_def transfer_from_def mint_def burn_def
    burn_from_def forced_transfer_def
  by (intro atomic_intros pure_intros)+

lemma atomic_token_call: "atomic_prog (token_call env caller call)"
  by (cases call)
    (simp_all add: atomic_thenM atomic_intros atomic_pure pure_intros transfer_with_memo_def
      transfer_from_with_memo_def mint_with_memo_def burn_with_memo_def burn_from_with_memo_def
      forced_transfer_with_memo_def)

lemma atomic_token_dispatch: "atomic_prog (token_dispatch env caller value call)"
  unfolding token_dispatch_def by (intro atomic_if atomic_failM atomic_token_call)

section \<open>The ledger invariant\<close>

lemma moved_zero: "to \<noteq> 0 \<Longrightarrow> bal 0 = 0 \<Longrightarrow> from \<noteq> 0 \<Longrightarrow> moved from to v bal 0 = 0"
  by (simp add: moved_def)

lemma moved_conserved:
  "conserved bal tot \<Longrightarrow> v \<le> bal from \<Longrightarrow> conserved (moved from to v bal) tot"
  by (auto simp: moved_def intro: conserved_move)

lemma ledger_inv_moved:
  assumes "ledger_inv c" "v \<le> balances c from" "from \<noteq> 0" "to \<noteq> 0"
    "balances c' = moved from to v (balances c)" "total_supply c' = total_supply c"
    "supply_cap c' = supply_cap c"
  shows "ledger_inv c'"
  using assms moved_conserved[of "balances c" "total_supply c" v "from" to]
    moved_zero[of to "balances c" "from" v]
  by (simp add: ledger_inv_def)

lemma ledger_inv_minted:
  assumes "ledger_inv c" "mint_core to v s = (Inr u, t)" "store s = c"
  shows "ledger_inv (store t)"
  using mint_core_ok[OF assms(2)] assms(1,3) conserved_credit[of "balances c" "total_supply c" v to]
  by (simp add: ledger_inv_def)

lemma ledger_inv_burned:
  assumes "ledger_inv c" "v \<le> balances c from"
    "balances c' = (balances c)(from := balances c from - v)" "total_supply c' = total_supply c - v"
    "supply_cap c' = supply_cap c" "from \<noteq> 0"
  shows "ledger_inv c'"
proof -
  have "v \<le> total_supply c"
    using conserved_le[of "balances c" "total_supply c" "from"] assms(1,2)
    by (auto simp: ledger_inv_def intro: order_trans)
  then have "total_supply c - v \<le> total_supply c" by (rule word_sub_le)
  then show ?thesis
    using assms conserved_debit[of "balances c" "total_supply c" v "from"]
    by (auto simp: ledger_inv_def intro: order_trans)
qed

lemma domain_separator_ok [prog_ok]:
  "domain_separator env s = (Inr d, t) \<longleftrightarrow>
     live (store s) \<and> d = separator_of env (store s) \<and> t = s"
  by (auto simp: domain_separator_def separator_of_def prog_ok)

lemma recover_permit_signer_ok [prog_ok]:
  "recover_permit_signer env digest v r x s = (Inr a, t) \<longleftrightarrow>
     permit_signer env digest v r x = Some a \<and> t = s"
  by (auto simp: recover_permit_signer_def permit_signer_def Let_def prog_ok split: if_splits)

lemma permit_ok:
  assumes "permit env owner spender v deadline rv r x s = (Inr u, t)"
  defines "c \<equiv> store s"
  shows "live c" "owner \<noteq> 0" "spender \<noteq> 0" "env_timestamp env \<le> deadline"
    "permit_signer env (permit_digest env (separator_of env c) owner spender v (nonces c owner) deadline)
       rv r x = Some owner"
    "frozen c owner = 0 \<or> v \<le> allowances c (allowance_key env owner spender)"
    "unat (nonces c owner) + 1 < 2 ^ 256"
    "store t = c\<lparr>nonces := (nonces c)(owner := nonces c owner + 1),
       allowances := (allowances c)(allowance_key env owner spender := v),
       token_logs := token_logs c @ [Approval owner spender v]\<rparr>"
  using assms(1) unfolding c_def
  by (auto simp: permit_def write_approval_def token_writes prog_ok split: if_splits)

section \<open>The token invariant\<close>

lemma admin_key_apart:
  assumes "role_slots_apart h" "role \<in> set OPERATIONAL_ROLES"
  shows "h (word_bytes ADMIN_ROLE @ address_bytes a) \<noteq> h (word_bytes role @ address_bytes b)"
proof
  assume "h (word_bytes ADMIN_ROLE @ address_bytes a) = h (word_bytes role @ address_bytes b)"
  then have "(ADMIN_ROLE, a) = (role, b)"
    using assms inj_onD[of "\<lambda>(role, a). h (word_bytes role @ address_bytes a)"
        "set (ADMIN_ROLE # OPERATIONAL_ROLES) \<times> UNIV" "(ADMIN_ROLE, a)" "(role, b)"]
    by (simp add: role_slots_apart_def)
  then show False using assms(2) roles_distinct(1) by simp
qed

lemma admin_key_inj:
  assumes "role_slots_apart h"
  shows "h (word_bytes ADMIN_ROLE @ address_bytes a) = h (word_bytes ADMIN_ROLE @ address_bytes b) \<longleftrightarrow> a = b"
  using assms inj_onD[of "\<lambda>(role, a). h (word_bytes role @ address_bytes a)"
      "set (ADMIN_ROLE # OPERATIONAL_ROLES) \<times> UNIV" "(ADMIN_ROLE, a)" "(ADMIN_ROLE, b)"]
  by (auto simp: role_slots_apart_def)

lemma token_inv_ledger:
  assumes "token_inv h c" "ledger_inv c'"
    "schema_version c' = schema_version c" "token_name c' = token_name c"
    "token_symbol c' = token_symbol c" "token_admin c' = token_admin c"
    "token_pending_admin c' = token_pending_admin c" "roles c' = roles c"
  shows "token_inv h c'"
  using assms by (simp add: token_inv_def admin_inv_def live_def)

lemma token_inv_frame:
  assumes "token_inv h c" "balances c' = balances c" "total_supply c' = total_supply c"
    "total_supply c' \<le> supply_cap c'"
    "schema_version c' = schema_version c" "token_name c' = token_name c"
    "token_symbol c' = token_symbol c" "token_admin c' = token_admin c"
    "token_pending_admin c' = token_pending_admin c" "roles c' = roles c"
  shows "token_inv h c'"
  using assms by (simp add: token_inv_def admin_inv_def live_def ledger_inv_def)

lemma token_inv_supply: "token_inv h c \<Longrightarrow> total_supply c \<le> supply_cap c"
  by (simp add: token_inv_def ledger_inv_def)

lemma movement_inv:
  assumes "token_inv h (store s)"
  shows "transfer env a b v s = (Inr u, t) \<Longrightarrow> token_inv h (store t)"
    and "transfer_from env a b d v s = (Inr u, t) \<Longrightarrow> token_inv h (store t)"
    and "forced_transfer env a b d v s = (Inr u, t) \<Longrightarrow> token_inv h (store t)"
proof -
  have l: "ledger_inv (store s)" using assms by (simp add: token_inv_def)
  show "token_inv h (store t)" if r: "transfer env a b v s = (Inr u, t)"
  proof (rule token_inv_ledger[OF assms])
    show "ledger_inv (store t)"
      by (rule ledger_inv_moved[OF l transfer_ok(7,3,4)[OF r]]) (simp_all add: transfer_ok(9)[OF r])
  qed (simp_all add: transfer_ok(9)[OF r])
  show "token_inv h (store t)" if r: "transfer_from env a b d v s = (Inr u, t)"
  proof (rule token_inv_ledger[OF assms])
    show "ledger_inv (store t)"
      by (rule ledger_inv_moved[OF l transfer_from_ok(9,4,5)[OF r]])
        (simp_all add: transfer_from_ok(11)[OF r])
  qed (simp_all add: transfer_from_ok(11)[OF r])
  show "token_inv h (store t)" if r: "forced_transfer env a b d v s = (Inr u, t)"
  proof -
    obtain logs where e: "store t = (store s)\<lparr>frozen := thawed b (balances (store s) b) v (frozen (store s)),
       balances := moved b d v (balances (store s)), token_logs := logs\<rparr>"
      using forced_transfer_ok(8)[OF r] by blast
    show ?thesis
    proof (rule token_inv_ledger[OF assms])
      show "ledger_inv (store t)"
        by (rule ledger_inv_moved[OF l forced_transfer_ok(7,4,5)[OF r]]) (simp_all add: e)
    qed (simp_all add: e)
  qed
qed

lemma supply_inv:
  assumes "token_inv h (store s)"
  shows "mint env a b v s = (Inr u, t) \<Longrightarrow> token_inv h (store t)"
    and "burn env a v s = (Inr u, t) \<Longrightarrow> token_inv h (store t)"
    and "burn_from env a b v s = (Inr u, t) \<Longrightarrow> token_inv h (store t)"
proof -
  have l: "ledger_inv (store s)" using assms by (simp add: token_inv_def)
  show "token_inv h (store t)" if r: "mint env a b v s = (Inr u, t)"
    by (rule token_inv_ledger[OF assms ledger_inv_minted[OF l mint_ok(4)[OF r] refl]])
      (simp_all add: mint_core_ok(6)[OF mint_ok(4)[OF r]])
  show "token_inv h (store t)" if r: "burn env a v s = (Inr u, t)"
  proof -
    obtain logs where e: "store t = (store s)\<lparr>frozen := thawed a (balances (store s) a) v (frozen (store s)),
        balances := (balances (store s))(a := balances (store s) a - v),
        total_supply := total_supply (store s) - v, token_logs := logs\<rparr>"
      using burn_ok(4)[OF r] by blast
    have "a \<noteq> 0" using r by (auto simp: burn_def burn_core_def prog_ok)
    then have "ledger_inv (store t)"
      by (intro ledger_inv_burned[OF l burn_ok(3)[OF r]]) (simp_all add: e)
    then show ?thesis by (rule token_inv_ledger[OF assms]) (simp_all add: e)
  qed
  show "token_inv h (store t)" if r: "burn_from env a b v s = (Inr u, t)"
  proof -
    have "b \<noteq> 0" using r by (auto simp: burn_from_def prog_ok)
    then have "ledger_inv (store t)"
      by (intro ledger_inv_burned[OF l burn_from_ok(5)[OF r]]) (simp_all add: burn_from_ok(7)[OF r])
    then show ?thesis by (rule token_inv_ledger[OF assms]) (simp_all add: burn_from_ok(7)[OF r])
  qed
qed

lemma parameter_inv:
  assumes "token_inv h (store s)"
  shows "pause env a s = (Inr u, t) \<Longrightarrow> token_inv h (store t)"
    and "unpause env a s = (Inr u, t) \<Longrightarrow> token_inv h (store t)"
    and "set_supply_cap env a v s = (Inr u, t) \<Longrightarrow> token_inv h (store t)"
    and "set_policy_id env a v s = (Inr u, t) \<Longrightarrow> token_inv h (store t)"
    and "set_frozen_tokens env a b v s = (Inr u, t) \<Longrightarrow> token_inv h (store t)"
    and "approve env a b v s = (Inr u, t) \<Longrightarrow> token_inv h (store t)"
    and "permit env a b v d rv r x s = (Inr u, t) \<Longrightarrow> token_inv h (store t)"
proof -
  note frame = token_inv_frame[OF assms] and capped = token_inv_supply[OF assms]
  show "pause env a s = (Inr u, t) \<Longrightarrow> token_inv h (store t)"
    by (rule frame; use capped in \<open>force simp: pause_def token_writes prog_ok split: if_splits\<close>)
  show "unpause env a s = (Inr u, t) \<Longrightarrow> token_inv h (store t)"
    by (rule frame; use capped in \<open>force simp: unpause_def token_writes prog_ok split: if_splits\<close>)
  show "set_supply_cap env a v s = (Inr u, t) \<Longrightarrow> token_inv h (store t)"
    by (rule frame; use capped in \<open>force simp: set_supply_cap_def token_writes prog_ok split: if_splits\<close>)
  show "set_policy_id env a v s = (Inr u, t) \<Longrightarrow> token_inv h (store t)"
    by (rule frame; use capped in \<open>force simp: set_policy_id_def token_writes prog_ok split: if_splits\<close>)
  show "set_frozen_tokens env a b v s = (Inr u, t) \<Longrightarrow> token_inv h (store t)"
    by (rule frame; use capped in \<open>force simp: set_frozen_tokens_def token_writes prog_ok split: if_splits\<close>)
  show "approve env a b v s = (Inr u, t) \<Longrightarrow> token_inv h (store t)"
    by (rule frame; use capped in \<open>force simp: approve_def write_approval_def token_writes prog_ok split: if_splits\<close>)
  show "token_inv h (store t)" if p: "permit env a b v d rv r x s = (Inr u, t)"
    by (rule frame) (use capped in \<open>simp_all add: permit_ok(8)[OF p]\<close>)
qed

lemma role_inv:
  assumes "token_inv (env_keccak env) (store s)" "role_slots_apart (env_keccak env)"
  shows "grant_role env a role b s = (Inr u, t) \<Longrightarrow> token_inv (env_keccak env) (store t)"
    and "revoke_role env a role b s = (Inr u, t) \<Longrightarrow> token_inv (env_keccak env) (store t)"
  using assms admin_key_apart[OF assms(2)]
  by (auto simp: grant_role_def revoke_role_def token_inv_def admin_inv_def ledger_inv_def live_def
      role_key_def token_writes prog_ok split: if_splits)

lemma admin_transfer_inv:
  assumes "token_inv (env_keccak env) (store s)" "role_slots_apart (env_keccak env)"
  shows "begin_admin_transfer env a b s = (Inr u, t) \<Longrightarrow> token_inv (env_keccak env) (store t)"
    and "cancel_admin_transfer env a s = (Inr u, t) \<Longrightarrow> token_inv (env_keccak env) (store t)"
    and "accept_admin_transfer env a s = (Inr u, t) \<Longrightarrow> token_inv (env_keccak env) (store t)"
  using assms admin_key_inj[OF assms(2)]
  by (auto simp: begin_admin_transfer_def cancel_admin_transfer_def accept_admin_transfer_def
      token_inv_def admin_inv_def ledger_inv_def live_def role_key_def token_writes prog_ok
      split: if_splits)

lemma with_memo_inv:
  assumes "with_memo a b v memo m s = (Inr u, t)"
    "\<And>x. m s = (Inr (), x) \<Longrightarrow> token_inv h (store x)"
  shows "token_inv h (store t)"
proof -
  obtain x where "m s = (Inr (), x)" "emit_token (TransferWithMemo a b v memo) x = (Inr (), t)"
    using assms(1) by (auto simp: with_memo_ok)
  moreover from this have "token_inv h (store x)" by (simp add: assms(2))
  ultimately show ?thesis
    using token_inv_frame[of h "store x" "store t"] token_inv_supply by (simp add: token_writes prog_ok)
qed

lemma token_call_keeps_inv:
  assumes "token_inv (env_keccak env) (store s)" "role_slots_apart (env_keccak env)"
    "token_call env caller call s = (Inr r, t)"
  shows "token_inv (env_keccak env) (store t)"
proof (cases "pure_prog (token_call env caller call)")
  case True
  then show ?thesis using pure_store[OF True assms(3)] assms(1) by simp
next
  case False
  note inv = movement_inv[OF assms(1)] supply_inv[OF assms(1)] parameter_inv[OF assms(1)]
    role_inv[OF assms(1,2)] admin_transfer_inv[OF assms(1,2)]
  show ?thesis
    using assms(3) False
    by (cases call)
      (auto simp: thenM_def prog_ok pure_intros pure_thenM transfer_with_memo_def
        transfer_from_with_memo_def mint_with_memo_def burn_with_memo_def burn_from_with_memo_def
        forced_transfer_with_memo_def intro: inv elim!: with_memo_inv)
qed

lemma token_dispatch_keeps_inv:
  assumes "token_inv (env_keccak env) (store s)" "role_slots_apart (env_keccak env)"
    "token_dispatch env caller v call s = (Inr r, t)"
  shows "token_inv (env_keccak env) (store t)"
  using assms(3) token_call_keeps_inv[OF assms(1,2)]
  by (auto simp: token_dispatch_def prog_ok split: if_splits)

interpretation ltoken: atomic_contract token_message "message_hashes h" "token_sound h" for h
proof
  fix call
  show "atomic_prog (token_message call)"
    by (cases call) (simp add: atomic_token_dispatch)
next
  fix call s r t
  assume "message_hashes h call" "token_sound h (store s)" "token_message call s = (Inr r, t)"
  then show "token_sound h (store t)"
    by (cases call) (auto simp: token_sound_def intro: token_dispatch_keeps_inv)
qed

section \<open>Which errors a live token can report\<close>

lemma recoverable_simps [simp]:
  "recoverable OutOfGas" "recoverable (Revert d)" "recoverable (RevertBytes d)"
  "recoverable (Fatal d) \<longleftrightarrow> d = Text ''stablecoin permit nonce overflow''"
  by (auto simp: recoverable_def)

lemma safe_schema [safe_rules]:
  "live (store s) \<Longrightarrow> safeM E validated_schema_version Q s \<longleftrightarrow> Q 1 s"
  by (simp add: validated_schema_version_def safe_rules live_def STABLECOIN_V1_SCHEMA_VERSION_def)

lemma safe_require_role:
  assumes "token_inv (env_keccak env) (store s)"
  shows "safeM recoverable (require_role env role a) Q s \<longleftrightarrow>
     ((role = ADMIN_ROLE \<or> role \<in> set OPERATIONAL_ROLES) \<and> roles (store s) (role_key env role a) \<longrightarrow> Q () s)"
  using assms
  by (auto simp: require_role_def has_role_def safe_rules token_inv_def admin_inv_def role_key_def)

lemma credit_fits:
  assumes "ledger_inv c" "v \<le> balances c from" "from \<noteq> to"
  shows "unat (balances c to) + unat v < 2 ^ 256"
proof -
  have "unat (balances c from) + unat (balances c to) \<le> unat (total_supply c)"
    using assms(1,3) conserved_pair[of "balances c" "total_supply c" "from" to]
    by (simp add: ledger_inv_def)
  moreover have "unat v \<le> unat (balances c from)" using assms(2) by (simp add: word_le_nat_alt)
  ultimately show ?thesis using unat_bound[of "total_supply c"] by simp
qed

lemma mint_fits:
  assumes "ledger_inv c" "unat (total_supply c) + unat v < 2 ^ 256"
  shows "unat (balances c to) + unat v < 2 ^ 256"
  using conserved_le[of "balances c" "total_supply c" to] assms
  by (simp add: ledger_inv_def word_le_nat_alt)

lemma burn_fits: "ledger_inv c \<Longrightarrow> v \<le> balances c from \<Longrightarrow> v \<le> total_supply c"
  using conserved_le[of "balances c" "total_supply c" "from"] by (auto simp: ledger_inv_def)

lemmas guard_defs = require_operational_role_def require_nonzero_def require_nonzero_amount_def
  require_not_paused_def require_can_send_def require_can_receive_def require_can_mint_def
  require_balance_def require_allowance_def require_unfrozen_def validate_allowance_update_def

lemma token_inv_parts:
  "token_inv h c \<Longrightarrow> live c" "token_inv h c \<Longrightarrow> ledger_inv c" "token_inv h c \<Longrightarrow> admin_inv h c"
  by (simp_all add: token_inv_def)

lemma safe_transfer:
  assumes "token_inv h (store s)"
  shows "safeM recoverable (transfer env a b v) (\<lambda>_ _. True) s"
  using token_inv_parts(1)[OF assms] credit_fits[OF token_inv_parts(2)[OF assms], of v a b]
  by (auto simp: transfer_def guard_defs next_to_balance_def move_balances_def
      token_writes safe_rules split: option.splits)

lemma safe_transfer_from:
  assumes "token_inv h (store s)"
  shows "safeM recoverable (transfer_from env a b d v) (\<lambda>_ _. True) s"
  using token_inv_parts(1)[OF assms] credit_fits[OF token_inv_parts(2)[OF assms], of v b d]
  by (auto simp: transfer_from_def guard_defs next_to_balance_def move_balances_def
      spend_allowance_def token_writes safe_rules split: option.splits)

lemma safe_consume_frozen:
  assumes "v \<le> bal" "live (store s)" "ledger_inv (store s)"
  shows "safeM recoverable (consume_frozen a bal frz v)
     (\<lambda>_ t. live (store t) \<and> ledger_inv (store t)) s"
  using assms consumed_frozen(1)[OF assms(1), of frz]
  by (auto simp: consume_frozen_def Let_def token_writes safe_rules live_def ledger_inv_def
      split: option.splits)

lemma safe_mint:
  assumes "token_inv (env_keccak env) (store s)"
  shows "safeM recoverable (mint env a b v) (\<lambda>_ _. True) s"
  using token_inv_parts(1)[OF assms] token_inv_supply[OF assms] mint_fits[OF token_inv_parts(2)[OF assms], of v b]
  by (auto simp: mint_def safe_require_role[OF assms] mint_core_def guard_defs token_writes safe_rules
      split: option.splits)

lemma safe_burn_core:
  assumes "live (store s)" "ledger_inv (store s)"
  shows "safeM recoverable (burn_core a v) (\<lambda>_ _. True) s"
  using assms(1) burn_fits[OF assms(2), of v a]
  by (auto simp: burn_core_def guard_defs token_writes safe_rules split: option.splits)

lemma safe_burn:
  assumes "token_inv (env_keccak env) (store s)"
  shows "safeM recoverable (burn env a v) (\<lambda>_ _. True) s"
proof -
  have "safeM recoverable (consume_frozen a (balances (store s) a) (frozen (store s) a) v)
      (\<lambda>_. safeM recoverable (burn_core a v) (\<lambda>_ _. True)) s" if "v \<le> balances (store s) a"
    by (rule safeM_mono[OF safe_consume_frozen])
      (use that token_inv_parts[OF assms] in \<open>auto intro: safe_burn_core\<close>)
  then show ?thesis
    by (simp add: burn_def safe_require_role[OF assms] guard_defs safe_rules)
qed

lemma safe_burn_from:
  assumes "token_inv h (store s)"
  shows "safeM recoverable (burn_from env a b v) (\<lambda>_ _. True) s"
proof -
  have "safeM recoverable (burn_core b v)
      (\<lambda>_. safeM recoverable (spend_allowance k al v) (\<lambda>_ _. True)) s" for k al
    by (rule safeM_mono[OF safe_burn_core])
      (use token_inv_parts[OF assms] in \<open>simp_all add: spend_allowance_def token_writes safe_rules\<close>)
  then show ?thesis
    using token_inv_parts(1)[OF assms] by (simp add: burn_from_def guard_defs safe_rules)
qed

lemma safe_forced_transfer:
  assumes "token_inv (env_keccak env) (store s)"
  shows "safeM recoverable (forced_transfer env a b d v) (\<lambda>_ _. True) s"
proof -
  have "safeM recoverable (consume_frozen b (balances (store s) b) (frozen (store s) b) v) Q s"
    if "v \<le> balances (store s) b" "\<And>x t. Q x t" for Q
    by (rule safeM_mono[OF safe_consume_frozen]) (use that token_inv_parts[OF assms] in auto)
  then show ?thesis
    using credit_fits[OF token_inv_parts(2)[OF assms], of v b d]
    by (auto simp: forced_transfer_def safe_require_role[OF assms] guard_defs token_writes safe_rules
        split: option.splits)
qed

lemma safe_administration:
  assumes "token_inv (env_keccak env) (store s)"
  shows "safeM recoverable (grant_role env a role b) (\<lambda>_ _. True) s"
    "safeM recoverable (revoke_role env a role b) (\<lambda>_ _. True) s"
    "safeM recoverable (begin_admin_transfer env a b) (\<lambda>_ _. True) s"
    "safeM recoverable (cancel_admin_transfer env a) (\<lambda>_ _. True) s"
    "safeM recoverable (pause env a) (\<lambda>_ _. True) s"
    "safeM recoverable (unpause env a) (\<lambda>_ _. True) s"
    "safeM recoverable (set_supply_cap env a v) (\<lambda>_ _. True) s"
    "safeM recoverable (set_policy_id env a v) (\<lambda>_ _. True) s"
    "safeM recoverable (set_frozen_tokens env a b v) (\<lambda>_ _. True) s"
  by (simp_all add: grant_role_def revoke_role_def begin_admin_transfer_def cancel_admin_transfer_def
      pause_def unpause_def set_supply_cap_def set_policy_id_def
      set_frozen_tokens_def safe_require_role[OF assms] guard_defs token_writes safe_rules)

lemma safe_accept_admin_transfer:
  assumes "token_inv (env_keccak env) (store s)"
  shows "safeM recoverable (accept_admin_transfer env a) (\<lambda>_ _. True) s"
  using token_inv_parts(1,3)[OF assms]
  by (auto simp: accept_admin_transfer_def token_writes safe_rules admin_inv_def role_key_def)

lemma safe_allowances:
  assumes "live (store s)"
  shows "safeM recoverable (approve env a b v) (\<lambda>_ _. True) s"
    "safeM recoverable (permit env a b v deadline rv r x) (\<lambda>_ _. True) s"
  using assms
  by (simp_all add: approve_def permit_def recover_permit_signer_def domain_separator_def
      write_approval_def guard_defs token_writes safe_rules Let_def split: option.split)

lemma safe_views:
  assumes "token_inv (env_keccak env) (store s)"
  shows "safeM recoverable name_value (\<lambda>_ _. True) s"
    "safeM recoverable symbol_value (\<lambda>_ _. True) s"
    "safeM recoverable (domain_separator env) (\<lambda>_ _. True) s"
    "safeM recoverable (has_role env role a) (\<lambda>_ _. True) s"
    "safeM recoverable (can_send env a) (\<lambda>_ _. True) s"
    "safeM recoverable (can_receive env a) (\<lambda>_ _. True) s"
    "safeM recoverable (can_transfer env a b v) (\<lambda>_ _. True) s"
  using assms token_inv_parts(1)[OF assms]
  by (simp_all add: name_value_def symbol_value_def read_utf8_def domain_separator_def
      has_role_def can_send_def can_receive_def can_transfer_def safe_rules token_inv_def
      admin_inv_def role_key_def)

lemma safe_checked_read:
  "live (store s) \<Longrightarrow> safeM recoverable (checked_read f) (\<lambda>_ _. True) s"
  by (simp add: checked_read_def safe_rules)

lemma safe_with_memo:
  assumes "safeM recoverable m (\<lambda>_ _. True) s"
  shows "safeM recoverable (with_memo a b v memo m) (\<lambda>_ _. True) s"
  using safeM_mono[OF assms] by (simp add: with_memo_def token_writes safe_rules)

lemma safe_token_call:
  assumes "token_inv (env_keccak env) (store s)"
  shows "safeM recoverable (token_call env caller call) (\<lambda>_ _. True) s"
proof -
  have l: "live (store s)" using assms by (rule token_inv_parts)
  note safe = safe_transfer[OF assms] safe_transfer_from[OF assms] safe_mint[OF assms]
    safe_burn[OF assms] safe_burn_from[OF assms] safe_forced_transfer[OF assms]
    safe_administration[OF assms] safe_accept_admin_transfer[OF assms] safe_allowances[OF l]
    safe_views[OF assms] safe_checked_read[OF l] safe_with_memo
  show ?thesis
    by (cases call)
      (simp_all add: thenM_def safe_rules balance_of_def allowance_of_def frozen_tokens_def
        transfer_with_memo_def transfer_from_with_memo_def mint_with_memo_def burn_with_memo_def
        burn_from_with_memo_def forced_transfer_with_memo_def safe)
qed

end
