(* ===== verification/Stablecoin_Spec.thy ===== *)
theory Stablecoin_Spec
  imports Stablecoin_Ledger
begin

text \<open>
  The abstract token, a transition system without journal, budget and error order, and the proof
  that every call of the detailed token implements it. The properties of the token are read off the
  invariant and the abstract steps: balanced books, no corruption, exact movements, the supply cap,
  pausing, permits, administration and frozen tokens.
\<close>

text \<open>
  What the token promises, as a transition system on its state: no journal, no budget, no order of
  checks and no log contents. \<open>caller\<close> is the account that sends the call.
\<close>

inductive token_step :: "token_env \<Rightarrow> address \<Rightarrow> StablecoinContract \<Rightarrow> StablecoinContract \<Rightarrow> bool"
  for env caller c where
  view: "token_step env caller c c"
| move: "\<not> paused c \<Longrightarrow> caller \<noteq> 0 \<Longrightarrow> to \<noteq> 0 \<Longrightarrow>
    policy_can_send env (token_policy_id c) caller \<Longrightarrow> policy_can_receive env (token_policy_id c) to \<Longrightarrow>
    v \<le> unfrozen (balances c caller) (frozen c caller) \<Longrightarrow>
    token_step env caller c (c\<lparr>balances := moved caller to v (balances c), token_logs := l\<rparr>)"
| move_from: "\<not> paused c \<Longrightarrow> caller \<noteq> 0 \<Longrightarrow> from \<noteq> 0 \<Longrightarrow> to \<noteq> 0 \<Longrightarrow>
    policy_can_send env (token_policy_id c) from \<Longrightarrow> policy_can_receive env (token_policy_id c) to \<Longrightarrow>
    v \<le> allowances c (allowance_key env from caller) \<Longrightarrow>
    v \<le> unfrozen (balances c from) (frozen c from) \<Longrightarrow>
    token_step env caller c (c\<lparr>allowances := spent (allowance_key env from caller) v (allowances c),
      balances := moved from to v (balances c), token_logs := l\<rparr>)"
| issue: "\<not> paused c \<Longrightarrow> roles c (role_key env ISSUER_ROLE caller) \<Longrightarrow> to \<noteq> 0 \<Longrightarrow>
    policy_can_mint env (token_policy_id c) to \<Longrightarrow> unat (total_supply c) + unat v < 2 ^ 256 \<Longrightarrow>
    total_supply c + v \<le> supply_cap c \<Longrightarrow>
    token_step env caller c (c\<lparr>total_supply := total_supply c + v,
      balances := (balances c)(to := balances c to + v), token_logs := l\<rparr>)"
| redeem: "\<not> paused c \<Longrightarrow> roles c (role_key env ISSUER_ROLE caller) \<Longrightarrow> v \<le> balances c caller \<Longrightarrow>
    token_step env caller c (c\<lparr>frozen := thawed caller (balances c caller) v (frozen c),
      balances := (balances c)(caller := balances c caller - v),
      total_supply := total_supply c - v, token_logs := l\<rparr>)"
| redeem_from: "\<not> paused c \<Longrightarrow> caller \<noteq> 0 \<Longrightarrow> from \<noteq> 0 \<Longrightarrow>
    policy_can_send env (token_policy_id c) from \<Longrightarrow>
    v \<le> allowances c (allowance_key env from caller) \<Longrightarrow>
    v \<le> unfrozen (balances c from) (frozen c from) \<Longrightarrow>
    token_step env caller c (c\<lparr>balances := (balances c)(from := balances c from - v),
      total_supply := total_supply c - v,
      allowances := spent (allowance_key env from caller) v (allowances c), token_logs := l\<rparr>)"
| seize: "\<not> paused c \<Longrightarrow> roles c (role_key env ENFORCER_ROLE caller) \<Longrightarrow> from \<noteq> to \<Longrightarrow> from \<noteq> 0 \<Longrightarrow> to \<noteq> 0 \<Longrightarrow>
    policy_can_receive env (token_policy_id c) to \<Longrightarrow> v \<le> balances c from \<Longrightarrow>
    token_step env caller c (c\<lparr>frozen := thawed from (balances c from) v (frozen c),
      balances := moved from to v (balances c), token_logs := l\<rparr>)"
| allow: "caller \<noteq> 0 \<Longrightarrow>
    frozen c caller = 0 \<or> v \<le> allowances c (allowance_key env caller spender) \<Longrightarrow>
    token_step env caller c
      (c\<lparr>allowances := (allowances c)(allowance_key env caller spender := v), token_logs := l\<rparr>)"
| allow_signed: "owner \<noteq> 0 \<Longrightarrow> env_timestamp env \<le> deadline \<Longrightarrow>
    permit_signer env (permit_digest env (separator_of env c) owner spender v (nonces c owner) deadline)
      rv r x = Some owner \<Longrightarrow>
    frozen c owner = 0 \<or> v \<le> allowances c (allowance_key env owner spender) \<Longrightarrow>
    unat (nonces c owner) + 1 < 2 ^ 256 \<Longrightarrow>
    token_step env caller c (c\<lparr>nonces := (nonces c)(owner := nonces c owner + 1),
      allowances := (allowances c)(allowance_key env owner spender := v), token_logs := l\<rparr>)"
| set_role: "caller = token_admin c \<Longrightarrow> role \<in> set OPERATIONAL_ROLES \<Longrightarrow>
    token_step env caller c (c\<lparr>roles := (roles c)(role_key env role account := b), token_logs := l\<rparr>)"
| propose: "caller = token_admin c \<Longrightarrow> candidate = 0 \<or> candidate \<noteq> caller \<Longrightarrow>
    token_step env caller c (c\<lparr>token_pending_admin := candidate, token_logs := l\<rparr>)"
| accept: "caller \<noteq> 0 \<Longrightarrow> caller = token_pending_admin c \<Longrightarrow>
    roles c (role_key env ADMIN_ROLE (token_admin c)) \<Longrightarrow>
    token_step env caller c (c\<lparr>
      roles := (roles c)(role_key env ADMIN_ROLE (token_admin c) := False, role_key env ADMIN_ROLE caller := True),
      token_admin := caller, token_pending_admin := 0, token_logs := l\<rparr>)"
| halt: "\<not> paused c \<Longrightarrow> roles c (role_key env GUARDIAN_ROLE caller) \<Longrightarrow>
    token_step env caller c (c\<lparr>paused := True, token_logs := l\<rparr>)"
| resume: "paused c \<Longrightarrow> caller = token_admin c \<Longrightarrow>
    token_step env caller c (c\<lparr>paused := False, token_logs := l\<rparr>)"
| cap: "roles c (role_key env CAP_MANAGER_ROLE caller) \<Longrightarrow> total_supply c \<le> v \<Longrightarrow>
    token_step env caller c (c\<lparr>supply_cap := v, token_logs := l\<rparr>)"
| policy: "roles c (role_key env COMPLIANCE_ROLE caller) \<Longrightarrow> policy_exists pid (env_registry env) \<Longrightarrow>
    token_step env caller c (c\<lparr>token_policy_id := pid, token_logs := l\<rparr>)"
| freeze: "roles c (role_key env COMPLIANCE_ROLE caller) \<Longrightarrow> account \<noteq> 0 \<Longrightarrow>
    token_step env caller c (c\<lparr>frozen := (frozen c)(account := v), token_logs := l\<rparr>)"
| note_memo: "token_step env caller c (c\<lparr>token_logs := l\<rparr>)"

text \<open>A concrete hash, environment and token, for the witnesses.\<close>

definition toy_keccak :: "bytes \<Rightarrow> b256" where
  "toy_keccak bs =
     (if length bs = 52 then word_of_int (be_int (take 1 bs) * 2 ^ 160 + be_int (drop 32 bs))
      else if length bs = 192 then word_of_int (be_int (take 32 (drop 128 bs)))
      else if length bs = 66 then word_of_int (be_int (drop 34 bs))
      else word_of_int (be_int bs))"

definition role_head :: "b256 \<Rightarrow> int" where
  "role_head role = be_int (take 1 (word_bytes role))"

definition sample_token_id :: b256 where
  "sample_token_id =
     (case stablecoin_token_id toy_keccak 1 STABLECOIN_FACTORY_ADDRESS 1 (ascii ''USDX'') of
        Inl _ \<Rightarrow> 0 | Inr i \<Rightarrow> i)"

definition sample_token_env :: token_env where
  "sample_token_env =
     \<lparr>env_keccak = toy_keccak, env_codec = sample_codec,
      env_self = stablecoin_address sample_token_id STABLECOIN_ADDRESS_PREFIX, env_chain_id = 1,
      env_timestamp = 5, env_registry = registry_genesis,
      sig_from_slice = (\<lambda>_. True), sig_normalize_s = (\<lambda>_. False),
      sig_recover = (\<lambda>digest _ _. if digest = 0 then Some [4, 7] else None)\<rparr>"

definition sample_init :: FactoryTokenInitialization where
  "sample_init =
     \<lparr>init_token_address = stablecoin_address sample_token_id STABLECOIN_ADDRESS_PREFIX,
      init_token_id = sample_token_id, init_creation_protocol_version = 1,
      init_payload = sample_payload\<lparr>pl_supply_cap := 1000\<rparr>\<rparr>"

fun sample_role_keys :: "b256 list \<Rightarrow> b256 list" where
  "sample_role_keys [] = []"
| "sample_role_keys (role # rs) = role_key sample_token_env role 1 # sample_role_keys rs"

definition sample_token :: StablecoinContract where
  "sample_token = token_pristine\<lparr>schema_version := 1, supply_cap := 1000, total_supply := 10,
     token_policy_id := 1, token_admin := 1, balances := (\<lambda>_. 0)(1 := 10),
     roles := (\<lambda>k. k \<in> set (sample_role_keys (ADMIN_ROLE # OPERATIONAL_ROLES)))\<rparr>"

definition sample_allowed :: StablecoinContract where
  "sample_allowed = sample_token\<lparr>allowances := (\<lambda>_. 7)\<rparr>"

text \<open>The sample environment with a signature library that opens every signature to address 7.\<close>

definition lenient_env :: token_env where
  "lenient_env = sample_token_env\<lparr>sig_recover := (\<lambda>_ _ _. Some [4, 7])\<rparr>"

definition sample_admin_change :: StablecoinContract where
  "sample_admin_change = sample_token\<lparr>token_pending_admin := 2\<rparr>"

definition sample_frozen :: StablecoinContract where
  "sample_frozen = sample_token\<lparr>frozen := (\<lambda>_. 0)(1 := 4)\<rparr>"

section \<open>The abstract token\<close>

inductive_cases token_step_cases: "token_step env caller c c'"

lemma movement_steps:
  "transfer env a to v s = (Inr u, t) \<Longrightarrow> token_step env a (store s) (store t)"
  "transfer_from env a from to v s = (Inr u, t) \<Longrightarrow> token_step env a (store s) (store t)"
  "forced_transfer env a from to v s = (Inr u, t) \<Longrightarrow> token_step env a (store s) (store t)"
proof -
  show "token_step env a (store s) (store t)" if r: "transfer env a to v s = (Inr u, t)"
    unfolding transfer_ok(9)[OF r] by (rule token_step.move[OF transfer_ok(2-6,8)[OF r]])
  show "token_step env a (store s) (store t)" if r: "transfer_from env a from to v s = (Inr u, t)"
    unfolding transfer_from_ok(11)[OF r]
    by (rule token_step.move_from[OF transfer_from_ok(2-8,10)[OF r]])
  show "token_step env a (store s) (store t)" if r: "forced_transfer env a from to v s = (Inr u, t)"
    using forced_transfer_ok(8)[OF r] token_step.seize[OF forced_transfer_ok(2,1,3-7)[OF r]] by metis
qed

lemma supply_steps:
  "mint env a to v s = (Inr u, t) \<Longrightarrow> token_step env a (store s) (store t)"
  "burn env a v s = (Inr u, t) \<Longrightarrow> token_step env a (store s) (store t)"
  "burn_from env a from v s = (Inr u, t) \<Longrightarrow> token_step env a (store s) (store t)"
proof -
  show "token_step env a (store s) (store t)" if r: "mint env a to v s = (Inr u, t)"
    unfolding mint_core_ok(6)[OF mint_ok(4)[OF r]]
    by (rule token_step.issue[OF mint_ok(2,1)[OF r] mint_core_ok(2)[OF mint_ok(4)[OF r]]
          mint_ok(3)[OF r] mint_core_ok(4,5)[OF mint_ok(4)[OF r]]])
  show "token_step env a (store s) (store t)" if r: "burn env a v s = (Inr u, t)"
    using burn_ok(4)[OF r] token_step.redeem[OF burn_ok(2,1,3)[OF r]] by metis
  show "token_step env a (store s) (store t)" if r: "burn_from env a from v s = (Inr u, t)"
  proof -
    have "from \<noteq> 0" using r by (auto simp: burn_from_def prog_ok)
    from token_step.redeem_from[OF burn_from_ok(1,2)[OF r] this burn_from_ok(3,4,6)[OF r],
        of "token_logs (store t)"]
    show ?thesis by (rule back_subst) (simp add: burn_from_ok(7)[OF r] StablecoinContract.equality)
  qed
qed

lemma parameter_steps:
  "pause env a s = (Inr u, t) \<Longrightarrow> token_step env a (store s) (store t)"
  "unpause env a s = (Inr u, t) \<Longrightarrow> token_step env a (store s) (store t)"
  "set_supply_cap env a v s = (Inr u, t) \<Longrightarrow> token_step env a (store s) (store t)"
  "set_policy_id env a v s = (Inr u, t) \<Longrightarrow> token_step env a (store s) (store t)"
  "set_frozen_tokens env a b v s = (Inr u, t) \<Longrightarrow> token_step env a (store s) (store t)"
  "approve env a b v s = (Inr u, t) \<Longrightarrow> token_step env a (store s) (store t)"
  by (auto simp: pause_def unpause_def set_supply_cap_def set_policy_id_def set_frozen_tokens_def
      approve_def write_approval_def token_writes prog_ok split: if_splits intro: token_step.intros)

lemma permit_step:
  assumes "permit env owner spender v deadline rv r x s = (Inr u, t)"
  shows "token_step env a (store s) (store t)"
  unfolding permit_ok(8)[OF assms]
  by (rule token_step.allow_signed[OF permit_ok(2,4-7)[OF assms]])

lemma role_steps:
  "grant_role env a role b s = (Inr u, t) \<Longrightarrow> token_step env a (store s) (store t)"
  "revoke_role env a role b s = (Inr u, t) \<Longrightarrow> token_step env a (store s) (store t)"
  "begin_admin_transfer env a b s = (Inr u, t) \<Longrightarrow> token_step env a (store s) (store t)"
  "cancel_admin_transfer env a s = (Inr u, t) \<Longrightarrow> token_step env a (store s) (store t)"
  "accept_admin_transfer env a s = (Inr u, t) \<Longrightarrow> token_step env a (store s) (store t)"
  by (auto simp: grant_role_def revoke_role_def begin_admin_transfer_def cancel_admin_transfer_def accept_admin_transfer_def
      token_writes prog_ok split: if_splits intro: token_step.intros)


lemma step_with_logs: "token_step env a c c' \<Longrightarrow> token_step env a c (c'\<lparr>token_logs := l\<rparr>)"
  by (erule token_step_cases) (simp_all add: token_step.intros)

lemma with_memo_step:
  assumes "with_memo x y v memo m s = (Inr u, t)"
    "\<And>w. m s = (Inr (), w) \<Longrightarrow> token_step env a (store s) (store w)"
  shows "token_step env a (store s) (store t)"
  using assms step_with_logs by (auto simp: with_memo_ok token_writes prog_ok)

lemma token_call_step:
  assumes "token_call env caller call s = (Inr r, t)"
  shows "token_step env caller (store s) (store t)"
proof (cases "pure_prog (token_call env caller call)")
  case True
  then show ?thesis using pure_store[OF True assms] token_step.view by simp
next
  case False
  note steps = movement_steps supply_steps parameter_steps permit_step role_steps
  show ?thesis
    using assms False
    by (cases call)
      (auto simp: thenM_def prog_ok pure_intros transfer_with_memo_def
        transfer_from_with_memo_def mint_with_memo_def burn_with_memo_def burn_from_with_memo_def
        forced_transfer_with_memo_def intro: steps elim!: with_memo_step)
qed

lemma toy_role_key:
  "toy_keccak (word_bytes role @ address_bytes a) =
     word_of_int (role_head role * 2 ^ 160 + uint a)"
proof -
  have "be_int (address_bytes a) = uint a"
    using uint_lt2p[of a] by (simp add: address_bytes_def be_int_be_bytes)
  then show ?thesis by (simp add: toy_keccak_def role_head_def)
qed

lemma role_heads:
  "role_head ADMIN_ROLE = 0xdf" "role_head ISSUER_ROLE = 0x76" "role_head CAP_MANAGER_ROLE = 0xea"
  "role_head GUARDIAN_ROLE = 0x8b" "role_head COMPLIANCE_ROLE = 0xa6" "role_head ENFORCER_ROLE = 0x98"
  by code_simp+

lemma role_heads_distinct: "distinct (map role_head (ADMIN_ROLE # OPERATIONAL_ROLES))"
  by (simp add: OPERATIONAL_ROLES_def role_heads)

lemma word_of_int_small_eq:
  assumes "(word_of_int x :: 'a::len word) = word_of_int y" "0 \<le> x" "x < 2 ^ LENGTH('a)" "0 \<le> y" "y < 2 ^ LENGTH('a)"
  shows "x = y"
proof -
  have "uint (word_of_int x :: 'a word) = x" "uint (word_of_int y :: 'a word) = y"
    by (simp_all only: uint_word_of_int mod_pos_pos_trivial assms(2-))
  then show ?thesis by (metis assms(1))
qed

lemma mult_add_inj:
  fixes a b m x y :: int
  assumes "0 \<le> a" "a < m" "0 \<le> b" "b < m" "x * m + a = y * m + b"
  shows "x = y \<and> a = b"
proof -
  have "(x * m + a) div m = x" "(y * m + b) div m = y" using assms(1-4) by simp_all
  with assms(5) show ?thesis by simp
qed

lemma toy_roles_apart: "role_slots_apart toy_keccak"
  unfolding role_slots_apart_def
proof (rule inj_onI, clarsimp simp only: mem_Sigma_iff split_paired_all prod.case)
  fix r a r' b
  let ?R = "ADMIN_ROLE # OPERATIONAL_ROLES"
  assume r: "r \<in> set ?R" "r' \<in> set ?R"
    and eq: "toy_keccak (word_bytes r @ address_bytes a) = toy_keccak (word_bytes r' @ address_bytes b)"
  have ua: "0 \<le> uint a" "uint a < 2 ^ 160" "0 \<le> uint b" "uint b < 2 ^ 160"
    using uint_lt2p[of a] uint_lt2p[of b] by simp_all
  have h: "0 \<le> role_head q \<and> role_head q < 256" for q using be_int_bound[of "take 1 (word_bytes q)"] by (simp add: role_head_def)
  have "role_head r * 2 ^ 160 + uint a = role_head r' * 2 ^ 160 + uint b"
    using eq ua h[of r] h[of r'] unfolding toy_role_key by (intro word_of_int_small_eq) auto
  then have "role_head r = role_head r' \<and> uint a = uint b"
    using mult_add_inj[of "uint a" "2 ^ 160" "uint b" "role_head r" "role_head r'"] ua by blast
  moreover have "inj_on role_head (set ?R)" using role_heads_distinct by (simp only: distinct_map)
  ultimately show "r = r' \<and> a = b" using r by (metis inj_onD word_uint_eq_iff)
qed

lemma sample_ledger: "ledger_inv sample_token"
proof -
  have "conserved (\<lambda>_::address. 0 :: u256) 0" by (simp add: conserved_def)
  from conserved_credit[OF this, of 10 1]
  show ?thesis by (simp add: ledger_inv_def sample_token_def token_pristine_def)
qed

lemma set_sample_role_keys [simp]:
  "set (sample_role_keys rs) = (\<lambda>r. role_key sample_token_env r 1) ` set rs"
  by (induction rs) auto

lemma sample_token_inv: "token_inv toy_keccak sample_token"
proof -
  have "roles sample_token (toy_keccak (word_bytes ADMIN_ROLE @ address_bytes a)) \<longleftrightarrow> a = 1" for a
    using admin_key_inj[OF toy_roles_apart, of a 1] admin_key_apart[OF toy_roles_apart, of _ a 1]
    by (auto simp: sample_token_def role_key_def sample_token_env_def)
  then show ?thesis
    using sample_ledger
    by (simp add: token_inv_def admin_inv_def sample_token_def token_pristine_def live_def utf8_valid_def)
qed

section \<open>Initialization\<close>

lemma ascii_utf8: "list_all (\<lambda>b. b < 128) bs \<Longrightarrow> utf8_valid bs"
  by (induction bs) (auto simp: utf8_valid_def Let_def word_less_nat_alt)

lemma ticker_utf8:
  assumes "validate_ticker t = Inr ()"
  shows "utf8_valid t"
proof (rule ascii_utf8)
  have "b \<le> 90 \<Longrightarrow> b < 128" "b \<le> 57 \<Longrightarrow> b < 128" for b :: u8
    using le_less_trans[of b 90 128] le_less_trans[of b 57 128] by simp_all
  then show "list_all (\<lambda>b. b < 128) t"
    using assms by (cases t) (auto simp: validate_ticker_ok is_ascii_uppercase_def
      is_ascii_digit_def list_all_iff)
qed

lemma validate_initialization_ok:
  assumes "validate_initialization env ini s = (Inr u, t)"
  shows "t = s \<and> validate_payload (init_payload ini) = Inr () \<and>
    policy_exists (pl_policy_id (init_payload ini)) (env_registry env) \<and>
    init_token_address ini = env_self env"
  using assms
  by (auto simp: validate_initialization_def prog_ok encode_canonical_stablecoin_create_def
      split: if_splits sum.splits)

lemma pristine_root_ok: "validate_pristine_root s = (Inr u, t) \<Longrightarrow> t = s"
  by (auto simp: validate_pristine_root_def root_slots_def prog_ok)

lemma forEach_roles_write:
  "forEachM (\<lambda>r. roles_write (f r) True) rs s = (Inr (), t) \<Longrightarrow>
   store t = (store s)\<lparr>roles := (\<lambda>k. roles (store s) k \<or> k \<in> f ` set rs)\<rparr>"
proof (induction rs arbitrary: s)
  case (Cons r rs)
  obtain m where m: "roles_write (f r) True s = (Inr (), m)"
    "forEachM (\<lambda>r. roles_write (f r) True) rs m = (Inr (), t)"
    using Cons.prems by (auto simp: prog_ok)
  have "store m = (store s)\<lparr>roles := (roles (store s))(f r := True)\<rparr>"
    using m(1) by (simp add: token_writes prog_ok)
  with Cons.IH[OF m(2)] show ?case
    by (intro StablecoinContract.equality) (auto simp: fun_eq_iff)
qed (simp add: prog_ok)

lemma initialize_ok:
  assumes "initialize_from_factory env ini s = (Inr u, t)"
  defines "p \<equiv> init_payload ini"
  shows "validate_payload p = Inr ()" "policy_exists (pl_policy_id p) (env_registry env)"
    "schema_version (store s) = 0"
    "store t = (store s)\<lparr>schema_version := 1,
       creation_protocol_version := init_creation_protocol_version ini, token_id := init_token_id ini,
       token_name := pl_name p, token_symbol := pl_ticker p, currency := pl_iso4217 p,
       token_decimals := pl_decimals p, issuer := pl_issuer p, supply_cap := pl_supply_cap p,
       token_policy_id := pl_policy_id p, token_admin := pl_issuer p,
       roles := (\<lambda>k. roles (store s) k \<or>
         k \<in> (\<lambda>r. role_key env r (pl_issuer p)) ` set (ADMIN_ROLE # OPERATIONAL_ROLES))\<rparr>"
proof -
  obtain x m0 m where n: "schema_version (store s) = 0 \<and> validate_payload p = Inr () \<and>
      policy_exists (pl_policy_id p) (env_registry env)"
    "roles_write (role_key env ADMIN_ROLE (pl_issuer p)) True x = (Inr (), m0)"
    "forEachM (\<lambda>role. roles_write (role_key env role (pl_issuer p)) True) OPERATIONAL_ROLES m0 =
       (Inr (), m)"
    "store x = (store s)\<lparr>creation_protocol_version := init_creation_protocol_version ini,
          token_id := init_token_id ini,
          token_name := pl_name p, token_symbol := pl_ticker p, currency := pl_iso4217 p,
          token_decimals := pl_decimals p, issuer := pl_issuer p, supply_cap := pl_supply_cap p,
          token_policy_id := pl_policy_id p, token_admin := pl_issuer p\<rparr>"
    "store t = (store m)\<lparr>schema_version := 1\<rparr>"
    using assms(1)
    by (fastforce simp: initialize_from_factory_def p_def Let_def prog_ok STABLECOIN_V1_SCHEMA_VERSION_def
        dest!: validate_initialization_ok pristine_root_ok split: if_splits)
  have m0: "store m0 = (store x)\<lparr>roles := (roles (store x))(role_key env ADMIN_ROLE (pl_issuer p) := True)\<rparr>"
    using n(2) by (simp add: token_writes prog_ok)
  from n(1) show "validate_payload p = Inr ()" "policy_exists (pl_policy_id p) (env_registry env)"
    "schema_version (store s) = 0" by simp_all
  show "store t = (store s)\<lparr>schema_version := 1,
       creation_protocol_version := init_creation_protocol_version ini, token_id := init_token_id ini,
       token_name := pl_name p, token_symbol := pl_ticker p, currency := pl_iso4217 p,
       token_decimals := pl_decimals p, issuer := pl_issuer p, supply_cap := pl_supply_cap p,
       token_policy_id := pl_policy_id p, token_admin := pl_issuer p,
       roles := (\<lambda>k. roles (store s) k \<or>
         k \<in> (\<lambda>r. role_key env r (pl_issuer p)) ` set (ADMIN_ROLE # OPERATIONAL_ROLES))\<rparr>"
    unfolding n(5) forEach_roles_write[OF n(3)] m0 n(4)
    by (rule StablecoinContract.equality) (auto simp: fun_eq_iff)
qed

lemma initialize_inv:
  assumes "initialize_from_factory env ini \<lparr>store = token_pristine, budget = b\<rparr> = (Inr u, t)"
    "utf8_valid (pl_name (init_payload ini))" "role_slots_apart (env_keccak env)"
  shows "token_inv (env_keccak env) (store t)"
proof -
  let ?p = "init_payload ini"
  note init = initialize_ok(4)[OF assms(1)]
  have v: "pl_issuer ?p \<noteq> 0" "validate_ticker (pl_ticker ?p) = Inr ()"
    using initialize_ok(1)[OF assms(1)] by (auto simp: validate_payload_def split: if_splits)
  have "ledger_inv (store t)" by (simp add: init ledger_inv_def token_pristine_def conserved_def)
  moreover have "admin_inv (env_keccak env) (store t)"
    using v(1) admin_key_inj[OF assms(3)] admin_key_apart[OF assms(3)]
    by (auto simp: init admin_inv_def token_pristine_def role_key_def)
  ultimately show ?thesis
    using assms(2) ticker_utf8[OF v(2)] by (simp add: init token_inv_def live_def)
qed

lemma token_reach_inv:
  assumes "contract_reach token_message (message_hashes h) c0 c" "token_inv h c0" "role_slots_apart h"
  shows "token_inv h c"
  using ltoken.reach_keeps[OF assms(1)] assms(2,3) by (simp add: token_sound_def)

section \<open>Consequences of the abstract steps\<close>

lemma step_nonces:
  "token_step env a c c' \<Longrightarrow> unat (nonces c owner) \<le> unat (nonces c' owner) \<and> token_name c' = token_name c"
  by (erule token_step_cases) (auto simp: unat_add_exact)

lemma message_step:
  assumes "token_message (env, caller, v, call) s = (Inr r, t)"
  shows "v = 0" "token_step env caller (store s) (store t)"
  using assms token_call_step by (auto simp: token_dispatch_def prog_ok split: if_splits)

lemma reach_nonces:
  "contract_reach token_message ok c0 c \<Longrightarrow>
     unat (nonces c0 owner) \<le> unat (nonces c owner) \<and> token_name c = token_name c0"
proof (induction rule: contract_reach.induct)
  case (step c call b r t)
  obtain env caller v k where call: "call = (env, caller, v, k)" by (cases call)
  show ?case
  proof (cases r)
    case (Inl e)
    then show ?thesis using ltoken.failed_call[of call "\<lparr>store = c, budget = b\<rparr>" e t] step by simp
  next
    case (Inr x)
    then have "token_step env caller c (store t)"
      using message_step(2)[of env caller v k "\<lparr>store = c, budget = b\<rparr>" x t] step.hyps(3) call by simp
    from step_nonces[OF this, of owner] show ?thesis using step.IH by simp
  qed
qed simp

lemma step_admin:
  "token_step env a c c' \<Longrightarrow> token_admin c' \<noteq> token_admin c \<Longrightarrow>
   a = token_pending_admin c \<and> a \<noteq> 0 \<and> token_admin c' = a \<and> token_pending_admin c' = 0"
  by (erule token_step_cases) auto

lemma step_pending:
  "token_step env a c c' \<Longrightarrow> token_pending_admin c' \<notin> {0, token_pending_admin c} \<Longrightarrow> a = token_admin c"
  by (erule token_step_cases) auto

lemma step_paused:
  "token_step env a c c' \<Longrightarrow> paused c \<Longrightarrow> balances c' = balances c \<and> total_supply c' = total_supply c"
  by (erule token_step_cases) auto

lemma unfrozen_le: "v \<le> unfrozen b f \<Longrightarrow> v \<le> b"
  by (simp add: word_le_nat_alt unfrozen_unat)

lemma covered_debit:
  fixes b f v :: u256
  assumes "v \<le> unfrozen b f" "f \<le> b"
  shows "f \<le> b - v"
proof -
  have "v \<le> b" using assms(1) by (rule unfrozen_le)
  then have "unat (b - v) = unat b - unat v" by (rule unat_sub_exact)
  then show ?thesis using assms by (simp add: word_le_nat_alt unfrozen_unat)
qed

lemma covered_thaw:
  assumes "v \<le> bal" "frz a \<le> bal"
  shows "thawed a bal v frz a \<le> bal - v"
  using assms covered_debit[of v bal "frz a"] by (simp add: thawed_def)

lemma thawed_other: "b \<noteq> a \<Longrightarrow> thawed a bal v frz b = frz b"
  by (simp add: thawed_def)

lemma credit_le:
  assumes "ledger_inv c" "v \<le> balances c from" "from \<noteq> to"
  shows "balances c to \<le> balances c to + v"
  using unat_add_exact[of "balances c to" v] credit_fits[OF assms] by (simp add: word_le_nat_alt)

lemma moved_covered:
  assumes "ledger_inv c" "v \<le> unfrozen (balances c from) (frozen c from)" "frozen c a \<le> balances c a"
  shows "frozen c a \<le> moved from to v (balances c) a"
  using assms covered_debit[of v "balances c from" "frozen c from"]
    credit_le[OF assms(1) unfrozen_le[OF assms(2)], of to]
  by (auto simp: moved_def intro: order_trans)


lemma step_covered:
  assumes "token_step env caller c c'" "ledger_inv c" "frozen c a \<le> balances c a"
    "frozen c' a \<le> frozen c a"
  shows "frozen c' a \<le> balances c' a"
  using assms(1)
proof (cases rule: token_step.cases)
  case (move to v l)
  then show ?thesis using moved_covered[OF assms(2) _ assms(3)] by simp
next
  case (move_from "from" to v l)
  then show ?thesis using moved_covered[OF assms(2) _ assms(3)] by simp
next
  case (issue to v l)
  then have "balances c to \<le> balances c to + v"
    using mint_fits[OF assms(2), of v to] unat_add_exact[of "balances c to" v] by (simp add: word_le_nat_alt)
  then show ?thesis using issue assms(3) by auto
next
  case (redeem v l)
  then show ?thesis using covered_thaw[of v _ "frozen c" caller] assms(3) by (auto simp: thawed_other)
next
  case (redeem_from "from" v l)
  then show ?thesis using covered_debit[of v "balances c from" "frozen c from"] assms(3) by auto
next
  case (seize "from" to v l)
  then show ?thesis
    using covered_thaw[of v _ "frozen c" "from"] assms(3) credit_le[OF assms(2), of v "from" to]
    by (auto simp: moved_def thawed_other intro: order_trans)
next
  case (freeze account v l)
  then show ?thesis using assms(3,4) by (auto split: if_splits)
qed (use assms(3) in auto)

lemma fst_Inr_iff: "fst p = Inr a \<longleftrightarrow> (\<exists>t. p = (Inr a, t))"
  by (cases p) auto

lemma can_transfer_True:
  "fst (can_transfer env from to v s) = Inr True \<longleftrightarrow>
     live (store s) \<and> \<not> paused (store s) \<and> from \<noteq> 0 \<and> to \<noteq> 0 \<and>
     policy_can_send env (token_policy_id (store s)) from \<and>
     policy_can_receive env (token_policy_id (store s)) to \<and>
     (frozen (store s) from = 0 \<or> v \<le> unfrozen (balances (store s) from) (frozen (store s) from))"
  by (auto simp: fst_Inr_iff can_transfer_def prog_ok split: if_splits)

lemma unfrozen_zero [simp]: "unfrozen b 0 = b"
  by (simp add: unfrozen_def saturating_sub_def)

lemma writes_run:
  "3 \<le> budget s \<Longrightarrow> \<exists>t. (bindM (move_balances from to b v n) (\<lambda>_. emit_token e)) s = (Inr (), t)"
  by (auto simp: move_balances_def token_writes prog_ok)

lemma transfer_succeeds_iff:
  assumes "ledger_inv (store s)" "3 \<le> budget s"
  defines "c \<equiv> store s"
  shows "fst (transfer env from to v s) = Inr () \<longleftrightarrow>
     live c \<and> \<not> paused c \<and> from \<noteq> 0 \<and> to \<noteq> 0 \<and>
     policy_can_send env (token_policy_id c) from \<and> policy_can_receive env (token_policy_id c) to \<and>
     v \<le> unfrozen (balances c from) (frozen c from)"
  using writes_run[OF assms(2), of "from" to] credit_fits[OF assms(1), of v "from" to] unfrozen_le
  unfolding c_def fst_Inr_iff
  by (cases "from = to") (auto simp: transfer_def prog_ok)

lemma mint_succeeds_iff:
  assumes "ledger_inv (store s)" "3 \<le> budget s"
  defines "c \<equiv> store s"
  shows "fst (mint env actor to v s) = Inr () \<longleftrightarrow>
     live c \<and> \<not> paused c \<and> roles c (role_key env ISSUER_ROLE actor) \<and> to \<noteq> 0 \<and> v \<noteq> 0 \<and>
     policy_can_mint env (token_policy_id c) to \<and> unat (total_supply c) + unat v \<le> unat (supply_cap c)"
proof -
  have r: "ISSUER_ROLE \<noteq> ADMIN_ROLE" "ISSUER_ROLE \<in> set OPERATIONAL_ROLES"
    using roles_distinct by (auto simp: OPERATIONAL_ROLES_def)
  have "unat (total_supply c) + unat v < 2 ^ 256 \<and> total_supply c + v \<le> supply_cap c \<longleftrightarrow>
      unat (total_supply c) + unat v \<le> unat (supply_cap c)"
    using unat_bound[of "supply_cap c"] unat_add_exact[of "total_supply c" v]
    by (auto simp: word_le_nat_alt)
  moreover have "total_supply c \<le> supply_cap c" using assms(1) by (simp add: ledger_inv_def c_def)
  ultimately show ?thesis
    using mint_fits[OF assms(1), of v to] assms(2) r
    unfolding c_def fst_Inr_iff
    by (auto simp: mint_def mint_core_def token_writes prog_ok not_less)
qed

section \<open>Properties of the token\<close>

lemma sample_init_ok:
  "\<exists>s. initialize_from_factory sample_token_env sample_init \<lparr>store = token_pristine, budget = 20\<rparr> = (Inr (), s)"
  unfolding fst_Inr_iff[symmetric] by code_simp

text \<open>
  C1: The books of a token always balance. Start from the factory's initialization of an empty
  account and let any calls arrive in any order, from any callers, in any blocks, each running out of
  gas at any point: the balances add up to the recorded supply, the supply stays under the cap, the
  zero address owns nothing, and exactly one account, the recorded one, holds the ADMIN role.
\<close>

theorem token_books_balance:
  assumes "initialize_from_factory env ini \<lparr>store = token_pristine, budget = b\<rparr> = (Inr (), s)"
    and "utf8_valid (pl_name (init_payload ini))" and "role_slots_apart (env_keccak env)"
    and "contract_reach token_message (message_hashes (env_keccak env)) (store s) c"
  shows "(\<Sum>a\<in>UNIV. unat (balances c a)) = unat (total_supply c) \<and> total_supply c \<le> supply_cap c \<and>
    balances c 0 = 0 \<and> token_admin c \<noteq> 0 \<and>
    (\<forall>a. roles c (role_key env ADMIN_ROLE a) \<longleftrightarrow> a = token_admin c)"
  using token_reach_inv[OF assms(4) initialize_inv[OF assms(1-3)] assms(3)]
  by (simp add: token_inv_def ledger_inv_def conserved_def admin_inv_def role_key_def)

theorem token_books_balance_witness:
  "\<exists>s. initialize_from_factory sample_token_env sample_init \<lparr>store = token_pristine, budget = 20\<rparr> = (Inr (), s) \<and>
     (\<Sum>a\<in>UNIV. unat (balances (store s) a)) = unat (total_supply (store s))"
proof -
  obtain s where s: "initialize_from_factory sample_token_env sample_init
      \<lparr>store = token_pristine, budget = 20\<rparr> = (Inr (), s)"
    using sample_init_ok by blast
  have "utf8_valid (pl_name (init_payload sample_init))" by code_simp
  moreover have "role_slots_apart (env_keccak sample_token_env)"
    using toy_roles_apart by (simp add: sample_token_env_def)
  ultimately show ?thesis
    using token_books_balance[OF s _ _ contract_reach.start] s by blast
qed

text \<open>
  C3: A token never reports corrupted state. In every state reached from the factory's
  initialization, no call ends in a fatal error (an overflowing balance, a supply below a balance, an
  ADMIN slot that disagrees with the role table, storage that is not UTF-8), except the exhaustion
  of a permit nonce after \<open>2 ^ 256 - 1\<close> permits of one owner.
\<close>

theorem token_never_corrupt:
  assumes "initialize_from_factory env ini \<lparr>store = token_pristine, budget = b\<rparr> = (Inr (), s)"
    and "utf8_valid (pl_name (init_payload ini))" and "role_slots_apart (env_keccak env)"
    and "contract_reach token_message (message_hashes (env_keccak env)) (store s) c"
    and "env_keccak env' = env_keccak env"
    and "token_message (env', caller, v, call) \<lparr>store = c, budget = n\<rparr> = (Inl e, t)"
  shows "\<forall>d. e = Fatal d \<longrightarrow> d = Text ''stablecoin permit nonce overflow''"
proof -
  have "token_inv (env_keccak env') c"
    using token_reach_inv[OF assms(4) initialize_inv[OF assms(1-3)] assms(3)] assms(5) by simp
  then have "safeM recoverable (token_call env' caller call) (\<lambda>_ _. True) \<lparr>store = c, budget = n\<rparr>"
    by (intro safe_token_call) simp
  from safeM_error[OF this] have "recoverable e"
    using assms(6) by (auto simp: token_dispatch_def prog_err split: if_splits)
  then show ?thesis by (simp add: recoverable_def)
qed

theorem token_never_corrupt_witness:
  "\<exists>s. initialize_from_factory sample_token_env sample_init \<lparr>store = token_pristine, budget = 20\<rparr> = (Inr (), s) \<and>
     fst (token_message (sample_token_env, 2, 5, pauseCall) \<lparr>store = store s, budget = 9\<rparr>) =
       Inl (RevertBytes (Typed (UnexpectedValue 5))) \<and>
     RevertBytes (Typed (UnexpectedValue 5)) \<noteq> Fatal (Text ''stablecoin balance overflow'')"
proof -
  obtain s where s: "initialize_from_factory sample_token_env sample_init
      \<lparr>store = token_pristine, budget = 20\<rparr> = (Inr (), s)"
    using sample_init_ok by blast
  have u: "utf8_valid (pl_name (init_payload sample_init))" by code_simp
  have h: "role_slots_apart (env_keccak sample_token_env)"
    using toy_roles_apart by (simp add: sample_token_env_def)
  have e: "token_message (sample_token_env, 2, 5, pauseCall) \<lparr>store = store s, budget = 9\<rparr> =
      (Inl (RevertBytes (Typed (UnexpectedValue 5))), \<lparr>store = store s, budget = 9\<rparr>)"
    by (simp add: token_dispatch_def failM_def)
  show ?thesis
    using token_never_corrupt[OF s u h contract_reach.start refl e] s e by auto
qed

text \<open>
  C2: Every call to the token implements the abstract token: a call that fails leaves the state as
  it was, logs included, and a call that succeeds carried no value and made exactly one step of
  \<open>token_step\<close> on behalf of its caller.
\<close>

theorem token_refines_spec:
  assumes "token_message (env, caller, v, call) s = (res, t)"
  shows "case res of Inl _ \<Rightarrow> store t = store s | Inr _ \<Rightarrow> v = 0 \<and> token_step env caller (store s) (store t)"
proof (cases res)
  case (Inl e)
  then show ?thesis using ltoken.failed_call[of "(env, caller, v, call)" s e t] assms by simp
next
  case (Inr r)
  then show ?thesis using message_step assms by (simp del: token_message.simps)
qed

theorem token_refines_spec_witness:
  "\<exists>t. token_message (sample_token_env, 1, 0, transferCall 2 3) \<lparr>store = sample_token, budget = 9\<rparr> =
     (Inr (TBool True), t) \<and> token_step sample_token_env 1 sample_token (store t)"
proof -
  have "fst (token_message (sample_token_env, 1, 0, transferCall 2 3) \<lparr>store = sample_token, budget = 9\<rparr>) =
      Inr (TBool True)"
    by code_simp
  then obtain t where t: "token_message (sample_token_env, 1, 0, transferCall 2 3)
      \<lparr>store = sample_token, budget = 9\<rparr> = (Inr (TBool True), t)"
    unfolding fst_Inr_iff by blast
  with token_refines_spec[OF t] show ?thesis by simp
qed

text \<open>
  C4: \<open>canTransfer\<close> tells the truth: with gas for its three writes, a transfer succeeds if and
  only if the view answers true and the sender owns the amount.
\<close>

theorem transfer_iff_can_transfer:
  assumes "token_inv h (store s)" and "3 \<le> budget s"
  shows "fst (transfer env from to v s) = Inr () \<longleftrightarrow>
    fst (can_transfer env from to v s) = Inr True \<and> v \<le> balances (store s) from"
  using transfer_succeeds_iff[OF token_inv_parts(2)[OF assms(1)] assms(2)] unfrozen_le
  by (auto simp: can_transfer_True)

theorem transfer_iff_can_transfer_witness:
  "fst (transfer sample_token_env 1 2 3 \<lparr>store = sample_token, budget = 3\<rparr>) = Inr ()"
proof -
  have "fst (can_transfer sample_token_env 1 2 3 \<lparr>store = sample_token, budget = 3\<rparr>) = Inr True"
    "3 \<le> balances sample_token 1"
    by code_simp+
  then show ?thesis
    using transfer_iff_can_transfer[of toy_keccak "\<lparr>store = sample_token, budget = 3\<rparr>" sample_token_env 1 2 3]
      sample_token_inv by simp
qed

text \<open>
  C6: A delegated transfer of a consistent token moves exactly the amount. Between two accounts the owner
  loses it and the recipient gains it, without wrap-around; from an account to itself no balance changes; nobody
  else's balance changes. The amount was covered by the allowance and by the unfrozen balance. A finite allowance
  shrinks by the amount; the largest value stands for an unlimited allowance and is left as it is.
\<close>

theorem transfer_from_exact:
  assumes "token_inv h (store s)" and "transfer_from env spender from to v s = (Inr (), t)"
  shows "(if from = to then balances (store t) = balances (store s)
     else unat (balances (store t) from) + unat v = unat (balances (store s) from) \<and>
       unat (balances (store t) to) = unat (balances (store s) to) + unat v \<and>
       (\<forall>a. a \<notin> {from, to} \<longrightarrow> balances (store t) a = balances (store s) a)) \<and>
    (let k = allowance_key env from spender; al = allowances (store s) in
       v \<le> al k \<and> allowances (store t) = (if al k = - 1 then al else al(k := al k - v))) \<and>
    v \<le> balances (store s) from \<and>
    unat v + unat (frozen (store s) from) \<le> max (unat (balances (store s) from)) (unat (frozen (store s) from)) \<and>
    total_supply (store t) = total_supply (store s) \<and> frozen (store t) = frozen (store s)"
proof -
  note ok = transfer_from_ok[OF assms(2)]
  have "unat (balances (store s) from - v) + unat v = unat (balances (store s) from)"
    using unat_sub_exact[OF ok(9)] ok(9) by (simp add: word_le_nat_alt)
  moreover have "unat (balances (store s) to + v) = unat (balances (store s) to) + unat v" if "from \<noteq> to"
    using credit_fits[OF token_inv_parts(2)[OF assms(1)] ok(9) that] by (simp add: unat_add_exact)
  moreover have "unat v \<le> unat (balances (store s) from) - unat (frozen (store s) from)"
    using ok(10) by (simp add: word_le_nat_alt unfrozen_unat)
  ultimately show ?thesis
    using ok(8,9) by (auto simp: ok(11) moved_def spent_def Let_def)
qed

lemma sample_allowed_inv: "token_inv toy_keccak sample_allowed"
  by (rule token_inv_frame[OF sample_token_inv])
    (use token_inv_supply[OF sample_token_inv] in \<open>simp_all add: sample_allowed_def\<close>)

theorem transfer_from_exact_witness:
  "\<exists>t. transfer_from sample_token_env 5 1 2 4 \<lparr>store = sample_allowed, budget = 9\<rparr> = (Inr (), t) \<and>
     unat (balances (store t) 1) + 4 = 10"
proof -
  have "fst (transfer_from sample_token_env 5 1 2 4 \<lparr>store = sample_allowed, budget = 9\<rparr>) = Inr ()"
    by code_simp
  then obtain t where t: "transfer_from sample_token_env 5 1 2 4 \<lparr>store = sample_allowed, budget = 9\<rparr> = (Inr (), t)"
    unfolding fst_Inr_iff by blast
  have "balances sample_allowed 1 = 10" by (simp add: sample_allowed_def sample_token_def)
  then show ?thesis
    using transfer_from_exact[OF _ t, of toy_keccak] sample_allowed_inv t by simp
qed

text \<open>
  C5: Minting respects the cap, exactly. On consistent books and with gas for its three writes, a mint
  succeeds if and only if the caller is an issuer, the token is not paused, the recipient and the
  amount are not zero, the policy admits the recipient, and the new supply, as a number, is at most
  the cap. Then the supply and the recipient's balance grow by the amount.
\<close>

theorem mint_within_cap:
  assumes "token_inv h (store s)" and "3 \<le> budget s"
  shows "(fst (mint env actor to v s) = Inr () \<longleftrightarrow>
      \<not> paused (store s) \<and> roles (store s) (role_key env ISSUER_ROLE actor) \<and> to \<noteq> 0 \<and> v \<noteq> 0 \<and>
      policy_can_mint env (token_policy_id (store s)) to \<and>
      unat (total_supply (store s)) + unat v \<le> unat (supply_cap (store s))) \<and>
    (fst (mint env actor to v s) = Inr () \<longrightarrow>
      unat (total_supply (store (snd (mint env actor to v s)))) = unat (total_supply (store s)) + unat v \<and>
      unat (balances (store (snd (mint env actor to v s))) to) = unat (balances (store s) to) + unat v)"
proof -
  note l = token_inv_parts(1,2)[OF assms(1)]
  have "unat (total_supply (store t)) = unat (total_supply (store s)) + unat v \<and>
      unat (balances (store t) to) = unat (balances (store s) to) + unat v"
    if "mint env actor to v s = (Inr (), t)" for t
  proof -
    note core = mint_core_ok[OF mint_ok(4)[OF that]]
    show ?thesis
      using unat_add_exact[of "total_supply (store s)" v] unat_add_exact[of "balances (store s) to" v]
        core(4) mint_fits[OF l(2) core(4), of to] by (simp add: core(6))
  qed
  then show ?thesis
    using mint_succeeds_iff[OF l(2) assms(2), of env actor to v] l(1) by (auto simp: fst_Inr_iff)
qed

theorem mint_within_cap_witness:
  "fst (mint sample_token_env 1 2 990 \<lparr>store = sample_token, budget = 3\<rparr>) = Inr () \<and>
   fst (mint sample_token_env 1 2 991 \<lparr>store = sample_token, budget = 3\<rparr>) \<noteq> Inr ()"
proof -
  have "policy_can_mint sample_token_env (token_policy_id sample_token) 2" by code_simp
  moreover have "roles sample_token (role_key sample_token_env ISSUER_ROLE 1)"
    by (simp add: sample_token_def OPERATIONAL_ROLES_def)
  moreover have "\<not> paused sample_token" "total_supply sample_token = 10" "supply_cap sample_token = 1000"
    by (simp_all add: sample_token_def token_pristine_def)
  ultimately show ?thesis
    using mint_within_cap[of toy_keccak "\<lparr>store = sample_token, budget = 3\<rparr>" sample_token_env 1 2 990]
      mint_within_cap[of toy_keccak "\<lparr>store = sample_token, budget = 3\<rparr>" sample_token_env 1 2 991]
      sample_token_inv by simp
qed

text \<open>
  C8: A paused token stands still: no call, by anyone, with any role, changes a balance or the supply.
\<close>

theorem paused_token_stands_still:
  assumes "paused (store s)" and "token_message (env, caller, v, call) s = (r, t)"
  shows "balances (store t) = balances (store s) \<and> total_supply (store t) = total_supply (store s)"
proof (cases r)
  case (Inl e)
  then show ?thesis using ltoken.failed_call[of "(env, caller, v, call)" s e t] assms(2) by simp
next
  case (Inr x)
  then show ?thesis using step_paused[OF message_step(2)] assms by blast
qed

theorem paused_token_stands_still_witness:
  "\<exists>t. token_message (sample_token_env, 1, 0, unpauseCall)
      \<lparr>store = sample_token\<lparr>paused := True\<rparr>, budget = 9\<rparr> = (Inr TVoid, t) \<and>
     balances (store t) 1 = 10"
proof -
  let ?s = "\<lparr>store = sample_token\<lparr>paused := True\<rparr>, budget = 9\<rparr>"
  have "fst (token_message (sample_token_env, 1, 0, unpauseCall) ?s) = Inr TVoid" by code_simp
  then obtain t where t: "token_message (sample_token_env, 1, 0, unpauseCall) ?s = (Inr TVoid, t)"
    unfolding fst_Inr_iff by blast
  moreover have "balances sample_token 1 = 10" by (simp add: sample_token_def)
  ultimately show ?thesis
    using paused_token_stands_still[of ?s sample_token_env 1 0 unpauseCall "Inr TVoid" t] by simp
qed

lemma accept_admin_transfer_sets:
  "accept_admin_transfer env a s = (Inr u, t) \<Longrightarrow> token_admin (store t) = a"
  by (auto simp: accept_admin_transfer_def token_writes prog_ok split: if_splits)

text \<open>
  C7: Every accepted permit uses up a nonce of its own. When two permits of one owner are accepted, one in a
  state that the token reaches after the other, whatever calls were made in between and whatever the signatures,
  each was signed over the nonce stored at its time, and the second nonce is larger. An accepted permit is not past
  its deadline and sets the allowance to its value.
\<close>

theorem permit_nonce_used_once:
  assumes "permit env owner spender v deadline rv r x s = (Inr (), t)"
    and "contract_reach token_message (\<lambda>_. True) (store t) c"
    and "permit env' owner spender' v' deadline' rv' r' x' \<lparr>store = c, budget = b\<rparr> = (Inr (), t')"
  shows "permit_signer env (permit_digest env (separator_of env (store s)) owner spender v
       (nonces (store s) owner) deadline) rv r x = Some owner \<and>
     permit_signer env' (permit_digest env' (separator_of env' c) owner spender' v' (nonces c owner) deadline') rv' r' x' =
       Some owner \<and>
     unat (nonces (store s) owner) < unat (nonces c owner) \<and>
     env_timestamp env \<le> deadline \<and> allowances (store t) (allowance_key env owner spender) = v"
proof -
  note first = permit_ok[OF assms(1)]
  have "unat (nonces (store t) owner) = unat (nonces (store s) owner) + 1"
    using first(7) unat_add_exact[of "nonces (store s) owner" 1] by (simp add: first(8))
  moreover have "unat (nonces (store t) owner) \<le> unat (nonces c owner)"
    using reach_nonces[OF assms(2)] by blast
  ultimately show ?thesis
    using first(4,5) permit_ok(5)[OF assms(3)] by (simp add: first(8))
qed

text \<open>
  C9: Administration changes hands in two steps only. When a call changes the administrator, it is the
  pending candidate who made it, and nobody is pending afterwards. When a call names a new candidate,
  it is the administrator who made it.
\<close>

theorem admin_changes_by_acceptance:
  assumes "token_message (env, caller, v, call) s = (r, t)"
  shows "(token_admin (store t) \<noteq> token_admin (store s) \<longrightarrow>
      caller = token_pending_admin (store s) \<and> caller \<noteq> 0 \<and> token_admin (store t) = caller \<and>
      token_pending_admin (store t) = 0) \<and>
    (token_pending_admin (store t) \<notin> {0, token_pending_admin (store s)} \<longrightarrow>
      caller = token_admin (store s))"
proof (cases r)
  case (Inl e)
  then show ?thesis using ltoken.failed_call[of "(env, caller, v, call)" s e t] assms by simp
next
  case (Inr x)
  then have "token_step env caller (store s) (store t)" using message_step(2) assms by blast
  then show ?thesis using step_admin step_pending by blast
qed

theorem admin_changes_by_acceptance_witness:
  "\<exists>t. token_message (sample_token_env, 2, 0, acceptAdminTransferCall)
      \<lparr>store = sample_admin_change, budget = 9\<rparr> = (Inr TVoid, t) \<and> token_admin (store t) = 2"
proof -
  let ?s = "\<lparr>store = sample_admin_change, budget = 9\<rparr>"
  have adm: "token_admin sample_token = 1" by (simp add: sample_token_def)
  have "roles sample_token (role_key sample_token_env ADMIN_ROLE a) \<longleftrightarrow> a = 1" for a
    using sample_token_inv adm by (simp add: token_inv_def admin_inv_def role_key_def sample_token_env_def)
  then have "\<exists>t. accept_admin_transfer sample_token_env 2 ?s = (Inr (), t)"
    using adm sample_token_inv
    by (simp add: accept_admin_transfer_def token_writes prog_ok sample_admin_change_def token_inv_def live_def)
  then obtain t where a: "accept_admin_transfer sample_token_env 2 ?s = (Inr (), t)" by blast
  then have t: "token_message (sample_token_env, 2, 0, acceptAdminTransferCall) ?s = (Inr TVoid, t)"
    by (simp add: token_dispatch_def thenM_def prog_ok)
  from accept_admin_transfer_sets[OF a]
  have "token_admin (store t) \<noteq> token_admin (store ?s)"
    by (simp add: sample_admin_change_def sample_token_def)
  with admin_changes_by_acceptance[OF t] have "token_admin (store t) = 2" by blast
  with t show ?thesis by blast
qed

text \<open>
  C10: Frozen tokens stay covered: as long as a call does not raise the frozen amount of an account,
  a balance that covers it before the call covers it afterwards. Transfers, delegated transfers and
  delegated burns cannot dip into frozen tokens; a forced transfer or a burn by the issuer thaws
  what it takes.
\<close>

theorem frozen_stays_covered:
  assumes "token_inv h (store s)" and "token_message (env, caller, v, call) s = (r, t)"
    and "frozen (store s) a \<le> balances (store s) a" and "frozen (store t) a \<le> frozen (store s) a"
  shows "frozen (store t) a \<le> balances (store t) a"
proof (cases r)
  case (Inl e)
  then show ?thesis using ltoken.failed_call[of "(env, caller, v, call)" s e t] assms(2,3) by simp
next
  case (Inr x)
  then have "token_step env caller (store s) (store t)" using message_step(2) assms(2) by blast
  then show ?thesis using step_covered[OF _ token_inv_parts(2)[OF assms(1)] assms(3,4)] by blast
qed

lemma sample_frozen_inv: "token_inv toy_keccak sample_frozen"
  by (rule token_inv_frame[OF sample_token_inv])
    (use token_inv_supply[OF sample_token_inv] in \<open>simp_all add: sample_frozen_def\<close>)

theorem frozen_stays_covered_witness:
  "\<exists>t. token_message (sample_token_env, 1, 0, transferCall 2 6) \<lparr>store = sample_frozen, budget = 9\<rparr> =
     (Inr (TBool True), t) \<and> frozen (store t) 1 \<le> balances (store t) 1"
proof -
  let ?s = "\<lparr>store = sample_frozen, budget = 9\<rparr>"
  have "fst (token_message (sample_token_env, 1, 0, transferCall 2 6) ?s) = Inr (TBool True)"
    by code_simp
  then obtain t where t: "token_message (sample_token_env, 1, 0, transferCall 2 6) ?s = (Inr (TBool True), t)"
    unfolding fst_Inr_iff by blast
  then have "transfer sample_token_env 1 2 6 ?s = (Inr (), t)"
    by (auto simp: token_dispatch_def thenM_def prog_ok)
  from transfer_ok(9)[OF this] have "frozen (store t) = frozen sample_frozen" by simp
  moreover have "frozen sample_frozen 1 \<le> balances sample_frozen 1"
    by (simp add: sample_frozen_def sample_token_def)
  ultimately show ?thesis
    using frozen_stays_covered[OF _ t, of toy_keccak 1] sample_frozen_inv t by simp
qed

theorem permit_nonce_used_once_witness:
  "\<exists>t t'. permit lenient_env 7 3 5 9 27 1 1 \<lparr>store = sample_token, budget = 9\<rparr> = (Inr (), t) \<and>
     permit lenient_env 7 3 8 9 28 2 1 \<lparr>store = store t, budget = 9\<rparr> = (Inr (), t') \<and>
     unat (nonces sample_token 7) < unat (nonces (store t) 7)"
proof -
  have signer: "permit_signer lenient_env d 27 1 1 = Some 7" "permit_signer lenient_env d 28 2 1 = Some 7" for d
    by (simp_all add: permit_signer_def Let_def lenient_env_def sample_token_env_def) code_simp+
  have fresh: "live sample_token" "nonces sample_token 7 = 0" "frozen sample_token 7 = 0"
    by (simp_all add: live_def sample_token_def token_pristine_def)
  then have "fst (permit lenient_env 7 3 5 9 27 1 1 \<lparr>store = sample_token, budget = 9\<rparr>) = Inr ()"
    unfolding fst_Inr_iff
    by (simp add: permit_def write_approval_def token_writes prog_ok signer)
      (simp add: lenient_env_def sample_token_env_def)
  then obtain t where t: "permit lenient_env 7 3 5 9 27 1 1 \<lparr>store = sample_token, budget = 9\<rparr> = (Inr (), t)"
    unfolding fst_Inr_iff by blast
  from permit_ok(8)[OF t] fresh have "live (store t)" "nonces (store t) 7 = 1" "frozen (store t) 7 = 0"
    by (simp_all add: live_def)
  then have "fst (permit lenient_env 7 3 8 9 28 2 1 \<lparr>store = store t, budget = 9\<rparr>) = Inr ()"
    unfolding fst_Inr_iff
    by (simp add: permit_def write_approval_def token_writes prog_ok signer)
      (simp add: lenient_env_def sample_token_env_def)
  then obtain t' where t': "permit lenient_env 7 3 8 9 28 2 1 \<lparr>store = store t, budget = 9\<rparr> = (Inr (), t')"
    unfolding fst_Inr_iff by blast
  from permit_nonce_used_once[OF t contract_reach.start t'] t t' show ?thesis by auto
qed

end
