(* ===== verification/Peer_Address.thy ===== *)
theory Peer_Address
  imports Stablecoin_Payload
begin

text \<open>
  \<open>primitives/src/consensus_p2p.rs\<close>: the versioned byte codec of the peer addresses validators publish.

  A Rust \<open>String\<close> is the list of its UTF-8 bytes, an \<open>Ipv4Addr\<close> and an \<open>Ipv6Addr\<close> the word of their
  octets in network order. The cursor's \<open>usize\<close> offset is a natural number: it never passes the length
  of a slice in memory, so its \<open>checked_add\<close> never overflows. The result of the theory is that the
  decoder accepts exactly the encodings of well-formed addresses.
\<close>

section \<open>Addresses\<close>

datatype IpAddr = V4 u32 | V6 u128

text \<open>An IPv6 socket address also has a flow label and a scope identifier; \<open>SocketAddr::new\<close> sets both to 0.\<close>

datatype SocketAddr =
    SocketAddrV4 u32 u16
  | SocketAddrV6 u128 u16 u32 u32

fun SocketAddr_new :: "IpAddr \<Rightarrow> u16 \<Rightarrow> SocketAddr" where
  "SocketAddr_new (V4 ip) port = SocketAddrV4 ip port"
| "SocketAddr_new (V6 ip) port = SocketAddrV6 ip port 0 0"

datatype P2pIngress = Socket SocketAddr | Dns bytes u16

datatype P2pAddress = Symmetric SocketAddr | Asymmetric P2pIngress SocketAddr

datatype P2pAddressError =
    UnsupportedVersion u8
  | TooLarge nat nat
  | Truncated
  | TrailingBytes
  | InvalidAddressKind u8
  | InvalidIngressKind u8
  | InvalidIpKind u8
  | ZeroPort
  | InvalidHostname

definition P2P_ADDRESS_VERSION_V1 :: u8 where
  "P2P_ADDRESS_VERSION_V1 = 1"

definition MAX_P2P_ADDRESS_ENCODED_LEN :: nat where
  "MAX_P2P_ADDRESS_ENCODED_LEN = 512"

definition ADDR_SYMMETRIC :: u8 where
  "ADDR_SYMMETRIC = 0"

definition ADDR_ASYMMETRIC :: u8 where
  "ADDR_ASYMMETRIC = 1"

definition INGRESS_SOCKET :: u8 where
  "INGRESS_SOCKET = 0"

definition INGRESS_DNS :: u8 where
  "INGRESS_DNS = 1"

definition IP_V4 :: u8 where
  "IP_V4 = 4"

definition IP_V6 :: u8 where
  "IP_V6 = 6"

section \<open>Encoding\<close>

definition to_be_bytes :: "u16 \<Rightarrow> bytes" where
  "to_be_bytes w = be_bytes 2 (uint w)"

fun encode_socket :: "SocketAddr \<Rightarrow> bytes" where
  "encode_socket (SocketAddrV4 ip port) = IP_V4 # be_bytes 4 (uint ip) @ to_be_bytes port"
| "encode_socket (SocketAddrV6 ip port flowinfo scope_id) = IP_V6 # be_bytes 16 (uint ip) @ to_be_bytes port"

text \<open>The host length is cast with \<open>as u16\<close>, which wraps.\<close>

fun encode_ingress :: "P2pIngress \<Rightarrow> bytes" where
  "encode_ingress (Socket socket) = INGRESS_SOCKET # encode_socket socket"
| "encode_ingress (Dns host port) =
     INGRESS_DNS # to_be_bytes (word_of_nat (length host)) @ host @ to_be_bytes port"

fun encode_v1 :: "P2pAddress \<Rightarrow> bytes" where
  "encode_v1 (Symmetric socket) = ADDR_SYMMETRIC # encode_socket socket"
| "encode_v1 (Asymmetric ingress egress) =
     ADDR_ASYMMETRIC # encode_ingress ingress @ encode_socket egress"

section \<open>Decoding\<close>

record Cursor =
  cursor_bytes :: bytes
  cursor_offset :: nat

type_synonym 'a reader = "Cursor \<Rightarrow> P2pAddressError + 'a \<times> Cursor"

definition Cursor_new :: "bytes \<Rightarrow> Cursor" where
  "Cursor_new bs = \<lparr>cursor_bytes = bs, cursor_offset = 0\<rparr>"

definition is_finished :: "Cursor \<Rightarrow> bool" where
  "is_finished c \<longleftrightarrow> cursor_offset c = length (cursor_bytes c)"

definition read_u8 :: "u8 reader" where
  "read_u8 c =
     (if cursor_offset c < length (cursor_bytes c)
      then Inr (cursor_bytes c ! cursor_offset c, c\<lparr>cursor_offset := cursor_offset c + 1\<rparr>)
      else Inl Truncated)"

definition read_exact :: "nat \<Rightarrow> bytes reader" where
  "read_exact len c =
     (let stop = cursor_offset c + len in
      if stop \<le> length (cursor_bytes c)
      then Inr (take len (drop (cursor_offset c) (cursor_bytes c)), c\<lparr>cursor_offset := stop\<rparr>)
      else Inl Truncated)"

definition read_u16 :: "u16 reader" where
  "read_u16 c = andThen (read_exact 2 c) (\<lambda>(bs, c). Inr (word_of_int (be_int bs), c))"

definition read_socket :: "SocketAddr reader" where
  "read_socket c =
     andThen (read_u8 c) (\<lambda>(ip_kind, c).
     andThen
       (if ip_kind = IP_V4 then
          andThen (read_exact 4 c) (\<lambda>(bs, c). Inr (V4 (word_of_int (be_int bs)), c))
        else if ip_kind = IP_V6 then
          andThen (read_exact 16 c) (\<lambda>(bs, c). Inr (V6 (word_of_int (be_int bs)), c))
        else Inl (InvalidIpKind ip_kind)) (\<lambda>(ip, c).
     andThen (read_u16 c) (\<lambda>(port, c).
     if port = 0 then Inl ZeroPort else Inr (SocketAddr_new ip port, c))))"

fun split_on :: "'a \<Rightarrow> 'a list \<Rightarrow> 'a list list" where
  "split_on d [] = [[]]"
| "split_on d (x # xs) =
     (if x = d then [] # split_on d xs
      else case split_on d xs of [] \<Rightarrow> [[x]] | l # ls \<Rightarrow> (x # l) # ls)"

definition is_ascii_alphanumeric :: "u8 \<Rightarrow> bool" where
  "is_ascii_alphanumeric b \<longleftrightarrow>
     48 \<le> b \<and> b \<le> 57 \<or> 65 \<le> b \<and> b \<le> 90 \<or> 97 \<le> b \<and> b \<le> 122"

definition validate_label :: "bytes \<Rightarrow> P2pAddressError + unit" where
  "validate_label label =
     (if label = [] \<or> 63 < length label then Inl InvalidHostname
      else if hd label = 45 \<or> last label = 45 then Inl InvalidHostname
      else if \<not> list_all (\<lambda>b. is_ascii_alphanumeric b \<or> b = 45) label then Inl InvalidHostname
      else Inr ())"

fun validate_labels :: "bytes list \<Rightarrow> P2pAddressError + unit" where
  "validate_labels [] = Inr ()"
| "validate_labels (label # labels) = andThen (validate_label label) (\<lambda>_. validate_labels labels)"

definition validate_hostname :: "bytes \<Rightarrow> P2pAddressError + unit" where
  "validate_hostname host =
     (if host = [] \<or> 253 < length host then Inl InvalidHostname
      else validate_labels (split_on 46 host))"

definition read_ingress :: "P2pIngress reader" where
  "read_ingress c =
     andThen (read_u8 c) (\<lambda>(kind, c).
     if kind = INGRESS_SOCKET then andThen (read_socket c) (\<lambda>(s, c). Inr (Socket s, c))
     else if kind = INGRESS_DNS then
       andThen (read_u16 c) (\<lambda>(host_len, c).
       andThen (read_exact (unat host_len) c) (\<lambda>(host, c).
       andThen (if utf8_valid host then Inr () else Inl InvalidHostname) (\<lambda>_.
       andThen (validate_hostname host) (\<lambda>_.
       andThen (read_u16 c) (\<lambda>(port, c).
       if port = 0 then Inl ZeroPort else Inr (Dns host port, c))))))
     else Inl (InvalidIngressKind kind))"

definition validate_len :: "bytes \<Rightarrow> P2pAddressError + unit" where
  "validate_len payload =
     (if MAX_P2P_ADDRESS_ENCODED_LEN < length payload
      then Inl (TooLarge (length payload) MAX_P2P_ADDRESS_ENCODED_LEN) else Inr ())"

definition decode_v1 :: "bytes \<Rightarrow> P2pAddressError + P2pAddress" where
  "decode_v1 payload =
     andThen (validate_len payload) (\<lambda>_.
     andThen (read_u8 (Cursor_new payload)) (\<lambda>(kind, c).
     andThen
       (if kind = ADDR_SYMMETRIC then andThen (read_socket c) (\<lambda>(s, c). Inr (Symmetric s, c))
        else if kind = ADDR_ASYMMETRIC then
          andThen (read_ingress c) (\<lambda>(ingress, c).
          andThen (read_socket c) (\<lambda>(egress, c). Inr (Asymmetric ingress egress, c)))
        else Inl (InvalidAddressKind kind)) (\<lambda>(address, c).
     if is_finished c then Inr address else Inl TrailingBytes)))"

definition decode_versioned :: "u8 \<Rightarrow> bytes \<Rightarrow> P2pAddressError + P2pAddress" where
  "decode_versioned version payload =
     (if version \<noteq> P2P_ADDRESS_VERSION_V1 then Inl (UnsupportedVersion version) else decode_v1 payload)"

definition validate_versioned :: "u8 \<Rightarrow> bytes \<Rightarrow> P2pAddressError + unit" where
  "validate_versioned version payload = andThen (decode_versioned version payload) (\<lambda>_. Inr ())"

section \<open>Well-formed addresses\<close>

text \<open>What a published address may be, with no reference to the parser: a host is a sequence of labels
  of letters, digits and inner hyphens, joined by dots.\<close>

fun join_with :: "'a \<Rightarrow> 'a list list \<Rightarrow> 'a list" where
  "join_with d [] = []"
| "join_with d [l] = l"
| "join_with d (l # ls) = l @ d # join_with d ls"

definition host_label :: "bytes \<Rightarrow> bool" where
  "host_label l \<longleftrightarrow> l \<noteq> [] \<and> length l \<le> 63 \<and> hd l \<noteq> 45 \<and> last l \<noteq> 45 \<and>
     (\<forall>b \<in> set l. is_ascii_alphanumeric b \<or> b = 45)"

definition valid_host :: "bytes \<Rightarrow> bool" where
  "valid_host h \<longleftrightarrow> length h \<le> 253 \<and>
     (\<exists>ls. ls \<noteq> [] \<and> (\<forall>l \<in> set ls. host_label l) \<and> h = join_with 46 ls)"

fun valid_socket :: "SocketAddr \<Rightarrow> bool" where
  "valid_socket (SocketAddrV4 ip port) \<longleftrightarrow> port \<noteq> 0"
| "valid_socket (SocketAddrV6 ip port flowinfo scope_id) \<longleftrightarrow> port \<noteq> 0 \<and> flowinfo = 0 \<and> scope_id = 0"

fun valid_ingress :: "P2pIngress \<Rightarrow> bool" where
  "valid_ingress (Socket s) \<longleftrightarrow> valid_socket s"
| "valid_ingress (Dns host port) \<longleftrightarrow> valid_host host \<and> port \<noteq> 0"

fun valid_p2p :: "P2pAddress \<Rightarrow> bool" where
  "valid_p2p (Symmetric s) \<longleftrightarrow> valid_socket s"
| "valid_p2p (Asymmetric i e) \<longleftrightarrow> valid_ingress i \<and> valid_socket e"

text \<open>\<open>consumes c v c'\<close>: reading from \<open>c\<close> took exactly the bytes \<open>v\<close> and left the cursor at \<open>c'\<close>.\<close>

definition consumes :: "Cursor \<Rightarrow> bytes \<Rightarrow> Cursor \<Rightarrow> bool" where
  "consumes c v c' \<longleftrightarrow> cursor_bytes c' = cursor_bytes c \<and> cursor_offset c' = cursor_offset c + length v \<and>
     cursor_offset c' \<le> length (cursor_bytes c) \<and>
     take (length v) (drop (cursor_offset c) (cursor_bytes c)) = v"

section \<open>The cursor\<close>

lemma consumes_append: "consumes c (v @ w) d \<longleftrightarrow> (\<exists>m. consumes c v m \<and> consumes m w d)"
proof
  assume a: "consumes c (v @ w) d"
  then have "take (length v) (drop (cursor_offset c) (cursor_bytes c)) = v"
    and "take (length w) (drop (length v) (drop (cursor_offset c) (cursor_bytes c))) = w"
    unfolding consumes_def by (metis append_eq_conv_conj length_append take_add take_take min.absorb1 le_add1)+
  with a have "consumes c v (c\<lparr>cursor_offset := cursor_offset c + length v\<rparr>) \<and>
     consumes (c\<lparr>cursor_offset := cursor_offset c + length v\<rparr>) w d"
    by (simp add: consumes_def add.commute add.left_commute)
  then show "\<exists>m. consumes c v m \<and> consumes m w d" by blast
next
  assume "\<exists>m. consumes c v m \<and> consumes m w d"
  then show "consumes c (v @ w) d"
    by (auto simp: consumes_def take_add add.commute add.left_commute)
qed

lemma consumes_Cons: "consumes c (b # w) d \<longleftrightarrow> (\<exists>m. consumes c [b] m \<and> consumes m w d)"
  using consumes_append [of c "[b]" w d] by simp

lemma read_u8_iff: "read_u8 c = Inr (b, d) \<longleftrightarrow> consumes c [b] d"
  by (auto simp: read_u8_def consumes_def take_Suc_conv_app_nth Cons_nth_drop_Suc [symmetric] intro!: Cursor.equality)

lemma read_exact_iff: "read_exact n c = Inr (v, d) \<longleftrightarrow> length v = n \<and> consumes c v d"
  by (auto simp: read_exact_def consumes_def Let_def intro!: Cursor.equality)

lemma two_256: "8 * n = m \<Longrightarrow> (2::int) ^ m = 256 ^ n"
  by (auto simp: power_mult)

lemma be_word_eq:
  fixes w :: "'w::len word"
  assumes "8 * n = LENGTH('w)"
  shows "length bs = n \<and> w = word_of_int (be_int bs) \<longleftrightarrow> bs = be_bytes n (uint w)"
proof
  assume a: "length bs = n \<and> w = word_of_int (be_int bs)"
  then have "uint w = be_int bs"
    using be_int_bound [of bs] two_256 [OF assms] by (simp add: uint_word_of_int)
  with a show "bs = be_bytes n (uint w)" using be_bytes_be_int [of bs] by simp
next
  assume "bs = be_bytes n (uint w)"
  moreover have "uint w mod 256 ^ n = uint w"
    using unsigned_less [of w] unfolding two_256 [OF assms, symmetric] by (simp add: mod_pos_pos_trivial)
  ultimately show "length bs = n \<and> w = word_of_int (be_int bs)" by (simp add: be_int_be_bytes)
qed

lemma be_word_iff:
  fixes w :: "'w::len word"
  assumes "8 * n = LENGTH('w)"
  shows "(\<exists>bs. length bs = n \<and> consumes c bs d \<and> w = word_of_int (be_int bs)) \<longleftrightarrow>
     consumes c (be_bytes n (uint w)) d"
  using be_word_eq [OF assms] by metis

lemma if_Inr: "(if b then x else y) = Inr z \<longleftrightarrow> b \<and> x = Inr z \<or> \<not> b \<and> y = Inr z"
  by simp

lemma read_u16_iff: "read_u16 c = Inr (w, d) \<longleftrightarrow> consumes c (to_be_bytes w) d"
  using be_word_iff [of 2 c d w] by (auto simp: read_u16_def read_exact_iff to_be_bytes_def)

lemma kind_tags: "IP_V6 \<noteq> IP_V4" "INGRESS_DNS \<noteq> INGRESS_SOCKET" "ADDR_ASYMMETRIC \<noteq> ADDR_SYMMETRIC"
  by (simp_all add: IP_V4_def IP_V6_def INGRESS_SOCKET_def INGRESS_DNS_def ADDR_SYMMETRIC_def ADDR_ASYMMETRIC_def)

lemma tag_conj:
  "k \<noteq> IP_V4 \<and> k = IP_V6 \<and> P \<longleftrightarrow> k = IP_V6 \<and> P"
  "k \<noteq> INGRESS_SOCKET \<and> k = INGRESS_DNS \<and> P \<longleftrightarrow> k = INGRESS_DNS \<and> P"
  "k \<noteq> ADDR_SYMMETRIC \<and> k = ADDR_ASYMMETRIC \<and> P \<longleftrightarrow> k = ADDR_ASYMMETRIC \<and> P"
  using kind_tags by auto

lemma read_ip_iff:
  "(\<exists>bs. length bs = 4 \<and> consumes c bs d \<and> V4 (word_of_int (be_int bs)) = ip) \<longleftrightarrow>
   (\<exists>w. ip = V4 w \<and> consumes c (be_bytes 4 (uint w)) d)"
  "(\<exists>bs. length bs = 16 \<and> consumes c bs d \<and> V6 (word_of_int (be_int bs)) = ip) \<longleftrightarrow>
   (\<exists>w. ip = V6 w \<and> consumes c (be_bytes 16 (uint w)) d)"
  by (auto simp: be_word_iff [of 4, symmetric] be_word_iff [of 16, symmetric])

lemma SocketAddr_new_iff:
  "SocketAddr_new ip p = SocketAddrV4 w q \<longleftrightarrow> ip = V4 w \<and> p = q"
  "SocketAddr_new ip p = SocketAddrV6 v q f i \<longleftrightarrow> ip = V6 v \<and> p = q \<and> f = 0 \<and> i = 0"
  by (cases ip; auto)+

lemma read_socket_iff: "read_socket c = Inr (s, d) \<longleftrightarrow> valid_socket s \<and> consumes c (encode_socket s) d"
proof -
  have "read_socket c = Inr (s, d) \<longleftrightarrow> (\<exists>k m ip m' port. consumes c [k] m \<and>
      (k = IP_V4 \<and> (\<exists>bs. length bs = 4 \<and> consumes m bs m' \<and> V4 (word_of_int (be_int bs)) = ip) \<or>
       k = IP_V6 \<and> (\<exists>bs. length bs = 16 \<and> consumes m bs m' \<and> V6 (word_of_int (be_int bs)) = ip)) \<and>
      consumes m' (to_be_bytes port) d \<and> port \<noteq> 0 \<and> SocketAddr_new ip port = s)"
    by (simp add: read_socket_def read_u8_iff read_exact_iff read_u16_iff if_Inr tag_conj)
  also have "\<dots> \<longleftrightarrow> valid_socket s \<and> consumes c (encode_socket s) d"
    unfolding read_ip_iff
    by (cases s) (auto simp: SocketAddr_new_iff consumes_append consumes_Cons [of c IP_V4 "v @ w" for v w] consumes_Cons [of c IP_V6 "v @ w" for v w])
  finally show ?thesis .
qed

section \<open>Host names\<close>

lemma split_on_nonempty [simp]: "split_on d xs \<noteq> []"
  by (induction xs) (auto split: list.splits)

lemma join_split: "join_with d (split_on d xs) = xs"
proof (induction xs)
  case (Cons x xs)
  show ?case
  proof (cases "x = d")
    case True
    then show ?thesis using Cons by (cases "split_on d xs") simp_all
  next
    case False
    then obtain l ls where "split_on d xs = l # ls" by (cases "split_on d xs") simp_all
    with Cons False show ?thesis by (cases ls) auto
  qed
qed simp

lemma split_on_none: "d \<notin> set l \<Longrightarrow> split_on d l = [l]"
  by (induction l) auto

lemma split_on_append: "d \<notin> set l \<Longrightarrow> split_on d (l @ d # ys) = l # split_on d ys"
  by (induction l) auto

lemma split_join: "ls \<noteq> [] \<Longrightarrow> (\<And>l. l \<in> set ls \<Longrightarrow> d \<notin> set l) \<Longrightarrow> split_on d (join_with d ls) = ls"
  by (induction d ls rule: join_with.induct) (auto simp: split_on_none split_on_append)

lemma validate_label_iff: "validate_label l = Inr () \<longleftrightarrow> host_label l"
  by (auto simp: validate_label_def host_label_def list_all_iff)

lemma validate_labels_iff: "validate_labels ls = Inr () \<longleftrightarrow> (\<forall>l \<in> set ls. host_label l)"
  by (induction ls) (auto simp: validate_label_iff)

lemma host_label_no_dot: "host_label l \<Longrightarrow> 46 \<notin> set l"
  by (auto simp: host_label_def is_ascii_alphanumeric_def)

lemma validate_hostname_iff: "validate_hostname h = Inr () \<longleftrightarrow> valid_host h"
proof
  assume "validate_hostname h = Inr ()"
  then show "valid_host h"
    unfolding validate_hostname_def valid_host_def
    by (auto simp: validate_labels_iff join_split split: if_splits intro!: exI [of _ "split_on 46 h"])
next
  assume "valid_host h"
  then obtain ls where len: "length h \<le> 253" and ls: "ls \<noteq> []" "\<forall>l \<in> set ls. host_label l" and h: "h = join_with 46 ls"
    by (auto simp: valid_host_def)
  then have "split_on 46 h = ls" using split_join host_label_no_dot by metis
  moreover have "h \<noteq> []" using ls h by (cases ls; cases "tl ls") (auto simp: host_label_def)
  ultimately show "validate_hostname h = Inr ()"
    using len ls(2) by (simp add: validate_hostname_def validate_labels_iff)
qed

lemma utf8_valid_ascii: "(\<And>b. b \<in> set bs \<Longrightarrow> unat b < 128) \<Longrightarrow> utf8_valid bs"
  unfolding utf8_valid_def by (induction bs) auto

lemma label_byte_ascii: "is_ascii_alphanumeric b \<or> b = 45 \<Longrightarrow> unat b < 128"
  by (auto simp: is_ascii_alphanumeric_def word_le_nat_alt)

lemma set_join_with: "set (join_with d ls) \<subseteq> insert d (\<Union> (set ` set ls))"
  by (induction d ls rule: join_with.induct) auto

lemma valid_host_utf8: "valid_host h \<Longrightarrow> utf8_valid h"
proof (rule utf8_valid_ascii)
  fix b assume v: "valid_host h" and b: "b \<in> set h"
  from v obtain ls where "\<forall>l \<in> set ls. host_label l" "h = join_with 46 ls" by (auto simp: valid_host_def)
  with b set_join_with [of 46 ls] have "b = 46 \<or> is_ascii_alphanumeric b \<or> b = 45"
    by (auto simp: host_label_def)
  then show "unat b < 128" using label_byte_ascii by fastforce
qed

lemma valid_host_length: "valid_host h \<Longrightarrow> length h \<le> 253"
  by (simp add: valid_host_def)

section \<open>The codec\<close>

lemma read_dns_iff:
  "(\<exists>n m. consumes c (to_be_bytes n) m \<and> length h = unat n \<and> consumes m h d) \<and> length h \<le> 253 \<longleftrightarrow>
   length h \<le> 253 \<and> consumes c (to_be_bytes (word_of_nat (length h)) @ h) d"
proof (cases "length h \<le> 253")
  case True
  then have "length h = unat n \<longleftrightarrow> n = word_of_nat (length h)" for n :: u16
    by (auto simp: unat_of_nat_exact)
  then show ?thesis by (auto simp: consumes_append)
qed simp

lemma read_ingress_iff: "read_ingress c = Inr (i, d) \<longleftrightarrow> valid_ingress i \<and> consumes c (encode_ingress i) d"
proof -
  have "read_ingress c = Inr (i, d) \<longleftrightarrow> (\<exists>k m. consumes c [k] m \<and>
      (k = INGRESS_SOCKET \<and> (\<exists>s. valid_socket s \<and> consumes m (encode_socket s) d \<and> Socket s = i) \<or>
       k = INGRESS_DNS \<and> (\<exists>n m' h m'' port. consumes m (to_be_bytes n) m' \<and> length h = unat n \<and>
         consumes m' h m'' \<and> utf8_valid h \<and> valid_host h \<and> consumes m'' (to_be_bytes port) d \<and>
         port \<noteq> 0 \<and> Dns h port = i)))"
    by (simp add: read_ingress_def read_u8_iff read_u16_iff read_exact_iff read_socket_iff validate_hostname_iff
        if_Inr tag_conj)
  also have "\<dots> \<longleftrightarrow> valid_ingress i \<and> consumes c (encode_ingress i) d"
  proof (cases i)
    case (Dns h port)
    then show ?thesis
      using read_dns_iff [where h = h] valid_host_utf8 [of h] valid_host_length [of h]
      by (simp add: consumes_append consumes_Cons [of c INGRESS_DNS "v @ w" for v w]) blast
  qed (auto simp: consumes_Cons [of c INGRESS_SOCKET "encode_socket s" for s])
  finally show ?thesis .
qed

lemma encode_socket_length: "length (encode_socket s) \<le> 19"
  by (cases s) (simp_all add: to_be_bytes_def)

lemma encode_ingress_length: "valid_ingress i \<Longrightarrow> length (encode_ingress i) \<le> 258"
proof (cases i)
  case (Socket s)
  then show ?thesis using encode_socket_length [of s] by simp
next
  case (Dns h port)
  moreover assume "valid_ingress i"
  ultimately show ?thesis using valid_host_length [of h] by (simp add: to_be_bytes_def)
qed

lemma encode_v1_length: "valid_p2p a \<Longrightarrow> length (encode_v1 a) \<le> 278"
proof (cases a)
  case (Symmetric s)
  then show ?thesis using encode_socket_length [of s] by simp
next
  case (Asymmetric i e)
  moreover assume "valid_p2p a"
  ultimately show ?thesis using encode_socket_length [of e] encode_ingress_length [of i] by simp
qed

lemma consumes_all: "consumes (Cursor_new bs) v d \<and> is_finished d \<longleftrightarrow> v = bs \<and> d = \<lparr>cursor_bytes = bs, cursor_offset = length bs\<rparr>"
  by (auto simp: consumes_def Cursor_new_def is_finished_def intro!: Cursor.equality)

lemma decode_v1_iff: "decode_v1 bs = Inr a \<longleftrightarrow> valid_p2p a \<and> bs = encode_v1 a"
proof -
  have "decode_v1 bs = Inr a \<longleftrightarrow> length bs \<le> 512 \<and> (\<exists>k m d. consumes (Cursor_new bs) [k] m \<and>
      (k = ADDR_SYMMETRIC \<and> (\<exists>s. valid_socket s \<and> consumes m (encode_socket s) d \<and> Symmetric s = a) \<or>
       k = ADDR_ASYMMETRIC \<and> (\<exists>i m' e. valid_ingress i \<and> consumes m (encode_ingress i) m' \<and>
         valid_socket e \<and> consumes m' (encode_socket e) d \<and> Asymmetric i e = a)) \<and> is_finished d)"
    by (simp add: decode_v1_def validate_len_def MAX_P2P_ADDRESS_ENCODED_LEN_def read_u8_iff
        read_socket_iff read_ingress_iff if_Inr tag_conj not_less)
  also have "\<dots> \<longleftrightarrow> length bs \<le> 512 \<and>
      (\<exists>d. valid_p2p a \<and> consumes (Cursor_new bs) (encode_v1 a) d \<and> is_finished d)"
    by (cases a) (auto simp: consumes_append consumes_Cons [of "Cursor_new bs" ADDR_SYMMETRIC "encode_socket s" for s]
        consumes_Cons [of "Cursor_new bs" ADDR_ASYMMETRIC "v @ w" for v w])
  also have "\<dots> \<longleftrightarrow> valid_p2p a \<and> bs = encode_v1 a"
    using encode_v1_length [of a] by (auto simp: consumes_all)
  finally show ?thesis .
qed

text \<open>C28: the versioned decoder accepts a payload exactly when the version is 1 and the payload is the encoding of a well-formed address, and
  returns that address: encoding then decoding gives the address back, no payload has two readings, and
  no address has two encodings.\<close>

theorem p2p_codec_canonical:
  "decode_versioned version payload = Inr a \<longleftrightarrow>
   version = P2P_ADDRESS_VERSION_V1 \<and> valid_p2p a \<and> payload = encode_v1 a"
  by (auto simp: decode_versioned_def decode_v1_iff)

end
