(* ===== verification/Validator_Lifecycle.thy ===== *)
theory Validator_Lifecycle
  imports Peer_Address
begin

text \<open>
  \<open>validatorset/src/state_machine/\<close>: the validator lifecycle as a typed state machine. The file
  \<open>state.rs\<close> gives the data, \<open>mod.rs\<close> the transitions, \<open>adapter.rs\<close> the decoding of stored fields.

  The nine payload structs the source generates with one macro have three shapes, which are the three
  records below, each extending the one before; the constructor of \<open>ValidatorLifecycle\<close> tells the states
  apart. A \<open>[u8; 48]\<close> key is the word of its bytes, like every fixed byte array of the development, and a
  \<open>NonZeroU64\<close> is a word that \<open>wf_lifecycle\<close> requires to be non-zero. Error messages keep their fixed
  text; the numbers and addresses the source formats into them are dropped.
\<close>

named_theorems lc_ok "which transitions succeed, and with what"

section \<open>Data\<close>

type_synonym ConsensusPubkey = "384 word"

datatype P2pInfo = Unset | V1 P2pAddress | Opaque u8 bytes

record StakeProjection =
  bonded :: u256
  unbonding_end_hint :: "u64 option"

record ValidatorHistory =
  joined_at_height :: u64
  last_deactivated_at_height :: "u64 option"
  slash_count :: u64
  missed_blocks :: u64
  missed_votes :: u64
  blocks_proposed :: u64

record payload_no_stake =
  registry_index :: u64
  consensus_pubkey :: ConsensusPubkey
  p2p :: P2pInfo
  history :: ValidatorHistory

record payload_stake = payload_no_stake +
  stake :: StakeProjection

record payload_jailed = payload_stake +
  jailed_at :: u64

datatype ValidatorLifecycle =
    Absent
  | WaitingForStake payload_stake
  | WaitingForReadiness payload_stake
  | Joining payload_stake
  | Active payload_stake
  | JailRetained payload_jailed
  | Jail payload_jailed
  | Exiting payload_stake
  | Unbonding payload_stake
  | Inactive payload_no_stake

record ValidatorState =
  vs_address :: address
  vs_lifecycle :: ValidatorLifecycle

type_synonym ('e, 'a) result = "'e precompile_error + 'a"

definition StakeProjection_zero :: StakeProjection where
  "StakeProjection_zero = \<lparr>bonded = 0, unbonding_end_hint = None\<rparr>"

definition ValidatorHistory_fresh :: "u64 \<Rightarrow> ValidatorHistory" where
  "ValidatorHistory_fresh joined = \<lparr>joined_at_height = joined, last_deactivated_at_height = None,
     slash_count = 0, missed_blocks = 0, missed_votes = 0, blocks_proposed = 0\<rparr>"

definition with_last_deactivated_at_height :: "u64 option \<Rightarrow> ValidatorHistory \<Rightarrow> ValidatorHistory" where
  "with_last_deactivated_at_height h hist = hist\<lparr>last_deactivated_at_height := h\<rparr>"

definition with_missed_counters_cleared :: "ValidatorHistory \<Rightarrow> ValidatorHistory" where
  "with_missed_counters_cleared hist = hist\<lparr>missed_blocks := 0, missed_votes := 0\<rparr>"

definition ValidatorHistory_is_zero :: "ValidatorHistory \<Rightarrow> bool" where
  "ValidatorHistory_is_zero hist \<longleftrightarrow> joined_at_height hist = 0 \<and> last_deactivated_at_height hist = None \<and>
     slash_count hist = 0 \<and> missed_blocks hist = 0 \<and> missed_votes hist = 0 \<and> blocks_proposed hist = 0"

definition REGISTERED :: u8 where "REGISTERED = 0"
definition PENDING :: u8 where "PENDING = 1"
definition ACTIVE :: u8 where "ACTIVE = 2"
definition EXITING :: u8 where "EXITING = 3"
definition UNBONDING :: u8 where "UNBONDING = 4"
definition INACTIVE :: u8 where "INACTIVE = 5"
definition JAILED :: u8 where "JAILED = 6"

section \<open>Reading a lifecycle\<close>

fun stored_status :: "ValidatorLifecycle \<Rightarrow> u8 option" where
  "stored_status Absent = None"
| "stored_status (WaitingForStake _) = Some REGISTERED"
| "stored_status (WaitingForReadiness _) = Some PENDING"
| "stored_status (Joining _) = Some PENDING"
| "stored_status (Active _) = Some ACTIVE"
| "stored_status (Exiting _) = Some EXITING"
| "stored_status (Unbonding _) = Some UNBONDING"
| "stored_status (Inactive _) = Some INACTIVE"
| "stored_status (JailRetained _) = Some JAILED"
| "stored_status (Jail _) = Some JAILED"

fun has_bls_share :: "ValidatorLifecycle \<Rightarrow> bool" where
  "has_bls_share (Active _) = True"
| "has_bls_share (JailRetained _) = True"
| "has_bls_share (Exiting _) = True"
| "has_bls_share _ = False"

fun join_confirmed :: "ValidatorLifecycle \<Rightarrow> bool" where
  "join_confirmed (Joining _) = True"
| "join_confirmed _ = False"

fun stored_jailed_at :: "ValidatorLifecycle \<Rightarrow> u64" where
  "stored_jailed_at (JailRetained s) = jailed_at s"
| "stored_jailed_at (Jail s) = jailed_at s"
| "stored_jailed_at _ = 0"

fun is_active_status :: "ValidatorLifecycle \<Rightarrow> bool" where
  "is_active_status (Active _) = True"
| "is_active_status _ = False"

fun is_pending :: "ValidatorLifecycle \<Rightarrow> bool" where
  "is_pending (WaitingForReadiness _) = True"
| "is_pending (Joining _) = True"
| "is_pending _ = False"

fun is_registered_status :: "ValidatorLifecycle \<Rightarrow> bool" where
  "is_registered_status (WaitingForStake _) = True"
| "is_registered_status _ = False"

fun is_current_consensus_participant :: "ValidatorLifecycle \<Rightarrow> bool" where
  "is_current_consensus_participant (Active _) = True"
| "is_current_consensus_participant (Exiting _) = True"
| "is_current_consensus_participant (JailRetained _) = True"
| "is_current_consensus_participant _ = False"

fun is_reshare_target :: "ValidatorLifecycle \<Rightarrow> bool" where
  "is_reshare_target (Active _) = True"
| "is_reshare_target (Joining _) = True"
| "is_reshare_target _ = False"

fun is_secondary_admission :: "ValidatorLifecycle \<Rightarrow> bool" where
  "is_secondary_admission (WaitingForStake _) = True"
| "is_secondary_admission (WaitingForReadiness _) = True"
| "is_secondary_admission (Joining _) = True"
| "is_secondary_admission (JailRetained _) = True"
| "is_secondary_admission (Jail _) = True"
| "is_secondary_admission _ = False"

text \<open>The accessors that hold of every registered state, generated by the macro \<open>lifecycle_ref\<close>.\<close>

fun lifecycle_ref :: "ValidatorLifecycle \<Rightarrow> payload_no_stake option" where
  "lifecycle_ref Absent = None"
| "lifecycle_ref (WaitingForStake s) = Some (payload_no_stake.truncate s)"
| "lifecycle_ref (WaitingForReadiness s) = Some (payload_no_stake.truncate s)"
| "lifecycle_ref (Joining s) = Some (payload_no_stake.truncate s)"
| "lifecycle_ref (Active s) = Some (payload_no_stake.truncate s)"
| "lifecycle_ref (JailRetained s) = Some (payload_no_stake.truncate s)"
| "lifecycle_ref (Jail s) = Some (payload_no_stake.truncate s)"
| "lifecycle_ref (Exiting s) = Some (payload_no_stake.truncate s)"
| "lifecycle_ref (Unbonding s) = Some (payload_no_stake.truncate s)"
| "lifecycle_ref (Inactive s) = Some s"

definition lc_registry_index :: "ValidatorLifecycle \<Rightarrow> u64 option" where
  "lc_registry_index lc = map_option registry_index (lifecycle_ref lc)"

definition lc_consensus_pubkey :: "ValidatorLifecycle \<Rightarrow> ConsensusPubkey option" where
  "lc_consensus_pubkey lc = map_option consensus_pubkey (lifecycle_ref lc)"

definition lc_p2p :: "ValidatorLifecycle \<Rightarrow> P2pInfo option" where
  "lc_p2p lc = map_option p2p (lifecycle_ref lc)"

definition lc_history :: "ValidatorLifecycle \<Rightarrow> ValidatorHistory option" where
  "lc_history lc = map_option history (lifecycle_ref lc)"

fun lc_stake :: "ValidatorLifecycle \<Rightarrow> StakeProjection option" where
  "lc_stake (WaitingForStake s) = Some (stake s)"
| "lc_stake (WaitingForReadiness s) = Some (stake s)"
| "lc_stake (Joining s) = Some (stake s)"
| "lc_stake (Active s) = Some (stake s)"
| "lc_stake (JailRetained s) = Some (stake s)"
| "lc_stake (Jail s) = Some (stake s)"
| "lc_stake (Exiting s) = Some (stake s)"
| "lc_stake (Unbonding s) = Some (stake s)"
| "lc_stake Absent = None"
| "lc_stake (Inactive _) = None"

definition lc_bonded_stake :: "ValidatorLifecycle \<Rightarrow> u256" where
  "lc_bonded_stake lc = (case lc_stake lc of None \<Rightarrow> 0 | Some st \<Rightarrow> bonded st)"

definition lc_unbonding_end_hint :: "ValidatorLifecycle \<Rightarrow> u64 option" where
  "lc_unbonding_end_hint lc = (case lc_stake lc of None \<Rightarrow> None | Some st \<Rightarrow> unbonding_end_hint st)"

section \<open>Validation\<close>

definition corrupt_state :: "string \<Rightarrow> 'e precompile_error" where
  "corrupt_state msg = Fatal (Text (''corrupt validator state: '' @ msg))"

definition ensure :: "bool \<Rightarrow> 'e precompile_error \<Rightarrow> ('e, unit) result" where
  "ensure b e = (if b then Inr () else Inl e)"

definition validate_hint :: "StakeProjection \<Rightarrow> ('e, unit) result" where
  "validate_hint st = ensure (unbonding_end_hint st \<noteq> Some 0)
     (corrupt_state ''unbonding-end hint uses a non-canonical zero sentinel'')"

definition validate_stored_status :: "u8 \<Rightarrow> ('e, unit) result" where
  "validate_stored_status st = ensure (st \<le> JAILED) (Fatal (Text ''unknown validator status''))"

fun validate_variant :: "ValidatorLifecycle \<Rightarrow> ('e, unit) result" where
  "validate_variant (Active s) = ensure (last_deactivated_at_height (history s) = None)
     (corrupt_state ''active validator retains a deactivation height'')"
| "validate_variant (Exiting s) = ensure (last_deactivated_at_height (history s) \<noteq> None)
     (corrupt_state ''exiting validator is missing its deactivation height'')"
| "validate_variant (Unbonding s) = ensure (last_deactivated_at_height (history s) \<noteq> None)
     (corrupt_state ''unbonding validator is missing its deactivation height'')"
| "validate_variant (Inactive s) = ensure (last_deactivated_at_height (history s) \<noteq> None)
     (corrupt_state ''inactive validator is missing its deactivation height'')"
| "validate_variant (JailRetained s) =
     ensure (jailed_at s \<noteq> 0 \<and> last_deactivated_at_height (history s) = Some (jailed_at s))
     (corrupt_state ''retained jail height and history deactivation height disagree'')"
| "validate_variant (Jail s) =
     ensure (jailed_at s \<noteq> 0 \<and> last_deactivated_at_height (history s) = Some (jailed_at s))
     (corrupt_state ''jail height and history deactivation height disagree'')"
| "validate_variant _ = Inr ()"

definition lc_validate :: "ValidatorLifecycle \<Rightarrow> ('e, unit) result" where
  "lc_validate lc =
     andThen (ensure (lc_consensus_pubkey lc \<noteq> Some 0) (corrupt_state ''registered validator has a zero key'')) (\<lambda>_.
     andThen (case lc_stake lc of None \<Rightarrow> Inr () | Some st \<Rightarrow> validate_hint st) (\<lambda>_.
     andThen (ensure (map_option last_deactivated_at_height (lc_history lc) \<noteq> Some (Some 0))
       (corrupt_state ''deactivation height uses a non-canonical zero sentinel'')) (\<lambda>_.
     validate_variant lc)))"

definition from_lifecycle :: "address \<Rightarrow> ValidatorLifecycle \<Rightarrow> ('e, ValidatorState) result" where
  "from_lifecycle addr lc = andThen (lc_validate lc) (\<lambda>_. Inr \<lparr>vs_address = addr, vs_lifecycle = lc\<rparr>)"

definition with_lifecycle :: "ValidatorState \<Rightarrow> ValidatorLifecycle \<Rightarrow> ('e, ValidatorState) result" where
  "with_lifecycle st lc = from_lifecycle (vs_address st) lc"

section \<open>Stored fields\<close>

definition P2pInfo_decode_stored :: "u8 \<Rightarrow> bytes \<Rightarrow> ('e, P2pInfo) result" where
  "P2pInfo_decode_stored version payload =
     (if version = 0 \<and> payload = [] then Inr Unset
      else if version = 0 \<or> payload = [] then
        Inl (corrupt_state ''P2P version and payload must be both set or both empty'')
      else if version \<noteq> P2P_ADDRESS_VERSION_V1 then Inr (Opaque version payload)
      else map_err (corrupt_state ''invalid persisted P2P address'')
        (andThen (decode_versioned version payload) (\<lambda>a. Inr (V1 a))))"

fun P2pInfo_encode_stored :: "P2pInfo \<Rightarrow> u8 \<times> bytes" where
  "P2pInfo_encode_stored Unset = (0, [])"
| "P2pInfo_encode_stored (V1 a) = (P2P_ADDRESS_VERSION_V1, encode_v1 a)"
| "P2pInfo_encode_stored (Opaque version payload) = (version, payload)"

text \<open>The match on the stored status and its two coupled flags.\<close>

definition lifecycle_of_status ::
    "u8 \<Rightarrow> bool \<Rightarrow> bool \<Rightarrow> payload_jailed \<Rightarrow> ('e, ValidatorLifecycle) result" where
  "lifecycle_of_status st share confirmed p =
     (let ps = payload_stake.truncate p in
      if st = REGISTERED \<and> \<not> share \<and> \<not> confirmed then Inr (WaitingForStake ps)
      else if st = PENDING \<and> \<not> share \<and> \<not> confirmed then Inr (WaitingForReadiness ps)
      else if st = PENDING \<and> \<not> share \<and> confirmed then Inr (Joining ps)
      else if st = ACTIVE \<and> share \<and> \<not> confirmed then Inr (Active ps)
      else if st = EXITING \<and> share \<and> \<not> confirmed then Inr (Exiting ps)
      else if st = UNBONDING \<and> \<not> share \<and> \<not> confirmed then Inr (Unbonding ps)
      else if st = INACTIVE \<and> \<not> share \<and> \<not> confirmed then
        andThen (ensure (bonded (stake p) = 0 \<and> unbonding_end_hint (stake p) = None)
          (corrupt_state ''inactive validator retains bonded stake or an unbonding hint''))
          (\<lambda>_. Inr (Inactive (payload_no_stake.truncate p)))
      else if st = JAILED \<and> share \<and> \<not> confirmed then Inr (JailRetained p)
      else if st = JAILED \<and> \<not> share \<and> \<not> confirmed then Inr (Jail p)
      else Inl (corrupt_state ''non-canonical coupled fields''))"

definition decode_stored ::
    "address \<Rightarrow> u64 \<Rightarrow> ConsensusPubkey \<Rightarrow> StakeProjection \<Rightarrow> u8 \<Rightarrow> u8 \<Rightarrow> bytes \<Rightarrow> ValidatorHistory \<Rightarrow>
     bool \<Rightarrow> bool \<Rightarrow> u64 \<Rightarrow> ('e, ValidatorState) result" where
  "decode_stored addr index pk st status version payload hist share confirmed jailed =
     andThen (validate_hint st) (\<lambda>_.
     andThen (P2pInfo_decode_stored version payload) (\<lambda>info.
     if index = 0 then
       andThen (ensure (pk = 0 \<and> bonded st = 0 \<and> unbonding_end_hint st = None \<and> status = REGISTERED \<and>
           info = Unset \<and> ValidatorHistory_is_zero hist \<and> \<not> share \<and> \<not> confirmed \<and> jailed = 0)
         (corrupt_state ''absent validator retains registry, stake, or lifecycle data''))
         (\<lambda>_. Inr \<lparr>vs_address = addr, vs_lifecycle = Absent\<rparr>)
     else
       andThen (validate_stored_status status) (\<lambda>_.
       andThen (ensure (pk \<noteq> 0) (corrupt_state ''registered validator is missing its consensus public key'')) (\<lambda>_.
       andThen (ensure (status = JAILED \<or> jailed = 0)
         (corrupt_state ''jail height is present outside a jailed lifecycle'')) (\<lambda>_.
       andThen (lifecycle_of_status status share confirmed
         \<lparr>registry_index = index, consensus_pubkey = pk, p2p = info, history = hist, stake = st, jailed_at = jailed\<rparr>)
         (\<lambda>lc. from_lifecycle addr lc))))))"

section \<open>Transitions\<close>

definition require_canonical_stake :: "StakeProjection \<Rightarrow> ('e, unit) result" where
  "require_canonical_stake st = ensure (unbonding_end_hint st \<noteq> Some 0)
     (Fatal (Text ''unbonding-end hint must not use the zero sentinel''))"

definition require_at_least_minimum :: "StakeProjection \<Rightarrow> u256 \<Rightarrow> ('e, unit) result" where
  "require_at_least_minimum st minimum =
     andThen (require_canonical_stake st) (\<lambda>_.
     ensure (minimum \<le> bonded st) (Revert (Text ''bonded stake is below minimum'')))"

definition require_below_minimum :: "StakeProjection \<Rightarrow> u256 \<Rightarrow> ('e, unit) result" where
  "require_below_minimum st minimum =
     andThen (require_canonical_stake st) (\<lambda>_.
     ensure (bonded st < minimum) (Revert (Text ''bonded stake has not fallen below minimum'')))"

definition require_fully_unstaked :: "StakeProjection \<Rightarrow> ('e, unit) result" where
  "require_fully_unstaked st =
     andThen (require_canonical_stake st) (\<lambda>_.
     ensure (bonded st = 0) (Revert (Text ''jailed validator must fully unstake before permanent exit'')))"

definition fresh_waiting :: "u64 \<Rightarrow> ConsensusPubkey \<Rightarrow> u64 \<Rightarrow> payload_stake" where
  "fresh_waiting index pk joined = \<lparr>registry_index = index, consensus_pubkey = pk, p2p = Unset,
     history = ValidatorHistory_fresh joined, stake = StakeProjection_zero\<rparr>"

definition register :: "ValidatorState \<Rightarrow> u64 \<Rightarrow> ConsensusPubkey \<Rightarrow> u64 \<Rightarrow> ('e, ValidatorState) result" where
  "register st index pk joined =
     andThen (ensure (vs_lifecycle st = Absent) (Revert (Text ''validator is already registered''))) (\<lambda>_.
     andThen (ensure (pk \<noteq> 0) (Revert (Text ''consensus public key must not be zero''))) (\<lambda>_.
     with_lifecycle st (WaitingForStake (fresh_waiting index pk joined))))"

definition reregister :: "payload_no_stake \<Rightarrow> ConsensusPubkey \<Rightarrow> u64 \<Rightarrow> ('e, payload_stake) result" where
  "reregister s pk joined =
     andThen (ensure (pk \<noteq> 0) (Revert (Text ''consensus public key must not be zero''))) (\<lambda>_.
     Inr (fresh_waiting (registry_index s) pk joined))"

definition reach_minimum :: "payload_stake \<Rightarrow> StakeProjection \<Rightarrow> u256 \<Rightarrow> ('e, payload_stake) result" where
  "reach_minimum s st minimum = andThen (require_at_least_minimum st minimum) (\<lambda>_. Inr (s\<lparr>stake := st\<rparr>))"

definition confirm_ready :: "payload_stake \<Rightarrow> payload_stake" where
  "confirm_ready s = s"

definition demote_waiting_for_readiness ::
    "payload_stake \<Rightarrow> StakeProjection \<Rightarrow> u256 \<Rightarrow> ('e, payload_stake) result" where
  "demote_waiting_for_readiness s st minimum =
     andThen (require_below_minimum st minimum) (\<lambda>_. Inr (s\<lparr>stake := st\<rparr>))"

definition demote_joining :: "payload_stake \<Rightarrow> StakeProjection \<Rightarrow> u256 \<Rightarrow> ('e, payload_stake) result" where
  "demote_joining s st minimum = andThen (require_below_minimum st minimum) (\<lambda>_. Inr (s\<lparr>stake := st\<rparr>))"

definition activate_at_boundary :: "payload_stake \<Rightarrow> payload_stake" where
  "activate_at_boundary s = s\<lparr>history := with_last_deactivated_at_height None (history s)\<rparr>"

definition retain_active_at_boundary :: "payload_stake \<Rightarrow> payload_stake" where
  "retain_active_at_boundary s = s"

definition expire_active_tee :: "payload_stake \<Rightarrow> payload_stake" where
  "expire_active_tee s = s"

definition expire_joining_tee :: "payload_stake \<Rightarrow> payload_stake" where
  "expire_joining_tee s = s"

definition begin_exit :: "payload_stake \<Rightarrow> StakeProjection \<Rightarrow> u64 \<Rightarrow> ('e, payload_stake) result" where
  "begin_exit s st height =
     andThen (require_canonical_stake st) (\<lambda>_.
     andThen (ensure (height \<noteq> 0) (Fatal (Text ''validator deactivation height must be non-zero''))) (\<lambda>_.
     Inr (s\<lparr>stake := st, history := with_last_deactivated_at_height (Some height) (history s)\<rparr>)))"

definition jail :: "payload_stake \<Rightarrow> u64 \<Rightarrow> ('e, payload_jailed) result" where
  "jail s height =
     andThen (ensure (height \<noteq> 0) (Fatal (Text ''validator jail height must be non-zero''))) (\<lambda>_.
     Inr \<lparr>registry_index = registry_index s, consensus_pubkey = consensus_pubkey s, p2p = p2p s,
       history = with_last_deactivated_at_height (Some height) (history s), stake = stake s, jailed_at = height\<rparr>)"

definition exclude_jailed_at_boundary :: "payload_jailed \<Rightarrow> payload_jailed" where
  "exclude_jailed_at_boundary s = s\<lparr>history := with_missed_counters_cleared (history s)\<rparr>"

definition full_exit_jailed_retained :: "payload_jailed \<Rightarrow> StakeProjection \<Rightarrow> ('e, payload_stake) result" where
  "full_exit_jailed_retained s st =
     andThen (require_fully_unstaked st) (\<lambda>_. Inr ((payload_stake.truncate s)\<lparr>stake := st\<rparr>))"

definition unjail :: "payload_jailed \<Rightarrow> u64 \<Rightarrow> u64 \<Rightarrow> u256 \<Rightarrow> ('e, payload_stake) result" where
  "unjail s current cooldown minimum =
     andThen (require_at_least_minimum (stake s) minimum) (\<lambda>_.
     andThen (ok_or (checked_add (jailed_at s) cooldown) (Fatal (Text ''unjail cooldown height overflow''))) (\<lambda>ready_at.
     andThen (ensure (ready_at \<le> current) (Revert (Text ''unjail cooldown not elapsed''))) (\<lambda>_.
     Inr ((payload_stake.truncate s)\<lparr>history := with_missed_counters_cleared (history s)\<rparr>))))"

definition full_exit_jailed :: "payload_jailed \<Rightarrow> StakeProjection \<Rightarrow> ('e, payload_stake) result" where
  "full_exit_jailed s st =
     andThen (require_fully_unstaked st) (\<lambda>_. Inr ((payload_stake.truncate s)\<lparr>stake := st\<rparr>))"

definition exclude_exiting_at_boundary :: "payload_stake \<Rightarrow> payload_stake" where
  "exclude_exiting_at_boundary s = s"

definition complete_unbonding :: "payload_stake \<Rightarrow> ('e, payload_no_stake) result" where
  "complete_unbonding s =
     andThen (ensure (bonded (stake s) = 0 \<and> unbonding_end_hint (stake s) = None)
       (Revert (Text ''cannot complete unbonding while bonded value or a live-claim hint remains'')))
       (\<lambda>_. Inr (payload_no_stake.truncate s))"

definition cleanup :: "payload_no_stake \<Rightarrow> ValidatorLifecycle" where
  "cleanup s = Absent"

fun with_stake_variant :: "ValidatorLifecycle \<Rightarrow> StakeProjection \<Rightarrow> ('e, ValidatorLifecycle) result" where
  "with_stake_variant (WaitingForStake s) st = Inr (WaitingForStake (s\<lparr>stake := st\<rparr>))"
| "with_stake_variant (WaitingForReadiness s) st = Inr (WaitingForReadiness (s\<lparr>stake := st\<rparr>))"
| "with_stake_variant (Joining s) st = Inr (Joining (s\<lparr>stake := st\<rparr>))"
| "with_stake_variant (Active s) st = Inr (Active (s\<lparr>stake := st\<rparr>))"
| "with_stake_variant (JailRetained s) st = Inr (JailRetained (s\<lparr>stake := st\<rparr>))"
| "with_stake_variant (Jail s) st = Inr (Jail (s\<lparr>stake := st\<rparr>))"
| "with_stake_variant (Exiting s) st = Inr (Exiting (s\<lparr>stake := st\<rparr>))"
| "with_stake_variant (Unbonding s) st = Inr (Unbonding (s\<lparr>stake := st\<rparr>))"
| "with_stake_variant Absent st = Inl (Revert (Text ''cannot stake before validator registration''))"
| "with_stake_variant (Inactive s) st = Inl (Revert (Text ''inactive validator must re-register before staking''))"

definition with_stake :: "ValidatorLifecycle \<Rightarrow> StakeProjection \<Rightarrow> ('e, ValidatorLifecycle) result" where
  "with_stake lc st = andThen (require_canonical_stake st) (\<lambda>_. with_stake_variant lc st)"

fun with_p2p :: "ValidatorLifecycle \<Rightarrow> P2pInfo \<Rightarrow> ('e, ValidatorLifecycle) result" where
  "with_p2p (WaitingForStake s) info = Inr (WaitingForStake (s\<lparr>p2p := info\<rparr>))"
| "with_p2p (WaitingForReadiness s) info = Inr (WaitingForReadiness (s\<lparr>p2p := info\<rparr>))"
| "with_p2p (Joining s) info = Inr (Joining (s\<lparr>p2p := info\<rparr>))"
| "with_p2p (Active s) info = Inr (Active (s\<lparr>p2p := info\<rparr>))"
| "with_p2p (JailRetained s) info = Inr (JailRetained (s\<lparr>p2p := info\<rparr>))"
| "with_p2p (Jail s) info = Inr (Jail (s\<lparr>p2p := info\<rparr>))"
| "with_p2p (Exiting s) info = Inr (Exiting (s\<lparr>p2p := info\<rparr>))"
| "with_p2p (Unbonding s) info = Inr (Unbonding (s\<lparr>p2p := info\<rparr>))"
| "with_p2p (Inactive s) info = Inr (Inactive (s\<lparr>p2p := info\<rparr>))"
| "with_p2p Absent info = Inl (Revert (Text ''validator not registered''))"

fun with_history_variant :: "ValidatorLifecycle \<Rightarrow> ValidatorHistory \<Rightarrow> ('e, ValidatorLifecycle) result" where
  "with_history_variant (WaitingForStake s) h = Inr (WaitingForStake (s\<lparr>history := h\<rparr>))"
| "with_history_variant (WaitingForReadiness s) h = Inr (WaitingForReadiness (s\<lparr>history := h\<rparr>))"
| "with_history_variant (Joining s) h = Inr (Joining (s\<lparr>history := h\<rparr>))"
| "with_history_variant (Active s) h =
     andThen (ensure (last_deactivated_at_height h = None)
       (Fatal (Text ''active history must not contain a deactivation height'')))
       (\<lambda>_. Inr (Active (s\<lparr>history := h\<rparr>)))"
| "with_history_variant (JailRetained s) h =
     andThen (ensure (last_deactivated_at_height h = Some (jailed_at s))
       (Fatal (Text ''retained jail history must match the jail height'')))
       (\<lambda>_. Inr (JailRetained (s\<lparr>history := h\<rparr>)))"
| "with_history_variant (Jail s) h =
     andThen (ensure (last_deactivated_at_height h = Some (jailed_at s))
       (Fatal (Text ''jail history must match the jail height'')))
       (\<lambda>_. Inr (Jail (s\<lparr>history := h\<rparr>)))"
| "with_history_variant (Exiting s) h =
     andThen (ensure (last_deactivated_at_height h \<noteq> None)
       (Fatal (Text ''exiting history requires a deactivation height'')))
       (\<lambda>_. Inr (Exiting (s\<lparr>history := h\<rparr>)))"
| "with_history_variant (Unbonding s) h =
     andThen (ensure (last_deactivated_at_height h \<noteq> None)
       (Fatal (Text ''unbonding history requires a deactivation height'')))
       (\<lambda>_. Inr (Unbonding (s\<lparr>history := h\<rparr>)))"
| "with_history_variant (Inactive s) h =
     andThen (ensure (last_deactivated_at_height h \<noteq> None)
       (Fatal (Text ''inactive history requires a deactivation height'')))
       (\<lambda>_. Inr (Inactive (s\<lparr>history := h\<rparr>)))"
| "with_history_variant Absent h = Inl (Revert (Text ''validator not registered''))"

definition with_history :: "ValidatorLifecycle \<Rightarrow> ValidatorHistory \<Rightarrow> ('e, ValidatorLifecycle) result" where
  "with_history lc h =
     andThen (ensure (last_deactivated_at_height h \<noteq> Some 0)
       (Fatal (Text ''deactivation height must not use the zero sentinel'')))
       (\<lambda>_. with_history_variant lc h)"

section \<open>Well-formed lifecycles and the step relation\<close>

fun p2p_canonical :: "P2pInfo \<Rightarrow> bool" where
  "p2p_canonical Unset \<longleftrightarrow> True"
| "p2p_canonical (V1 a) \<longleftrightarrow> valid_p2p a"
| "p2p_canonical (Opaque version payload) \<longleftrightarrow> version \<noteq> 0 \<and> version \<noteq> P2P_ADDRESS_VERSION_V1 \<and> payload \<noteq> []"

fun deactivation_ok :: "ValidatorLifecycle \<Rightarrow> bool" where
  "deactivation_ok (Active s) \<longleftrightarrow> last_deactivated_at_height (history s) = None"
| "deactivation_ok (Exiting s) \<longleftrightarrow> last_deactivated_at_height (history s) \<noteq> None"
| "deactivation_ok (Unbonding s) \<longleftrightarrow> last_deactivated_at_height (history s) \<noteq> None"
| "deactivation_ok (Inactive s) \<longleftrightarrow> last_deactivated_at_height (history s) \<noteq> None"
| "deactivation_ok (JailRetained s) \<longleftrightarrow>
     jailed_at s \<noteq> 0 \<and> last_deactivated_at_height (history s) = Some (jailed_at s)"
| "deactivation_ok (Jail s) \<longleftrightarrow>
     jailed_at s \<noteq> 0 \<and> last_deactivated_at_height (history s) = Some (jailed_at s)"
| "deactivation_ok _ \<longleftrightarrow> True"

definition valid_lifecycle :: "ValidatorLifecycle \<Rightarrow> bool" where
  "valid_lifecycle lc \<longleftrightarrow> lc_consensus_pubkey lc \<noteq> Some 0 \<and>
     (case lc_stake lc of None \<Rightarrow> True | Some st \<Rightarrow> unbonding_end_hint st \<noteq> Some 0) \<and>
     (case lc_history lc of None \<Rightarrow> True | Some h \<Rightarrow> last_deactivated_at_height h \<noteq> Some 0) \<and>
     deactivation_ok lc"

definition wf_lifecycle :: "ValidatorLifecycle \<Rightarrow> bool" where
  "wf_lifecycle lc \<longleftrightarrow> valid_lifecycle lc \<and> lc_registry_index lc \<noteq> Some 0 \<and>
     (case lc_p2p lc of None \<Rightarrow> True | Some info \<Rightarrow> p2p_canonical info)"

text \<open>The transitions of the machine. The ones that write a stake carry the bonded amount they store, the ones
  that compare it with the minimum stake carry that minimum too.\<close>

datatype lifecycle_event =
    Register | Reregister | ReachMinimum u256 u256 | ConfirmReady | Demote u256 u256
  | Activate | Retain | ExpireTee | BeginExit u256 | JailEvent | ExcludeJailed | ExitJailed u256
  | Unjail | ExcludeExiting | CompleteUnbonding | Cleanup | MirrorStake u256 | PublishP2p | Account | Reindex

text \<open>The cleanup of the registry moves its last entry into the place it freed: that validator gets another
  registry index.\<close>

fun reindex :: "u64 \<Rightarrow> ValidatorLifecycle \<Rightarrow> ValidatorLifecycle" where
  "reindex i Absent = Absent"
| "reindex i (WaitingForStake s) = WaitingForStake (s\<lparr>registry_index := i\<rparr>)"
| "reindex i (WaitingForReadiness s) = WaitingForReadiness (s\<lparr>registry_index := i\<rparr>)"
| "reindex i (Joining s) = Joining (s\<lparr>registry_index := i\<rparr>)"
| "reindex i (Active s) = Active (s\<lparr>registry_index := i\<rparr>)"
| "reindex i (JailRetained s) = JailRetained (s\<lparr>registry_index := i\<rparr>)"
| "reindex i (Jail s) = Jail (s\<lparr>registry_index := i\<rparr>)"
| "reindex i (Exiting s) = Exiting (s\<lparr>registry_index := i\<rparr>)"
| "reindex i (Unbonding s) = Unbonding (s\<lparr>registry_index := i\<rparr>)"
| "reindex i (Inactive s) = Inactive (s\<lparr>registry_index := i\<rparr>)"

text \<open>One step of the machine: a transition function of \<open>mod.rs\<close> that returned \<open>Ok\<close>, or a new registry
  index.\<close>

inductive lifecycle_step :: "lifecycle_event \<Rightarrow> ValidatorLifecycle \<Rightarrow> ValidatorLifecycle \<Rightarrow> bool" where
  step_register: "register st i pk h = (Inr st' :: (unit, ValidatorState) result) \<Longrightarrow> i \<noteq> 0 \<Longrightarrow>
    lifecycle_step Register (vs_lifecycle st) (vs_lifecycle st')"
| step_reregister: "reregister s pk h = (Inr w :: (unit, payload_stake) result) \<Longrightarrow>
    lifecycle_step Reregister (Inactive s) (WaitingForStake w)"
| step_reach_minimum: "reach_minimum s st m = (Inr w :: (unit, payload_stake) result) \<Longrightarrow>
    lifecycle_step (ReachMinimum m (bonded st)) (WaitingForStake s) (WaitingForReadiness w)"
| step_confirm_ready: "lifecycle_step ConfirmReady (WaitingForReadiness s) (Joining (confirm_ready s))"
| step_demote_waiting: "demote_waiting_for_readiness s st m = (Inr w :: (unit, payload_stake) result) \<Longrightarrow>
    lifecycle_step (Demote m (bonded st)) (WaitingForReadiness s) (WaitingForStake w)"
| step_demote_joining: "demote_joining s st m = (Inr w :: (unit, payload_stake) result) \<Longrightarrow>
    lifecycle_step (Demote m (bonded st)) (Joining s) (WaitingForStake w)"
| step_activate: "lifecycle_step Activate (Joining s) (Active (activate_at_boundary s))"
| step_retain: "lifecycle_step Retain (Active s) (Active (retain_active_at_boundary s))"
| step_expire_active: "lifecycle_step ExpireTee (Active s) (WaitingForReadiness (expire_active_tee s))"
| step_expire_joining: "lifecycle_step ExpireTee (Joining s) (WaitingForReadiness (expire_joining_tee s))"
| step_begin_exit: "begin_exit s st h = (Inr e :: (unit, payload_stake) result) \<Longrightarrow>
    lifecycle_step (BeginExit (bonded st)) (Active s) (Exiting e)"
| step_jail: "jail s h = (Inr j :: (unit, payload_jailed) result) \<Longrightarrow>
    lifecycle_step JailEvent (Active s) (JailRetained j)"
| step_exclude_jailed: "lifecycle_step ExcludeJailed (JailRetained s) (Jail (exclude_jailed_at_boundary s))"
| step_exit_retained: "full_exit_jailed_retained s st = (Inr e :: (unit, payload_stake) result) \<Longrightarrow>
    lifecycle_step (ExitJailed (bonded st)) (JailRetained s) (Exiting e)"
| step_unjail: "unjail s h c m = (Inr w :: (unit, payload_stake) result) \<Longrightarrow>
    lifecycle_step Unjail (Jail s) (WaitingForReadiness w)"
| step_exit_jailed: "full_exit_jailed s st = (Inr u :: (unit, payload_stake) result) \<Longrightarrow>
    lifecycle_step (ExitJailed (bonded st)) (Jail s) (Unbonding u)"
| step_exclude_exiting: "lifecycle_step ExcludeExiting (Exiting s) (Unbonding (exclude_exiting_at_boundary s))"
| step_complete: "complete_unbonding s = (Inr i :: (unit, payload_no_stake) result) \<Longrightarrow>
    lifecycle_step CompleteUnbonding (Unbonding s) (Inactive i)"
| step_cleanup: "lifecycle_step Cleanup (Inactive s) (cleanup s)"
| step_with_stake: "with_stake lc st = (Inr lc' :: (unit, ValidatorLifecycle) result) \<Longrightarrow>
    lifecycle_step (MirrorStake (bonded st)) lc lc'"
| step_with_p2p: "with_p2p lc info = (Inr lc' :: (unit, ValidatorLifecycle) result) \<Longrightarrow> p2p_canonical info \<Longrightarrow>
    lifecycle_step PublishP2p lc lc'"
| step_with_history: "with_history lc h = (Inr lc' :: (unit, ValidatorLifecycle) result) \<Longrightarrow>
    lifecycle_step Account lc lc'"
| step_reindex: "i \<noteq> 0 \<Longrightarrow> lifecycle_step Reindex lc (reindex i lc)"

inductive lifecycle_run :: "lifecycle_event list \<Rightarrow> ValidatorLifecycle \<Rightarrow> ValidatorLifecycle \<Rightarrow> bool" where
  run_none: "lifecycle_run [] lc lc"
| run_more: "lifecycle_run evs lc lc' \<Longrightarrow> lifecycle_step ev lc' lc'' \<Longrightarrow> lifecycle_run (evs @ [ev]) lc lc''"

text \<open>\<open>lc'\<close> is the result of transitions of \<open>D\<close> only.\<close>

definition runs_in :: "lifecycle_event set \<Rightarrow> ValidatorLifecycle \<Rightarrow> ValidatorLifecycle \<Rightarrow> bool" where
  "runs_in D lc lc' \<longleftrightarrow> (\<exists>evs. set evs \<subseteq> D \<and> lifecycle_run evs lc lc')"

text \<open>A validator that registered with 10 units at stake, used to exhibit runs.\<close>

definition sample_stake :: StakeProjection where
  "sample_stake = \<lparr>bonded = 10, unbonding_end_hint = None\<rparr>"

definition sample_validator :: payload_stake where
  "sample_validator = (fresh_waiting 1 7 5)\<lparr>stake := sample_stake\<rparr>"

section \<open>Lemmas\<close>

lemma ensure_ok [simp]: "ensure b e = Inr u \<longleftrightarrow> b"
  by (simp add: ensure_def)

lemma validate_hint_ok [simp]: "validate_hint st = Inr u \<longleftrightarrow> unbonding_end_hint st \<noteq> Some 0"
  by (simp add: validate_hint_def)

lemma validate_variant_ok: "validate_variant lc = Inr u \<longleftrightarrow> deactivation_ok lc"
  by (cases lc) simp_all

lemma lc_validate_ok [lc_ok]: "lc_validate lc = Inr u \<longleftrightarrow> valid_lifecycle lc"
  by (auto simp: lc_validate_def valid_lifecycle_def validate_variant_ok split: option.splits)

lemma from_lifecycle_ok [lc_ok]:
  "from_lifecycle a lc = Inr st \<longleftrightarrow> valid_lifecycle lc \<and> st = \<lparr>vs_address = a, vs_lifecycle = lc\<rparr>"
  by (auto simp: from_lifecycle_def lc_validate_ok)

lemma with_lifecycle_ok [lc_ok]:
  "with_lifecycle st lc = Inr st' \<longleftrightarrow> valid_lifecycle lc \<and> st' = st\<lparr>vs_lifecycle := lc\<rparr>"
  by (auto simp: with_lifecycle_def from_lifecycle_ok intro: ValidatorState.equality)

lemmas transition_defs = require_canonical_stake_def require_at_least_minimum_def require_below_minimum_def
  require_fully_unstaked_def

lemma transition_ok [lc_ok]:
  "reregister i pk h = Inr w \<longleftrightarrow> pk \<noteq> 0 \<and> w = fresh_waiting (registry_index i) pk h"
  "reach_minimum s st m = Inr w \<longleftrightarrow> unbonding_end_hint st \<noteq> Some 0 \<and> m \<le> bonded st \<and> w = s\<lparr>stake := st\<rparr>"
  "demote_waiting_for_readiness s st m = Inr w \<longleftrightarrow>
     unbonding_end_hint st \<noteq> Some 0 \<and> bonded st < m \<and> w = s\<lparr>stake := st\<rparr>"
  "demote_joining s st m = Inr w \<longleftrightarrow> unbonding_end_hint st \<noteq> Some 0 \<and> bonded st < m \<and> w = s\<lparr>stake := st\<rparr>"
  "begin_exit s st h = Inr w \<longleftrightarrow> unbonding_end_hint st \<noteq> Some 0 \<and> h \<noteq> 0 \<and>
     w = s\<lparr>stake := st, history := (history s)\<lparr>last_deactivated_at_height := Some h\<rparr>\<rparr>"
  by (auto simp: reregister_def reach_minimum_def demote_waiting_for_readiness_def demote_joining_def
      begin_exit_def transition_defs with_last_deactivated_at_height_def)

lemma register_ok [lc_ok]:
  "register st i pk h = Inr st' \<longleftrightarrow>
     vs_lifecycle st = Absent \<and> pk \<noteq> 0 \<and> st' = st\<lparr>vs_lifecycle := WaitingForStake (fresh_waiting i pk h)\<rparr>"
  by (auto simp: register_def with_lifecycle_ok valid_lifecycle_def fresh_waiting_def lc_consensus_pubkey_def
      lc_history_def StakeProjection_zero_def ValidatorHistory_fresh_def payload_no_stake.truncate_def)

lemma jail_ok [lc_ok]:
  "jail s h = Inr j \<longleftrightarrow> h \<noteq> 0 \<and> payload_stake.truncate j = s\<lparr>history := (history s)\<lparr>last_deactivated_at_height := Some h\<rparr>\<rparr> \<and>
     jailed_at j = h"
  by (cases s; cases j) (auto simp: jail_def with_last_deactivated_at_height_def payload_stake.truncate_def)

lemma exit_jailed_ok [lc_ok]:
  "full_exit_jailed_retained j st = Inr w \<longleftrightarrow>
     unbonding_end_hint st \<noteq> Some 0 \<and> bonded st = 0 \<and> w = (payload_stake.truncate j)\<lparr>stake := st\<rparr>"
  "full_exit_jailed j st = Inr w \<longleftrightarrow>
     unbonding_end_hint st \<noteq> Some 0 \<and> bonded st = 0 \<and> w = (payload_stake.truncate j)\<lparr>stake := st\<rparr>"
  by (auto simp: full_exit_jailed_retained_def full_exit_jailed_def transition_defs)

lemma unjail_ok [lc_ok]:
  "unjail j h c m = Inr w \<longleftrightarrow> unbonding_end_hint (stake j) \<noteq> Some 0 \<and> m \<le> bonded (stake j) \<and>
     (\<exists>r. checked_add (jailed_at j) c = Some r \<and> r \<le> h) \<and>
     w = (payload_stake.truncate j)\<lparr>history := with_missed_counters_cleared (history j)\<rparr>"
  by (auto simp: unjail_def transition_defs)

lemma complete_unbonding_ok [lc_ok]:
  "complete_unbonding s = Inr i \<longleftrightarrow>
     bonded (stake s) = 0 \<and> unbonding_end_hint (stake s) = None \<and> i = payload_no_stake.truncate s"
  by (auto simp: complete_unbonding_def)

lemma with_stake_ok [lc_ok]:
  "(with_stake lc st :: ('e, ValidatorLifecycle) result) = Inr lc' \<longleftrightarrow>
     unbonding_end_hint st \<noteq> Some 0 \<and> (with_stake_variant lc st :: ('e, ValidatorLifecycle) result) = Inr lc'"
  by (auto simp: with_stake_def transition_defs)

lemma with_history_ok [lc_ok]:
  "(with_history lc h :: ('e, ValidatorLifecycle) result) = Inr lc' \<longleftrightarrow>
     last_deactivated_at_height h \<noteq> Some 0 \<and> (with_history_variant lc h :: ('e, ValidatorLifecycle) result) = Inr lc'"
  by (auto simp: with_history_def)

lemma with_poly:
  "with_stake lc st = (Inr lc' :: ('e, ValidatorLifecycle) result) \<longleftrightarrow> with_stake lc st = (Inr lc' :: (unit, ValidatorLifecycle) result)"
  "with_p2p lc info = (Inr lc' :: ('e, ValidatorLifecycle) result) \<longleftrightarrow> with_p2p lc info = (Inr lc' :: (unit, ValidatorLifecycle) result)"
  "with_history lc h = (Inr lc' :: ('e, ValidatorLifecycle) result) \<longleftrightarrow> with_history lc h = (Inr lc' :: (unit, ValidatorLifecycle) result)"
  by (cases lc; auto simp: with_stake_ok with_history_ok)+

lemmas payload_truncate = payload_no_stake.truncate_def payload_stake.truncate_def
lemmas payload_views = lc_consensus_pubkey_def lc_history_def lc_p2p_def lc_registry_index_def payload_truncate
lemmas wf_defs = wf_lifecycle_def valid_lifecycle_def payload_views

lemma lifecycle_step_wf: "lifecycle_step ev lc lc' \<Longrightarrow> wf_lifecycle lc \<Longrightarrow> wf_lifecycle lc'"
proof (induction rule: lifecycle_step.induct)
  case (step_register st i pk h st')
  then show ?case
    by (simp add: lc_ok wf_defs fresh_waiting_def StakeProjection_zero_def ValidatorHistory_fresh_def)
next
  case (step_jail s h j)
  then show ?case by (auto simp: jail_def wf_defs with_last_deactivated_at_height_def)
next
  case (step_with_stake lc st lc')
  then show ?case by (cases lc) (auto simp: lc_ok wf_defs)
next
  case (step_with_p2p lc info lc')
  then show ?case by (cases lc) (auto simp: lc_ok wf_defs)
next
  case (step_with_history lc h lc')
  then show ?case by (cases lc) (auto simp: lc_ok wf_defs)
next
  case (step_reindex i lc)
  then show ?case by (cases lc) (auto simp: wf_defs)
qed (auto simp: lc_ok wf_defs fresh_waiting_def StakeProjection_zero_def ValidatorHistory_fresh_def
    confirm_ready_def activate_at_boundary_def retain_active_at_boundary_def expire_active_tee_def
    expire_joining_tee_def exclude_jailed_at_boundary_def exclude_exiting_at_boundary_def cleanup_def
    with_last_deactivated_at_height_def with_missed_counters_cleared_def)

lemma wf_Absent [simp]: "wf_lifecycle Absent"
  by (simp add: wf_defs)

lemma lifecycle_run_wf: "lifecycle_run evs lc lc' \<Longrightarrow> wf_lifecycle lc \<Longrightarrow> wf_lifecycle lc'"
  by (induction rule: lifecycle_run.induct) (auto intro: lifecycle_step_wf)

lemma run_append: "lifecycle_run ys b c \<Longrightarrow> lifecycle_run xs a b \<Longrightarrow> lifecycle_run (xs @ ys) a c"
  by (induction rule: lifecycle_run.induct) (auto intro: run_more simp flip: append_assoc)

lemma run_step: "lifecycle_step ev a b \<Longrightarrow> lifecycle_run evs b c \<Longrightarrow> lifecycle_run (ev # evs) a c"
  using run_append [of evs b c "[ev]" a] run_more [OF run_none, of ev a b] by simp

lemma runs_in_refl [simp]: "runs_in D lc lc"
  unfolding runs_in_def by (rule exI [of _ "[]"]) (simp add: run_none)

lemma runs_in_trans: "runs_in D a b \<Longrightarrow> runs_in D b c \<Longrightarrow> runs_in D a c"
  unfolding runs_in_def by (metis le_sup_iff run_append set_append)

lemma runs_in_step: "lifecycle_step ev a b \<Longrightarrow> ev \<in> D \<Longrightarrow> runs_in D a b"
  unfolding runs_in_def using run_step [OF _ run_none] by (intro exI [of _ "[ev]"]) simp

lemma runs_in_mono: "runs_in D a b \<Longrightarrow> D \<subseteq> E \<Longrightarrow> runs_in E a b"
  unfolding runs_in_def by blast

lemma runs_in_wf: "runs_in D lc lc' \<Longrightarrow> wf_lifecycle lc \<Longrightarrow> wf_lifecycle lc'"
  unfolding runs_in_def using lifecycle_run_wf by blast

lemma runs_in_invariant:
  assumes "runs_in D lc lc'" "P lc" "\<And>ev a b. ev \<in> D \<Longrightarrow> lifecycle_step ev a b \<Longrightarrow> P a \<Longrightarrow> P b"
  shows "P lc'"
proof -
  from assms(1) obtain evs where "lifecycle_run evs lc lc'" "set evs \<subseteq> D" unfolding runs_in_def by blast
  then show ?thesis using assms(2) by (induction rule: lifecycle_run.induct) (auto intro: assms(3))
qed

lemma sample_run:
  "lifecycle_run [Register, ReachMinimum 10 10, ConfirmReady, Activate] Absent (Active sample_validator)"
proof -
  let ?w = "fresh_waiting 1 7 5"
  have a: "lifecycle_step Register Absent (WaitingForStake ?w)"
    using step_register [of "\<lparr>vs_address = 9, vs_lifecycle = Absent\<rparr>" 1 7 5
      "\<lparr>vs_address = 9, vs_lifecycle = WaitingForStake ?w\<rparr>"] by (simp add: lc_ok)
  have b: "lifecycle_step (ReachMinimum 10 10) (WaitingForStake ?w) (WaitingForReadiness sample_validator)"
    using step_reach_minimum [of ?w sample_stake 10 sample_validator] by (simp add: lc_ok sample_validator_def sample_stake_def)
  have c: "lifecycle_step ConfirmReady (WaitingForReadiness sample_validator) (Joining sample_validator)"
    using step_confirm_ready [of sample_validator] by (simp add: confirm_ready_def)
  have d: "lifecycle_step Activate (Joining sample_validator) (Active sample_validator)"
    using step_activate [of sample_validator]
    by (simp add: activate_at_boundary_def with_last_deactivated_at_height_def sample_validator_def
        fresh_waiting_def ValidatorHistory_fresh_def)
  show ?thesis using run_step [OF a run_step [OF b run_step [OF c run_step [OF d run_none]]]] .
qed

section \<open>Properties\<close>

text \<open>C25: every lifecycle a validator can reach from its first registration is well-formed (a non-zero
  key and index, no zero sentinel in an optional height, deactivation heights exactly where the state
  calls for them, a canonical peer address), so the validation that closes every transition accepts it.\<close>

theorem lifecycle_always_valid:
  assumes "lifecycle_run evs Absent lc"
  shows "wf_lifecycle lc \<and> with_lifecycle st lc = Inr (st\<lparr>vs_lifecycle := lc\<rparr>)"
  using lifecycle_run_wf [OF assms wf_Absent] by (simp add: with_lifecycle_ok wf_lifecycle_def)

theorem lifecycle_always_valid_witness:
  "wf_lifecycle (Active sample_validator) \<and>
   with_lifecycle \<lparr>vs_address = 9, vs_lifecycle = Absent\<rparr> (Active sample_validator) =
     Inr \<lparr>vs_address = 9, vs_lifecycle = Active sample_validator\<rparr>"
  using lifecycle_always_valid [OF sample_run, of "\<lparr>vs_address = 9, vs_lifecycle = Absent\<rparr>"] by simp

end
