(* ===== verification/Validator_Set.thy ===== *)
theory Validator_Set
  imports Validator_Lifecycle
begin

text \<open>
  \<open>validatorset/src/{schema,runtime,delegation}.rs\<close>: the validator registry in contract storage, the typed
  reading of it, and every operation that changes it.

  The source keeps one storage mapping per validator field, all keyed by the validator's address. Here
  they are one map from the address to the record of its slots, so a write to \<open>val_status[addr]\<close> is an
  update of the field \<open>val_status\<close> of \<open>slots addr\<close>. Views are functions of the storage that return a value
  or an error; operations are programs. The hash, the BLS library, the OCOMP registration codec
  (\<open>ocomp-protocol\<close>) and the block context are the fields of the record \<open>vset_env\<close>. Metrics, tracing and
  the slashing journal file have no effect on the state and are left out.
\<close>

section \<open>Storage\<close>

record validator_slots =
  val_consensus_pubkey_lo :: b256
  val_consensus_pubkey_hi :: b256
  val_stake :: u256
  val_status :: u8
  val_slash_count :: u64
  val_missed_blocks :: u64
  val_missed_votes :: u64
  val_blocks_proposed :: u64
  val_joined_at_height :: u64
  val_deactivated_at_height :: u64
  val_unbonding_end :: u64
  val_has_bls_share :: bool
  val_p2p_address_version :: u8
  val_p2p_address_payload :: bytes
  val_join_confirmed :: bool
  val_jailed_at_height :: u64

datatype ValidatorSetEvent =
    ValidatorRegistered address u64
  | ValidatorDeactivated address u64
  | ValidatorForcedExit address u64
  | ValidatorJailed address u64
  | ValidatorUnjailed address u64
  | OcompRecoveryResolved address u64 u256 u8
  | EpochTransition u256 u64 u32
  | ConsensusSetUpdated u32
  | ValidatorDelegateSet address u8 address
  | ValidatorDelegateRevoked address u8 address

record ValidatorSet =
  config_owner :: address
  config_max_validators :: u32
  config_epoch_length_blocks :: u32
  slots :: "address \<Rightarrow> validator_slots"
  address_to_index :: "address \<Rightarrow> u64"
  index_to_address :: "u64 \<Rightarrow> address"
  consensus_pubkey_hash_to_address :: "b256 \<Rightarrow> address"
  validator_count :: u32
  epoch_number :: u256
  epoch_start_timestamp :: u64
  epoch_start_block :: u64
  pending_set_change :: bool
  active_consensus_set_hash :: b256
  config_reregistration_cooldown :: u32
  config_unjail_cooldown_blocks :: u64
  delegate_by_validator_role :: "address \<Rightarrow> u8 \<Rightarrow> address"
  validator_by_role_delegate :: "u8 \<Rightarrow> address \<Rightarrow> address"
  val_ocomp_registration :: "address \<Rightarrow> bytes"
  ocomp_key_hash_to_validator :: "b256 \<Rightarrow> address"
  val_radicle_node_id :: "address \<Rightarrow> b256"
  radicle_node_id_to_validator :: "b256 \<Rightarrow> address"
  val_ocomp_miss_count :: "address \<Rightarrow> u64"
  val_ocomp_recovery_deadline :: "address \<Rightarrow> u64"
  finalized_participation_recorded :: "b256 \<Rightarrow> bool"
  finalized_participation_ring :: "u64 \<Rightarrow> b256"
  finalized_participation_ring_seq :: u64
  vset_logs :: "ValidatorSetEvent list"

record ocomp_registration =
  oc_chain_id :: u64
  oc_genesis_hash :: b256
  oc_validator_identity_hash :: b256
  oc_public_key_sec1 :: bytes
  oc_key_epoch :: u64
  oc_proof_of_possession :: bytes

record vset_env =
  ve_keccak :: "bytes \<Rightarrow> b256"
  ve_block_number :: u64
  ve_chain_id :: u64
  ve_genesis_hash :: b256
  bls_key_from_bytes :: "bytes \<Rightarrow> bool"
  bls_sig_from_bytes :: "bytes \<Rightarrow> bool"
  bls_verify :: "bytes \<Rightarrow> bytes \<Rightarrow> bytes \<Rightarrow> bool"
  ocomp_decode :: "bytes \<Rightarrow> ocomp_registration option"
  ocomp_encode :: "ocomp_registration \<Rightarrow> bytes option"
  ocomp_proof_valid :: "ocomp_registration \<Rightarrow> bool"
  ocomp_identity_hash :: "address \<Rightarrow> ConsensusPubkey \<Rightarrow> b256 option"

type_synonym 'a vset_prog = "(ValidatorSet, unit, 'a) prog"

definition MAX_SELF_REGISTERED_UNSTAKED :: u32 where
  "MAX_SELF_REGISTERED_UNSTAKED = 32"

definition CONSENSUS_VALIDATOR_BOUND :: u32 where
  "CONSENSUS_VALIDATOR_BOUND = 256"

definition OCOMP_RECOVERY_WINDOW_BLOCKS :: u64 where
  "OCOMP_RECOVERY_WINDOW_BLOCKS = 43200"

definition MAX_TEE_EXPIRED_TARGET_EXCLUSIONS :: nat where
  "MAX_TEE_EXPIRED_TARGET_EXCLUSIONS = 256"

definition readM :: "('c \<Rightarrow> ('e, 'a) result) \<Rightarrow> ('c, 'e, 'a) prog" where
  "readM f = (\<lambda>s. (f (store s), s))"

definition resultM :: "('e, 'a) result \<Rightarrow> ('c, 'e, 'a) prog" where
  "resultM r = readM (\<lambda>_. r)"

fun traverseR :: "('x \<Rightarrow> 'e + 'a) \<Rightarrow> 'x list \<Rightarrow> 'e + 'a list" where
  "traverseR f [] = Inr []"
| "traverseR f (x # xs) = andThen (f x) (\<lambda>y. andThen (traverseR f xs) (\<lambda>ys. Inr (y # ys)))"

definition emit_vset :: "ValidatorSetEvent \<Rightarrow> unit vset_prog" where
  "emit_vset ev = writeM (\<lambda>v. v\<lparr>vset_logs := vset_logs v @ [ev]\<rparr>)"

definition update_slot :: "address \<Rightarrow> (validator_slots \<Rightarrow> validator_slots) \<Rightarrow> ValidatorSet \<Rightarrow> ValidatorSet" where
  "update_slot a f v = v\<lparr>slots := (slots v)(a := f (slots v a))\<rparr>"

definition write_slot :: "address \<Rightarrow> (validator_slots \<Rightarrow> validator_slots) \<Rightarrow> unit vset_prog" where
  "write_slot a f = writeM (update_slot a f)"

definition nonzero :: "u64 \<Rightarrow> u64 option" where
  "nonzero h = (if h \<noteq> 0 then Some h else None)"

definition or_zero :: "u64 option \<Rightarrow> u64" where
  "or_zero h = (case h of None \<Rightarrow> 0 | Some x \<Rightarrow> x)"

section \<open>Reading a validator\<close>

text \<open>The 48-byte key in two 32-byte slots: bytes 0..32, and bytes 32..48 followed by zeros.\<close>

definition read_consensus_pubkey :: "validator_slots \<Rightarrow> ConsensusPubkey" where
  "read_consensus_pubkey sl =
     or (push_bit 128 (ucast (val_consensus_pubkey_lo sl))) (ucast (drop_bit 128 (val_consensus_pubkey_hi sl)))"

definition pubkey_lo :: "ConsensusPubkey \<Rightarrow> b256" where
  "pubkey_lo pk = ucast (drop_bit 128 pk)"

definition pubkey_hi :: "ConsensusPubkey \<Rightarrow> b256" where
  "pubkey_hi pk = push_bit 128 (ucast pk)"

definition write_consensus_pubkey :: "address \<Rightarrow> ConsensusPubkey \<Rightarrow> unit vset_prog" where
  "write_consensus_pubkey a pk =
     bindM (write_slot a (val_consensus_pubkey_lo_update (\<lambda>_. pubkey_lo pk))) (\<lambda>_.
     write_slot a (val_consensus_pubkey_hi_update (\<lambda>_. pubkey_hi pk)))"

definition consensus_pubkey_hash :: "vset_env \<Rightarrow> ConsensusPubkey \<Rightarrow> b256" where
  "consensus_pubkey_hash env pk = ve_keccak env (be_bytes 48 (uint pk))"

definition stored_history :: "validator_slots \<Rightarrow> ValidatorHistory" where
  "stored_history sl = \<lparr>joined_at_height = val_joined_at_height sl,
     last_deactivated_at_height = nonzero (val_deactivated_at_height sl),
     slash_count = val_slash_count sl, missed_blocks = val_missed_blocks sl,
     missed_votes = val_missed_votes sl, blocks_proposed = val_blocks_proposed sl\<rparr>"

definition stored_stake :: "validator_slots \<Rightarrow> StakeProjection" where
  "stored_stake sl = \<lparr>bonded = val_stake sl, unbonding_end_hint = nonzero (val_unbonding_end sl)\<rparr>"

definition validator_state :: "vset_env \<Rightarrow> address \<Rightarrow> ValidatorSet \<Rightarrow> ('e, ValidatorState) result" where
  "validator_state env a v =
     (let sl = slots v a in
      andThen (decode_stored a (address_to_index v a) (read_consensus_pubkey sl) (stored_stake sl) (val_status sl)
        (val_p2p_address_version sl) (val_p2p_address_payload sl) (stored_history sl)
        (val_has_bls_share sl) (val_join_confirmed sl) (val_jailed_at_height sl)) (\<lambda>st.
      case lc_registry_index (vs_lifecycle st) of
        None \<Rightarrow> Inr st
      | Some index \<Rightarrow>
          andThen (ensure (index \<le> ucast (validator_count v))
            (Fatal (Text ''validator registry index exceeds validator_count''))) (\<lambda>_.
          andThen (ensure (index_to_address v index = a)
            (Fatal (Text ''validator registry forward index mismatch''))) (\<lambda>_.
          andThen (ok_or (lc_consensus_pubkey (vs_lifecycle st))
            (Fatal (Text ''registered validator is missing consensus pubkey''))) (\<lambda>pk.
          andThen (ensure (consensus_pubkey_hash_to_address v (consensus_pubkey_hash env pk) = a)
            (Fatal (Text ''validator consensus pubkey reverse mapping mismatch''))) (\<lambda>_.
          Inr st))))))"

definition validator_lifecycle :: "vset_env \<Rightarrow> address \<Rightarrow> ValidatorSet \<Rightarrow> ('e, ValidatorLifecycle) result" where
  "validator_lifecycle env a v = andThen (validator_state env a v) (\<lambda>st. Inr (vs_lifecycle st))"

definition registered_status :: "ValidatorLifecycle \<Rightarrow> ('e, u8) result" where
  "registered_status lc = ok_or (stored_status lc) (Fatal (Text ''Unregistered lifecycle has no persisted status''))"

section \<open>Writing a validator\<close>

definition write_changed ::
    "address \<Rightarrow> (('x \<Rightarrow> 'x) \<Rightarrow> validator_slots \<Rightarrow> validator_slots) \<Rightarrow> 'x \<Rightarrow> 'x \<Rightarrow> unit vset_prog" where
  "write_changed a field old new = (if old \<noteq> new then write_slot a (field (\<lambda>_. new)) else retM ())"

definition hist_or_zero :: "(ValidatorHistory \<Rightarrow> u64) \<Rightarrow> ValidatorLifecycle \<Rightarrow> u64" where
  "hist_or_zero f lc = (case lc_history lc of None \<Rightarrow> 0 | Some h \<Rightarrow> f h)"

definition deactivated_or_zero :: "ValidatorLifecycle \<Rightarrow> u64" where
  "deactivated_or_zero lc = (case lc_history lc of None \<Rightarrow> 0 | Some h \<Rightarrow> or_zero (last_deactivated_at_height h))"

definition p2p_stored :: "ValidatorLifecycle \<Rightarrow> u8 \<times> bytes" where
  "p2p_stored lc = (case lc_p2p lc of None \<Rightarrow> (0, []) | Some info \<Rightarrow> P2pInfo_encode_stored info)"

definition persist_lifecycle_fields ::
    "address \<Rightarrow> ValidatorLifecycle \<Rightarrow> ValidatorLifecycle \<Rightarrow> unit vset_prog" where
  "persist_lifecycle_fields a before after =
     bindM (write_changed a val_stake_update (lc_bonded_stake before) (lc_bonded_stake after)) (\<lambda>_.
     bindM (if stored_status before \<noteq> stored_status after then
              bindM (unwrapM (stored_status after)
                (Fatal (Text ''generic validator persistence cannot write an absent lifecycle''))) (\<lambda>st.
              write_slot a (val_status_update (\<lambda>_. st)))
            else retM ()) (\<lambda>_.
     bindM (write_changed a val_slash_count_update (hist_or_zero slash_count before) (hist_or_zero slash_count after)) (\<lambda>_.
     bindM (write_changed a val_missed_blocks_update (hist_or_zero missed_blocks before) (hist_or_zero missed_blocks after)) (\<lambda>_.
     bindM (write_changed a val_missed_votes_update (hist_or_zero missed_votes before) (hist_or_zero missed_votes after)) (\<lambda>_.
     bindM (write_changed a val_blocks_proposed_update (hist_or_zero blocks_proposed before) (hist_or_zero blocks_proposed after)) (\<lambda>_.
     bindM (write_changed a val_joined_at_height_update (hist_or_zero joined_at_height before) (hist_or_zero joined_at_height after)) (\<lambda>_.
     bindM (write_changed a val_deactivated_at_height_update (deactivated_or_zero before) (deactivated_or_zero after)) (\<lambda>_.
     bindM (write_changed a val_unbonding_end_update (or_zero (lc_unbonding_end_hint before)) (or_zero (lc_unbonding_end_hint after))) (\<lambda>_.
     bindM (write_changed a val_has_bls_share_update (has_bls_share before) (has_bls_share after)) (\<lambda>_.
     bindM (write_changed a val_join_confirmed_update (join_confirmed before) (join_confirmed after)) (\<lambda>_.
     bindM (write_changed a val_jailed_at_height_update (stored_jailed_at before) (stored_jailed_at after)) (\<lambda>_.
     if p2p_stored before \<noteq> p2p_stored after then
       bindM (write_slot a (val_p2p_address_version_update (\<lambda>_. fst (p2p_stored after)))) (\<lambda>_.
       write_slot a (val_p2p_address_payload_update (\<lambda>_. snd (p2p_stored after))))
     else retM ()))))))))))))"

definition persist_validator_state_delta_inner ::
    "ValidatorState \<Rightarrow> ValidatorState \<Rightarrow> bool \<Rightarrow> unit vset_prog" where
  "persist_validator_state_delta_inner before after allow_registry_identity_change =
     (let b = vs_lifecycle before; a = vs_lifecycle after in
      bindM (resultM (lc_validate b)) (\<lambda>_.
      bindM (resultM (lc_validate a)) (\<lambda>_.
      bindM (requireM (vs_address before = vs_address after \<and>
          (allow_registry_identity_change \<or>
           lc_registry_index b = lc_registry_index a \<and> lc_consensus_pubkey b = lc_consensus_pubkey a))
        (Fatal (Text ''validator lifecycle transition attempted to change registry identity''))) (\<lambda>_.
      bindM (if allow_registry_identity_change then
          bindM (unwrapM (lc_consensus_pubkey a)
            (Fatal (Text ''registered validator is missing consensus pubkey''))) (\<lambda>pk.
          bindM (requireM (lc_registry_index a \<noteq> None)
            (Fatal (Text ''registered validator is missing registry index''))) (\<lambda>_.
          if lc_consensus_pubkey b \<noteq> Some pk then write_consensus_pubkey (vs_address after) pk else retM ()))
        else retM ()) (\<lambda>_.
      persist_lifecycle_fields (vs_address after) b a)))))"

definition persist_validator_state_delta :: "ValidatorState \<Rightarrow> ValidatorState \<Rightarrow> unit vset_prog" where
  "persist_validator_state_delta before after = persist_validator_state_delta_inner before after False"

definition persist_registry_state_delta :: "ValidatorState \<Rightarrow> ValidatorState \<Rightarrow> unit vset_prog" where
  "persist_registry_state_delta before after = persist_validator_state_delta_inner before after True"

section \<open>Views of the registry\<close>

definition validator_address_at :: "u64 \<Rightarrow> ValidatorSet \<Rightarrow> ('e, address option) result" where
  "validator_address_at index v =
     (if index = 0 \<or> ucast (validator_count v) < index then Inr None
      else
        let a = index_to_address v index in
        if a = 0 then Inl (Fatal (Text ''validator registry index is empty below validator_count''))
        else if address_to_index v a \<noteq> index then Inl (Fatal (Text ''validator registry reverse index mismatch''))
        else Inr (Some a))"

definition registered_validator_addresses :: "ValidatorSet \<Rightarrow> ('e, address list) result" where
  "registered_validator_addresses v =
     traverseR (\<lambda>i. andThen (validator_address_at (word_of_nat i) v) (\<lambda>a.
       ok_or a (Fatal (Text ''validator registry index is empty below validator_count''))))
       [1..<Suc (unat (validator_count v))]"

definition validator_addresses_matching ::
    "vset_env \<Rightarrow> (ValidatorLifecycle \<Rightarrow> bool) \<Rightarrow> ValidatorSet \<Rightarrow> ('e, address list) result" where
  "validator_addresses_matching env P v =
     andThen (registered_validator_addresses v) (\<lambda>addrs.
     andThen (traverseR (\<lambda>a. andThen (validator_lifecycle env a v) (\<lambda>lc. Inr (a, P lc))) addrs) (\<lambda>ps.
     Inr (map fst (filter snd ps))))"

record ValidatorRecord =
  vr_validator_address :: address
  vr_consensus_pubkey :: ConsensusPubkey
  vr_stake :: u256
  vr_status :: u8
  vr_slash_count :: u64
  vr_missed_blocks :: u64
  vr_missed_votes :: u64
  vr_blocks_proposed :: u64
  vr_joined_at_height :: u64
  vr_deactivated_at_height :: u64
  vr_unbonding_end :: u64
  vr_has_bls_share :: bool

definition read_validator_record :: "vset_env \<Rightarrow> address \<Rightarrow> ValidatorSet \<Rightarrow> ('e, ValidatorRecord) result" where
  "read_validator_record env a v =
     andThen (validator_state env a v) (\<lambda>st.
     let lc = vs_lifecycle st in
     andThen (ok_or (stored_status lc) (Fatal (Text ''cannot project absent validator into ValidatorRecord''))) (\<lambda>status.
     andThen (ok_or (lc_history lc) (Fatal (Text ''registered validator is missing history''))) (\<lambda>h.
     andThen (ok_or (lc_consensus_pubkey lc) (Fatal (Text ''registered validator is missing consensus public key''))) (\<lambda>pk.
     Inr \<lparr>vr_validator_address = a, vr_consensus_pubkey = pk, vr_stake = lc_bonded_stake lc, vr_status = status,
       vr_slash_count = slash_count h, vr_missed_blocks = missed_blocks h, vr_missed_votes = missed_votes h,
       vr_blocks_proposed = blocks_proposed h, vr_joined_at_height = joined_at_height h,
       vr_deactivated_at_height = or_zero (last_deactivated_at_height h),
       vr_unbonding_end = or_zero (lc_unbonding_end_hint lc), vr_has_bls_share = has_bls_share lc\<rparr>))))"

definition get_validator :: "vset_env \<Rightarrow> address \<Rightarrow> ValidatorSet \<Rightarrow> ('e, ValidatorRecord option) result" where
  "get_validator env a v =
     (if address_to_index v a = 0 then Inr None
      else andThen (read_validator_record env a v) (\<lambda>r. Inr (Some r)))"

definition get_all_validators :: "vset_env \<Rightarrow> ValidatorSet \<Rightarrow> ('e, ValidatorRecord list) result" where
  "get_all_validators env v =
     andThen (registered_validator_addresses v) (traverseR (\<lambda>a. read_validator_record env a v))"

definition get_validators_matching ::
    "vset_env \<Rightarrow> (ValidatorLifecycle \<Rightarrow> bool) \<Rightarrow> ValidatorSet \<Rightarrow> ('e, ValidatorRecord list) result" where
  "get_validators_matching env P v =
     andThen (validator_addresses_matching env P v) (traverseR (\<lambda>a. read_validator_record env a v))"

definition get_active_validators :: "vset_env \<Rightarrow> ValidatorSet \<Rightarrow> ('e, ValidatorRecord list) result" where
  "get_active_validators env = get_validators_matching env is_active_status"

definition get_pending_validators :: "vset_env \<Rightarrow> ValidatorSet \<Rightarrow> ('e, ValidatorRecord list) result" where
  "get_pending_validators env = get_validators_matching env is_pending"

definition get_admitted_non_consensus_validators ::
    "vset_env \<Rightarrow> ValidatorSet \<Rightarrow> ('e, ValidatorRecord list) result" where
  "get_admitted_non_consensus_validators env = get_validators_matching env is_secondary_admission"

definition get_active_consensus_set :: "vset_env \<Rightarrow> ValidatorSet \<Rightarrow> ('e, ValidatorRecord list) result" where
  "get_active_consensus_set env = get_validators_matching env is_current_consensus_participant"

definition read_ocomp_registration ::
    "vset_env \<Rightarrow> address \<Rightarrow> ValidatorSet \<Rightarrow> ('e, ocomp_registration option) result" where
  "read_ocomp_registration env a v =
     (let bs = val_ocomp_registration v a in
      if bs = [] then Inr None
      else andThen (ok_or (ocomp_decode env bs) (Fatal (Text ''stored OCOMP registration is invalid''))) (\<lambda>r. Inr (Some r)))"

definition get_reshare_target_set :: "vset_env \<Rightarrow> ValidatorSet \<Rightarrow> ('e, ValidatorRecord list) result" where
  "get_reshare_target_set env v =
     andThen (get_validators_matching env is_reshare_target v) (\<lambda>rs.
     andThen (traverseR (\<lambda>r.
       if vr_status r = ACTIVE then Inr (r, True)
       else if vr_status r = PENDING then
         andThen (read_ocomp_registration env (vr_validator_address r) v) (\<lambda>reg. Inr (r, reg \<noteq> None))
       else Inr (r, False)) rs) (\<lambda>ps.
     Inr (map fst (filter snd ps))))"

definition count_u32 :: "nat \<Rightarrow> string \<Rightarrow> ('e, u32) result" where
  "count_u32 n msg = (if n < 2 ^ 32 then Inr (word_of_nat n) else Inl (Revert (Text msg)))"

definition active_validator_count :: "vset_env \<Rightarrow> ValidatorSet \<Rightarrow> ('e, u32) result" where
  "active_validator_count env v =
     andThen (validator_addresses_matching env is_active_status v) (\<lambda>addrs.
     count_u32 (length addrs) ''active validator count exceeds u32'')"

definition registered_count :: "vset_env \<Rightarrow> ValidatorSet \<Rightarrow> ('e, u32) result" where
  "registered_count env v =
     andThen (validator_addresses_matching env is_registered_status v) (\<lambda>addrs.
     count_u32 (length addrs) ''registered validator count exceeds u32'')"

definition active_consensus_count :: "vset_env \<Rightarrow> ValidatorSet \<Rightarrow> ('e, u32) result" where
  "active_consensus_count env v =
     andThen (validator_addresses_matching env is_current_consensus_participant v) (\<lambda>addrs.
     count_u32 (length addrs) ''active consensus count exceeds u32'')"

definition is_consensus_participant :: "vset_env \<Rightarrow> address \<Rightarrow> ValidatorSet \<Rightarrow> ('e, bool) result" where
  "is_consensus_participant env a v =
     andThen (validator_lifecycle env a v) (\<lambda>lc. Inr (is_current_consensus_participant lc))"

definition is_validator :: "vset_env \<Rightarrow> address \<Rightarrow> ValidatorSet \<Rightarrow> ('e, bool) result" where
  "is_validator env a v = andThen (validator_lifecycle env a v) (\<lambda>lc. Inr (lc \<noteq> Absent))"

definition get_p2p_address :: "vset_env \<Rightarrow> address \<Rightarrow> ValidatorSet \<Rightarrow> ('e, (u8 \<times> bytes) option) result" where
  "get_p2p_address env a v =
     andThen (validator_lifecycle env a v) (\<lambda>lc.
     andThen (ok_or (lc_p2p lc) (Revert (Text ''validator not registered''))) (\<lambda>info.
     if info = Unset then Inr None else Inr (Some (P2pInfo_encode_stored info))))"

definition current_epoch_u64 :: "ValidatorSet \<Rightarrow> ('e, u64) result" where
  "current_epoch_u64 v =
     (if unat (epoch_number v) < 2 ^ 64 then Inr (ucast (epoch_number v))
      else Inl (Fatal (Text ''ValidatorSet.epoch_number exceeds u64'')))"

section \<open>The abstract registry\<close>

text \<open>What the slots of a validator hold when its lifecycle is \<open>lc\<close>.\<close>

definition encode_lifecycle :: "ValidatorLifecycle \<Rightarrow> validator_slots" where
  "encode_lifecycle lc =
     \<lparr>val_consensus_pubkey_lo = (case lc_consensus_pubkey lc of None \<Rightarrow> 0 | Some pk \<Rightarrow> pubkey_lo pk),
      val_consensus_pubkey_hi = (case lc_consensus_pubkey lc of None \<Rightarrow> 0 | Some pk \<Rightarrow> pubkey_hi pk),
      val_stake = lc_bonded_stake lc,
      val_status = (case stored_status lc of None \<Rightarrow> REGISTERED | Some st \<Rightarrow> st),
      val_slash_count = hist_or_zero slash_count lc,
      val_missed_blocks = hist_or_zero missed_blocks lc,
      val_missed_votes = hist_or_zero missed_votes lc,
      val_blocks_proposed = hist_or_zero blocks_proposed lc,
      val_joined_at_height = hist_or_zero joined_at_height lc,
      val_deactivated_at_height = deactivated_or_zero lc,
      val_unbonding_end = or_zero (lc_unbonding_end_hint lc),
      val_has_bls_share = has_bls_share lc,
      val_p2p_address_version = fst (p2p_stored lc),
      val_p2p_address_payload = snd (p2p_stored lc),
      val_join_confirmed = join_confirmed lc,
      val_jailed_at_height = stored_jailed_at lc\<rparr>"

text \<open>\<open>registry_view env v L\<close>: the storage \<open>v\<close> represents the validators \<open>L\<close>. Every address has a
  well-formed lifecycle whose fields are in its slots, the registered addresses are numbered from 1 to
  \<open>validator_count\<close> without gaps, and every registered key is looked up to its owner.\<close>

definition registry_view :: "vset_env \<Rightarrow> ValidatorSet \<Rightarrow> (address \<Rightarrow> ValidatorLifecycle) \<Rightarrow> bool" where
  "registry_view env v L \<longleftrightarrow>
     (\<forall>a. wf_lifecycle (L a)) \<and>
     (\<forall>a. slots v a = encode_lifecycle (L a)) \<and>
     (\<forall>a. lc_registry_index (L a) = nonzero (address_to_index v a)) \<and>
     (\<forall>a. L a \<noteq> Absent \<longrightarrow> address_to_index v a \<le> ucast (validator_count v) \<and>
        index_to_address v (address_to_index v a) = a) \<and>
     (\<forall>i. 0 < i \<and> i \<le> ucast (validator_count v) \<longrightarrow>
        index_to_address v i \<noteq> 0 \<and> address_to_index v (index_to_address v i) = i) \<and>
     (\<forall>a pk. lc_consensus_pubkey (L a) = Some pk \<longrightarrow>
        consensus_pubkey_hash_to_address v (consensus_pubkey_hash env pk) = a)"

text \<open>\<open>edits a sl sl' m\<close>: started with the slots \<open>sl\<close> at \<open>a\<close>, a successful run of \<open>m\<close> leaves \<open>sl'\<close> there and
  changes nothing else.\<close>

definition edits :: "address \<Rightarrow> validator_slots \<Rightarrow> validator_slots \<Rightarrow> 'a vset_prog \<Rightarrow> bool" where
  "edits a sl sl' m \<longleftrightarrow> (\<forall>s u t. m s = (Inr u, t) \<longrightarrow> slots (store s) a = sl \<longrightarrow>
     store t = (store s)\<lparr>slots := (slots (store s))(a := sl')\<rparr>)"

text \<open>The slots of a lifecycle under a given stored key.\<close>

definition encode_under :: "b256 \<Rightarrow> b256 \<Rightarrow> ValidatorLifecycle \<Rightarrow> validator_slots" where
  "encode_under lo hi lc = (encode_lifecycle lc)\<lparr>val_consensus_pubkey_lo := lo, val_consensus_pubkey_hi := hi\<rparr>"

definition registry_list :: "ValidatorSet \<Rightarrow> address list" where
  "registry_list v = map (\<lambda>i. index_to_address v (word_of_nat i)) [1..<Suc (unat (validator_count v))]"

section \<open>Programs that read\<close>

lemma readM_ok [prog_ok]: "readM f s = (Inr a, t) \<longleftrightarrow> f (store s) = Inr a \<and> t = s"
  by (auto simp: readM_def)

lemma readM_err [prog_err]: "readM f s = (Inl e, t) \<longleftrightarrow> f (store s) = Inl e \<and> t = s"
  by (auto simp: readM_def)

lemma pure_readM [pure_intros]: "pure_prog (readM f)"
  by (simp add: pure_prog_def readM_def)

lemma atomic_readM [atomic_intros]: "atomic_prog (readM f)"
  by (rule atomic_pure [OF pure_readM])

lemma resultM_ok [prog_ok]: "resultM r s = (Inr a, t) \<longleftrightarrow> r = Inr a \<and> t = s"
  by (simp add: resultM_def readM_ok)

lemma pure_resultM [pure_intros]: "pure_prog (resultM r)"
  by (simp add: resultM_def pure_readM)

lemma atomic_resultM [atomic_intros]: "atomic_prog (resultM r)"
  by (rule atomic_pure [OF pure_resultM])

lemma traverseR_ok: "traverseR f xs = Inr ys \<longleftrightarrow> list_all2 (\<lambda>x y. f x = Inr y) xs ys"
  by (induction xs arbitrary: ys) (auto simp: list_all2_Cons1)

lemma traverseR_map: "(\<And>x. x \<in> set xs \<Longrightarrow> f x = Inr (g x)) \<Longrightarrow> traverseR f xs = Inr (map g xs)"
  by (induction xs) auto

section \<open>The two slots of a key\<close>

lemma pubkey_round_trip:
  "or (push_bit 128 (ucast (pubkey_lo pk))) (ucast (drop_bit 128 (pubkey_hi pk))) = pk"
  by (rule bit_word_eqI) (auto simp: pubkey_lo_def pubkey_hi_def bit_simps dest: bit_imp_le_length)

lemma pubkey_zero: "pubkey_lo 0 = 0" "pubkey_hi 0 = 0"
  by (simp_all add: pubkey_lo_def pubkey_hi_def)

lemma read_encoded_pubkey:
  "read_consensus_pubkey (encode_lifecycle lc) = (case lc_consensus_pubkey lc of None \<Rightarrow> 0 | Some pk \<Rightarrow> pk)"
  by (simp add: read_consensus_pubkey_def encode_lifecycle_def pubkey_round_trip split: option.split)

lemma nonzero_or_zero: "h \<noteq> Some 0 \<Longrightarrow> nonzero (or_zero h) = h"
  by (auto simp: nonzero_def or_zero_def split: option.splits)

lemma or_zero_None: "or_zero None = 0"
  by (simp add: or_zero_def)

lemma nonzero_eq [simp]:
  "nonzero x = None \<longleftrightarrow> x = 0" "nonzero x = Some y \<longleftrightarrow> x = y \<and> x \<noteq> 0"
  "None = nonzero x \<longleftrightarrow> x = 0" "Some y = nonzero x \<longleftrightarrow> x = y \<and> x \<noteq> 0"
  by (auto simp: nonzero_def)

section \<open>Decoding what was encoded\<close>

lemma encode_v1_nonempty: "encode_v1 a \<noteq> []"
  by (cases a) simp_all

lemma decode_encode_v1: "valid_p2p a \<Longrightarrow> decode_v1 (encode_v1 a) = Inr a"
  by (simp add: decode_v1_iff)

lemma P2pInfo_round_trip:
  "p2p_canonical info \<Longrightarrow> P2pInfo_decode_stored (fst (P2pInfo_encode_stored info)) (snd (P2pInfo_encode_stored info)) = Inr info"
  by (cases info) (auto simp: P2pInfo_decode_stored_def P2P_ADDRESS_VERSION_V1_def decode_versioned_def map_err_def
      decode_encode_v1 encode_v1_nonempty)

lemma encoded_stake:
  "wf_lifecycle lc \<Longrightarrow> stored_stake (encode_lifecycle lc) =
     (case lc_stake lc of None \<Rightarrow> StakeProjection_zero | Some st \<Rightarrow> st)"
  by (cases "lc_stake lc")
     (auto simp: stored_stake_def encode_lifecycle_def lc_bonded_stake_def lc_unbonding_end_hint_def StakeProjection_zero_def
       nonzero_or_zero wf_lifecycle_def valid_lifecycle_def or_zero_None)

lemma encoded_history:
  "wf_lifecycle lc \<Longrightarrow> stored_history (encode_lifecycle lc) =
     (case lc_history lc of None \<Rightarrow> ValidatorHistory_fresh 0 | Some h \<Rightarrow> h)"
  by (cases "lc_history lc")
     (auto simp: stored_history_def encode_lifecycle_def hist_or_zero_def deactivated_or_zero_def ValidatorHistory_fresh_def
       nonzero_or_zero wf_lifecycle_def valid_lifecycle_def)

lemmas status_defs = REGISTERED_def PENDING_def ACTIVE_def EXITING_def UNBONDING_def INACTIVE_def JAILED_def

lemma decode_encoded_p2p:
  "wf_lifecycle lc \<Longrightarrow>
   P2pInfo_decode_stored (val_p2p_address_version (encode_lifecycle lc)) (val_p2p_address_payload (encode_lifecycle lc)) =
     Inr (case lc_p2p lc of None \<Rightarrow> Unset | Some info \<Rightarrow> info)"
  by (cases "lc_p2p lc")
     (simp_all add: encode_lifecycle_def p2p_stored_def P2pInfo_round_trip wf_lifecycle_def P2pInfo_decode_stored_def
       [of 0 "[]"])

lemma encoded_flags:
  "val_status (encode_lifecycle lc) = (case stored_status lc of None \<Rightarrow> REGISTERED | Some st \<Rightarrow> st)"
  "val_has_bls_share (encode_lifecycle lc) = has_bls_share lc"
  "val_join_confirmed (encode_lifecycle lc) = join_confirmed lc"
  "val_jailed_at_height (encode_lifecycle lc) = stored_jailed_at lc"
  by (simp_all add: encode_lifecycle_def)

lemma decode_encoded:
  assumes "wf_lifecycle lc" "lc_registry_index lc = nonzero i"
  shows "decode_stored a i (read_consensus_pubkey (encode_lifecycle lc)) (stored_stake (encode_lifecycle lc))
     (val_status (encode_lifecycle lc)) (val_p2p_address_version (encode_lifecycle lc))
     (val_p2p_address_payload (encode_lifecycle lc)) (stored_history (encode_lifecycle lc))
     (val_has_bls_share (encode_lifecycle lc)) (val_join_confirmed (encode_lifecycle lc))
     (val_jailed_at_height (encode_lifecycle lc)) = Inr \<lparr>vs_address = a, vs_lifecycle = lc\<rparr>"
  using assms
  unfolding decode_stored_def decode_encoded_p2p [OF assms(1)] encoded_stake [OF assms(1)] encoded_history [OF assms(1)]
    read_encoded_pubkey encoded_flags
  by (cases lc)
     (auto simp: lifecycle_of_status_def status_defs wf_lifecycle_def valid_lifecycle_def payload_views
       from_lifecycle_ok validate_stored_status_def StakeProjection_zero_def ValidatorHistory_fresh_def
       ValidatorHistory_is_zero_def)

lemma validator_state_view:
  assumes "registry_view env v L"
  shows "validator_state env a v = Inr \<lparr>vs_address = a, vs_lifecycle = L a\<rparr>"
proof -
  have sl: "slots v a = encode_lifecycle (L a)" and wf: "wf_lifecycle (L a)"
    and ix: "lc_registry_index (L a) = nonzero (address_to_index v a)"
    using assms by (auto simp: registry_view_def)
  show ?thesis
  proof (cases "L a = Absent")
    case True
    then show ?thesis
      unfolding validator_state_def Let_def sl decode_encoded [OF wf ix] by (simp add: lc_registry_index_def)
  next
    case False
    then obtain pk where "lc_consensus_pubkey (L a) = Some pk" "address_to_index v a \<noteq> 0"
      using ix by (cases "L a") (auto simp: lc_consensus_pubkey_def lc_registry_index_def)
    then show ?thesis
      using assms False unfolding validator_state_def Let_def sl decode_encoded [OF wf ix]
      by (auto simp: registry_view_def nonzero_def)
  qed
qed

section \<open>Writing a lifecycle\<close>

lemma edits_bind:
  assumes "edits a sl sl1 m" "\<And>x. edits a sl1 sl2 (k x)"
  shows "edits a sl sl2 (bindM m k)"
  unfolding edits_def
proof (intro allI impI)
  fix s u t assume r: "bindM m k s = (Inr u, t)" and sl: "slots (store s) a = sl"
  from r obtain x s1 where m: "m s = (Inr x, s1)" and k: "k x s1 = (Inr u, t)" by (auto simp: bindM_ok)
  from m sl assms(1) have s1: "store s1 = (store s)\<lparr>slots := (slots (store s))(a := sl1)\<rparr>"
    unfolding edits_def by blast
  then have "slots (store s1) a = sl1" by simp
  with k assms(2) have "store t = (store s1)\<lparr>slots := (slots (store s1))(a := sl2)\<rparr>"
    unfolding edits_def by blast
  with s1 show "store t = (store s)\<lparr>slots := (slots (store s))(a := sl2)\<rparr>" by simp
qed

lemma edits_nothing: "pure_prog m \<Longrightarrow> edits a sl sl m"
  unfolding edits_def by (auto dest!: pure_store intro!: ValidatorSet.equality)

lemma edits_write: "edits a sl (f sl) (write_slot a f)"
  by (auto simp: edits_def write_slot_def update_slot_def writeM_ok)

lemma edits_changed: "field (\<lambda>_. old) sl = sl \<Longrightarrow> edits a sl (field (\<lambda>_. new) sl) (write_changed a field old new)"
  unfolding write_changed_def
  by (cases "old = new") (simp_all add: edits_write edits_nothing [OF pure_retM])

lemma edits_into: "edits a sl sl' m \<Longrightarrow> sl' = sl'' \<Longrightarrow> edits a sl sl'' m"
  by simp

lemma edits_pubkey:
  "edits a sl (sl\<lparr>val_consensus_pubkey_lo := pubkey_lo pk, val_consensus_pubkey_hi := pubkey_hi pk\<rparr>)
     (write_consensus_pubkey a pk)"
  unfolding write_consensus_pubkey_def by (rule edits_bind, rule edits_write, rule edits_into, rule edits_write) simp

lemma edits_status:
  assumes "val_status sl = (case stored_status b of None \<Rightarrow> REGISTERED | Some st \<Rightarrow> st)"
  shows "edits a sl (sl\<lparr>val_status := (case stored_status c of None \<Rightarrow> REGISTERED | Some st \<Rightarrow> st)\<rparr>)
     (if stored_status b \<noteq> stored_status c then bindM (unwrapM (stored_status c) e) (\<lambda>st. write_slot a (val_status_update (\<lambda>_. st)))
      else retM ())"
proof (cases "stored_status b = stored_status c")
  case True
  with assms have "sl\<lparr>val_status := (case stored_status c of None \<Rightarrow> REGISTERED | Some st \<Rightarrow> st)\<rparr> = sl"
    by (cases sl) simp
  with True show ?thesis by (simp add: edits_nothing [OF pure_retM])
next
  case False
  then show ?thesis
    by (auto simp: edits_def unwrapM_ok bindM_ok write_slot_def update_slot_def writeM_ok)
qed

lemma edits_p2p:
  assumes "val_p2p_address_version sl = fst (p2p_stored b)" "val_p2p_address_payload sl = snd (p2p_stored b)"
  shows "edits a sl (sl\<lparr>val_p2p_address_version := fst (p2p_stored c), val_p2p_address_payload := snd (p2p_stored c)\<rparr>)
     (if p2p_stored b \<noteq> p2p_stored c then
       bindM (write_slot a (val_p2p_address_version_update (\<lambda>_. fst (p2p_stored c)))) (\<lambda>_.
       write_slot a (val_p2p_address_payload_update (\<lambda>_. snd (p2p_stored c))))
     else retM ())"
proof (cases "p2p_stored b = p2p_stored c")
  case True
  with assms have "sl\<lparr>val_p2p_address_version := fst (p2p_stored c), val_p2p_address_payload := snd (p2p_stored c)\<rparr> = sl"
    by (cases sl) simp
  with True show ?thesis by (simp add: edits_nothing [OF pure_retM])
next
  case False
  have "edits a sl (sl\<lparr>val_p2p_address_version := fst (p2p_stored c), val_p2p_address_payload := snd (p2p_stored c)\<rparr>)
     (bindM (write_slot a (val_p2p_address_version_update (\<lambda>_. fst (p2p_stored c)))) (\<lambda>_.
       write_slot a (val_p2p_address_payload_update (\<lambda>_. snd (p2p_stored c)))))"
    by (rule edits_bind, rule edits_write, rule edits_into, rule edits_write) simp
  with False show ?thesis by simp
qed

lemma edits_lifecycle_fields:
  "edits a (encode_under lo hi b) (encode_under lo hi c) (persist_lifecycle_fields a b c)"
  unfolding persist_lifecycle_fields_def encode_under_def encode_lifecycle_def validator_slots.update_convs
  by (rule edits_bind, rule edits_changed, simp, rule edits_bind, rule edits_status, simp,
      (rule edits_bind, rule edits_changed, simp)+, rule edits_into, rule edits_p2p, simp, simp, simp)

lemma encode_as_under:
  "encode_lifecycle lc = encode_under (val_consensus_pubkey_lo (encode_lifecycle lc)) (val_consensus_pubkey_hi (encode_lifecycle lc)) lc"
  by (simp add: encode_under_def)

lemma encode_same_key:
  "lc_consensus_pubkey b = lc_consensus_pubkey c \<Longrightarrow>
   encode_lifecycle c = encode_under (val_consensus_pubkey_lo (encode_lifecycle b)) (val_consensus_pubkey_hi (encode_lifecycle b)) c"
  by (simp add: encode_under_def encode_lifecycle_def)

lemma persist_delta_ok:
  assumes "persist_validator_state_delta before after s = (Inr u, t)"
    and "slots (store s) (vs_address after) = encode_lifecycle (vs_lifecycle before)"
  shows "store t = (store s)\<lparr>slots := (slots (store s))(vs_address after := encode_lifecycle (vs_lifecycle after))\<rparr>"
    and "valid_lifecycle (vs_lifecycle after)"
    and "vs_address before = vs_address after"
    and "lc_registry_index (vs_lifecycle before) = lc_registry_index (vs_lifecycle after)"
    and "lc_consensus_pubkey (vs_lifecycle before) = lc_consensus_pubkey (vs_lifecycle after)"
proof -
  from assms(1) have f: "persist_lifecycle_fields (vs_address after) (vs_lifecycle before) (vs_lifecycle after) s = (Inr u, t)"
    and v: "valid_lifecycle (vs_lifecycle after)" and a: "vs_address before = vs_address after"
    and i: "lc_registry_index (vs_lifecycle before) = lc_registry_index (vs_lifecycle after)"
    and k: "lc_consensus_pubkey (vs_lifecycle before) = lc_consensus_pubkey (vs_lifecycle after)"
    by (auto simp: persist_validator_state_delta_def persist_validator_state_delta_inner_def Let_def prog_ok lc_validate_ok)
  from f assms(2) show "store t = (store s)\<lparr>slots := (slots (store s))(vs_address after := encode_lifecycle (vs_lifecycle after))\<rparr>"
    using edits_lifecycle_fields encode_as_under [of "vs_lifecycle before"] encode_same_key [OF k]
    unfolding edits_def by metis
  show "valid_lifecycle (vs_lifecycle after)" "vs_address before = vs_address after"
    "lc_registry_index (vs_lifecycle before) = lc_registry_index (vs_lifecycle after)"
    "lc_consensus_pubkey (vs_lifecycle before) = lc_consensus_pubkey (vs_lifecycle after)"
    by fact+
qed

lemma persist_registry_ok:
  assumes "persist_registry_state_delta before after s = (Inr u, t)"
    and "slots (store s) (vs_address after) = encode_lifecycle (vs_lifecycle before)"
  shows "store t = (store s)\<lparr>slots := (slots (store s))(vs_address after := encode_lifecycle (vs_lifecycle after))\<rparr>"
proof -
  let ?a = "vs_address after" and ?b = "vs_lifecycle before" and ?c = "vs_lifecycle after"
  from assms(1) obtain pk s1 where pk: "lc_consensus_pubkey ?c = Some pk"
    and w: "(if lc_consensus_pubkey ?b \<noteq> Some pk then write_consensus_pubkey ?a pk else retM ()) s = (Inr (), s1)"
    and f: "persist_lifecycle_fields ?a ?b ?c s1 = (Inr u, t)"
    unfolding persist_registry_state_delta_def persist_validator_state_delta_inner_def Let_def
    by (auto simp: prog_ok split del: if_split)
  have "edits ?a (encode_lifecycle ?b) (encode_under (pubkey_lo pk) (pubkey_hi pk) ?b)
      (if lc_consensus_pubkey ?b \<noteq> Some pk then write_consensus_pubkey ?a pk else retM ())"
  proof (cases "lc_consensus_pubkey ?b = Some pk")
    case True
    then have "encode_under (pubkey_lo pk) (pubkey_hi pk) ?b = encode_lifecycle ?b"
      by (simp add: encode_under_def encode_lifecycle_def)
    with True show ?thesis by (simp add: edits_nothing [OF pure_retM])
  next
    case False
    then show ?thesis using edits_pubkey [of ?a "encode_lifecycle ?b" pk] by (simp add: encode_under_def)
  qed
  with w assms(2) have s1: "store s1 = (store s)\<lparr>slots := (slots (store s))(?a := encode_under (pubkey_lo pk) (pubkey_hi pk) ?b)\<rparr>"
    unfolding edits_def by blast
  then have "slots (store s1) ?a = encode_under (pubkey_lo pk) (pubkey_hi pk) ?b" by simp
  with f have "store t = (store s1)\<lparr>slots := (slots (store s1))(?a := encode_under (pubkey_lo pk) (pubkey_hi pk) ?c)\<rparr>"
    using edits_lifecycle_fields unfolding edits_def by blast
  moreover have "encode_under (pubkey_lo pk) (pubkey_hi pk) ?c = encode_lifecycle ?c"
    using pk by (simp add: encode_under_def encode_lifecycle_def)
  ultimately show ?thesis using s1 by simp
qed

section \<open>Reasoning about views\<close>

lemma view_wf: "registry_view env v L \<Longrightarrow> wf_lifecycle (L a)"
  by (simp add: registry_view_def)

lemma view_slots: "registry_view env v L \<Longrightarrow> slots v a = encode_lifecycle (L a)"
  by (simp add: registry_view_def)

lemma view_index: "registry_view env v L \<Longrightarrow> lc_registry_index (L a) = nonzero (address_to_index v a)"
  by (simp add: registry_view_def)

lemma index_None: "lc_registry_index lc = None \<longleftrightarrow> lc = Absent"
  by (cases lc) (simp_all add: lc_registry_index_def)

lemma pubkey_None: "lc_consensus_pubkey lc = None \<longleftrightarrow> lc = Absent"
  by (cases lc) (simp_all add: lc_consensus_pubkey_def)

lemma view_absent: "registry_view env v L \<Longrightarrow> L a = Absent \<longleftrightarrow> address_to_index v a = 0"
  using view_index [of env v L a] index_None [of "L a"] by auto

lemma view_frame:
  "registry_view env (v\<lparr>pending_set_change := b\<rparr>) L \<longleftrightarrow> registry_view env v L"
  "registry_view env (v\<lparr>vset_logs := l\<rparr>) L \<longleftrightarrow> registry_view env v L"
  "registry_view env (v\<lparr>active_consensus_set_hash := h\<rparr>) L \<longleftrightarrow> registry_view env v L"
  "registry_view env (v\<lparr>val_ocomp_registration := r\<rparr>) L \<longleftrightarrow> registry_view env v L"
  "registry_view env (v\<lparr>ocomp_key_hash_to_validator := k\<rparr>) L \<longleftrightarrow> registry_view env v L"
  "registry_view env (v\<lparr>val_radicle_node_id := n\<rparr>) L \<longleftrightarrow> registry_view env v L"
  "registry_view env (v\<lparr>radicle_node_id_to_validator := m\<rparr>) L \<longleftrightarrow> registry_view env v L"
  "registry_view env (v\<lparr>val_ocomp_miss_count := mc\<rparr>) L \<longleftrightarrow> registry_view env v L"
  "registry_view env (v\<lparr>val_ocomp_recovery_deadline := rd\<rparr>) L \<longleftrightarrow> registry_view env v L"
  "registry_view env (v\<lparr>delegate_by_validator_role := d\<rparr>) L \<longleftrightarrow> registry_view env v L"
  "registry_view env (v\<lparr>validator_by_role_delegate := vd\<rparr>) L \<longleftrightarrow> registry_view env v L"
  "registry_view env (v\<lparr>epoch_number := en\<rparr>) L \<longleftrightarrow> registry_view env v L"
  "registry_view env (v\<lparr>epoch_start_timestamp := et\<rparr>) L \<longleftrightarrow> registry_view env v L"
  "registry_view env (v\<lparr>epoch_start_block := eb\<rparr>) L \<longleftrightarrow> registry_view env v L"
  "registry_view env (v\<lparr>config_max_validators := mv\<rparr>) L \<longleftrightarrow> registry_view env v L"
  "registry_view env (v\<lparr>finalized_participation_recorded := fr\<rparr>) L \<longleftrightarrow> registry_view env v L"
  "registry_view env (v\<lparr>finalized_participation_ring := fn\<rparr>) L \<longleftrightarrow> registry_view env v L"
  "registry_view env (v\<lparr>finalized_participation_ring_seq := fs\<rparr>) L \<longleftrightarrow> registry_view env v L"
  by (simp_all add: registry_view_def)

lemma view_set:
  assumes "registry_view env v L" "wf_lifecycle lc" "lc_registry_index lc = lc_registry_index (L a)"
    and "lc_consensus_pubkey lc = lc_consensus_pubkey (L a)"
  shows "registry_view env (v\<lparr>slots := (slots v)(a := encode_lifecycle lc)\<rparr>) (L(a := lc))"
proof -
  have "lc = Absent \<longleftrightarrow> L a = Absent" using assms(3) index_None by metis
  then show ?thesis using assms by (auto simp: registry_view_def)
qed

lemma ucast_u32_le: "i \<le> ucast (n :: u32) \<longleftrightarrow> unat (i :: u64) \<le> unat n"
  by (simp add: word_le_nat_alt unat_ucast_up)

lemma index_range:
  assumes "i \<in> set [1..<Suc (unat (n :: u32))]"
  shows "unat (word_of_nat i :: u64) = i" "(word_of_nat i :: u64) \<noteq> 0" "(word_of_nat i :: u64) \<le> ucast n"
proof -
  have "i < 2 ^ 64" using assms unat_bound [of n] by auto
  then show i: "unat (word_of_nat i :: u64) = i" by (intro unat_of_nat_exact) simp
  show "(word_of_nat i :: u64) \<noteq> 0" using i assms by (metis atLeastLessThan_iff atLeastLessThan_upt not_one_le_zero unat_0)
  show "(word_of_nat i :: u64) \<le> ucast n" using i assms by (auto simp: ucast_u32_le)
qed

lemma view_entry:
  assumes "registry_view env v L" "i \<noteq> 0" "i \<le> ucast (validator_count v)"
  shows "index_to_address v i \<noteq> 0" "address_to_index v (index_to_address v i) = i"
  using assms by (auto simp: registry_view_def word_gt_0)

lemma validator_address_at_view:
  assumes "registry_view env v L" "i \<noteq> 0" "i \<le> ucast (validator_count v)"
  shows "validator_address_at i v = Inr (Some (index_to_address v i))"
  using assms view_entry [OF assms] by (simp add: validator_address_at_def Let_def not_less)

lemma registry_entry:
  assumes "registry_view env v L" "i \<in> set [1..<Suc (unat (validator_count v))]"
  shows "index_to_address v (word_of_nat i) \<noteq> 0"
    and "address_to_index v (index_to_address v (word_of_nat i)) = word_of_nat i"
    and "validator_address_at (word_of_nat i) v = Inr (Some (index_to_address v (word_of_nat i)))"
  using view_entry [OF assms(1) index_range(2,3) [OF assms(2)]]
    validator_address_at_view [OF assms(1) index_range(2,3) [OF assms(2)]] by blast+

lemma registered_addresses_view:
  assumes "registry_view env v L"
  shows "registered_validator_addresses v = Inr (registry_list v)"
  unfolding registered_validator_addresses_def registry_list_def
  by (rule traverseR_map) (simp only: registry_entry [OF assms] andThen_Inr ok_or_Some)

lemma registry_list_distinct:
  assumes "registry_view env v L"
  shows "distinct (registry_list v)"
proof -
  have "inj_on (\<lambda>i. index_to_address v (word_of_nat i)) (set [1..<Suc (unat (validator_count v))])"
  proof (rule inj_onI)
    fix i j assume i: "i \<in> set [1..<Suc (unat (validator_count v))]" and j: "j \<in> set [1..<Suc (unat (validator_count v))]"
      and "index_to_address v (word_of_nat i) = index_to_address v (word_of_nat j)"
    then have "unat (word_of_nat i :: u64) = unat (word_of_nat j :: u64)"
      using registry_entry(2) [OF assms i] registry_entry(2) [OF assms j] by metis
    then show "i = j" unfolding index_range(1) [OF i] index_range(1) [OF j] .
  qed
  then show ?thesis unfolding registry_list_def distinct_map by (blast intro: distinct_upt)
qed

lemma registry_list_member:
  assumes "registry_view env v L"
  shows "a \<in> set (registry_list v) \<longleftrightarrow> L a \<noteq> Absent"
proof
  assume "L a \<noteq> Absent"
  let ?i = "address_to_index v a"
  from \<open>L a \<noteq> Absent\<close> have "?i \<noteq> 0" using view_absent [OF assms] by blast
  moreover have "?i \<le> ucast (validator_count v)" and a: "index_to_address v ?i = a"
    using assms \<open>L a \<noteq> Absent\<close> unfolding registry_view_def by blast+
  ultimately have "unat ?i \<in> set [1..<Suc (unat (validator_count v))]"
    unfolding ucast_u32_le set_upt atLeastLessThan_iff One_nat_def Suc_le_eq less_Suc_eq_le unat_pos by blast
  then show "a \<in> set (registry_list v)" unfolding registry_list_def set_map
    by (rule rev_image_eqI) (simp add: a)
next
  assume "a \<in> set (registry_list v)"
  then obtain i where i: "i \<in> set [1..<Suc (unat (validator_count v))]" "a = index_to_address v (word_of_nat i)"
    unfolding registry_list_def set_map by blast
  then have "address_to_index v a \<noteq> 0" using registry_entry(2) [OF assms i(1)] index_range(2) [OF i(1)] by metis
  then show "L a \<noteq> Absent" using view_absent [OF assms, of a] by blast
qed

end
