(* ===== verification/Validator_Operations.thy ===== *)
theory Validator_Operations
  imports Validator_Set
begin

text \<open>
  The operations of \<open>validatorset/src/runtime.rs\<close> and \<open>delegation.rs\<close> that change the registry: registration,
  the stake mirror, readiness, exit, jail, boundary activation, participation counters, cleanup and
  operational keys. Each operation that changes a lifecycle reads the typed state, chooses the next one
  (the functions \<open>..._next\<close> are the \<open>match\<close> of the operation), and persists the difference under a
  checkpoint.
\<close>

section \<open>Peer addresses and registration\<close>

definition set_config_max_validators :: "u32 \<Rightarrow> unit vset_prog" where
  "set_config_max_validators n =
     bindM (requireM (n \<le> CONSENSUS_VALIDATOR_BOUND) (Revert (Text ''max validators exceeds consensus bound''))) (\<lambda>_.
     writeM (\<lambda>v. v\<lparr>config_max_validators := n\<rparr>))"

definition set_pending :: "bool \<Rightarrow> unit vset_prog" where
  "set_pending b = writeM (\<lambda>v. v\<lparr>pending_set_change := b\<rparr>)"

definition set_p2p_address :: "vset_env \<Rightarrow> address \<Rightarrow> address \<Rightarrow> u8 \<Rightarrow> bytes \<Rightarrow> unit vset_prog" where
  "set_p2p_address env caller a version encoded =
     bindM (getsM config_owner) (\<lambda>owner.
     bindM (requireM (caller = owner \<or> caller = a)
       (Revert (Text ''unauthorized: caller must be owner or validator itself''))) (\<lambda>_.
     bindM (getsM (\<lambda>v. address_to_index v a)) (\<lambda>i.
     bindM (requireM (i \<noteq> 0) (Revert (Text ''validator not registered''))) (\<lambda>_.
     bindM (requireM (version = P2P_ADDRESS_VERSION_V1) (Revert (Text ''unsupported p2p address version''))) (\<lambda>_.
     bindM (requireM (length encoded \<le> MAX_P2P_ADDRESS_ENCODED_LEN)
       (Revert (Text ''p2p address payload exceeds max length''))) (\<lambda>_.
     bindM (resultM (map_err (Revert (Text ''invalid p2p address'')) (decode_versioned version encoded))) (\<lambda>decoded.
     bindM (readM (validator_state env a)) (\<lambda>before.
     bindM (resultM (with_p2p (vs_lifecycle before) (V1 decoded))) (\<lambda>lc.
     bindM (resultM (with_lifecycle before lc)) (\<lambda>after.
     with_checkpoint (persist_validator_state_delta before after)))))))))))"

datatype ValidatorDelegateRole = Oracle | Ocomp

fun role_id :: "ValidatorDelegateRole \<Rightarrow> u8" where
  "role_id Oracle = 1"
| "role_id Ocomp = 2"

definition ensure_not_operational_delegate :: "address \<Rightarrow> unit vset_prog" where
  "ensure_not_operational_delegate a =
     forEachM (\<lambda>role. bindM (getsM (\<lambda>v. validator_by_role_delegate v (role_id role) a)) (\<lambda>validator.
       requireM (validator = 0) (Revert (Text ''validator address is already assigned as an operational delegate''))))
       [Oracle, Ocomp]"

definition validator_registration_message :: "u64 \<Rightarrow> address \<Rightarrow> b256 \<Rightarrow> bytes" where
  "validator_registration_message chain a node_id = 2 # be_bytes 8 (uint chain) @ address_bytes a @ word_bytes node_id"

definition verify_bls_registration_sig :: "vset_env \<Rightarrow> ConsensusPubkey \<Rightarrow> bytes \<Rightarrow> address \<Rightarrow> b256 \<Rightarrow> (unit, unit) result" where
  "verify_bls_registration_sig env pk sig a node_id =
     (let pk_bytes = be_bytes 48 (uint pk) in
      andThen (ensure (bls_key_from_bytes env pk_bytes) (Revert (Text ''invalid BLS public key''))) (\<lambda>_.
      andThen (ensure (bls_sig_from_bytes env sig) (Revert (Text ''invalid BLS signature''))) (\<lambda>_.
      ensure (bls_verify env sig (validator_registration_message (ve_chain_id env) a node_id) pk_bytes)
        (Revert (Text ''invalid BLS registration signature'')))))"

definition reregister_inactive ::
    "vset_env \<Rightarrow> address \<Rightarrow> ConsensusPubkey \<Rightarrow> b256 \<Rightarrow> address \<Rightarrow> ValidatorState \<Rightarrow> u64 \<Rightarrow> unit vset_prog" where
  "reregister_inactive env a pk node_id radicle_owner existing index =
     bindM (case vs_lifecycle existing of
         Inactive s \<Rightarrow> retM s
       | _ \<Rightarrow> failM (Revert (Text ''validator already registered''))) (\<lambda>inactive.
     bindM (getsM (\<lambda>v. val_radicle_node_id v a)) (\<lambda>stored_node_id.
     bindM (requireM (stored_node_id = node_id)
       (Revert (Text ''inactive validator must keep its Radicle NodeId until final cleanup''))) (\<lambda>_.
     bindM (requireM (radicle_owner = a)
       (Fatal (Text ''registered validator has inconsistent Radicle NodeId reverse binding''))) (\<lambda>_.
     bindM (getsM config_reregistration_cooldown) (\<lambda>cooldown.
     bindM (if 0 < cooldown then
         bindM (unwrapM (lc_history (vs_lifecycle existing)) (Fatal (Text ''registered validator is missing history''))) (\<lambda>h.
         case last_deactivated_at_height h of
           None \<Rightarrow> retM ()
         | Some height \<Rightarrow>
             bindM (unwrapM (checked_add height (ucast cooldown))
               (Fatal (Text ''re-registration cooldown height overflow''))) (\<lambda>ready_at.
             requireM (ready_at \<le> ve_block_number env) (Revert (Text ''re-registration cooldown not expired''))))
       else retM ()) (\<lambda>_.
     bindM (unwrapM (lc_consensus_pubkey (vs_lifecycle existing))
       (Fatal (Text ''registered validator is missing consensus pubkey''))) (\<lambda>old_pk.
     bindM (resultM (reregister inactive pk (ve_block_number env))) (\<lambda>waiting.
     bindM (resultM (with_lifecycle existing (WaitingForStake waiting))) (\<lambda>after.
     bindM (getsM (\<lambda>v. val_ocomp_recovery_deadline v a)) (\<lambda>deadline.
     bindM (requireM (deadline = 0)
       (Revert (Text ''cannot re-register while an OCOMP recovery window is open''))) (\<lambda>_.
     with_checkpoint (
       bindM (writeM (\<lambda>v. v\<lparr>consensus_pubkey_hash_to_address :=
         (consensus_pubkey_hash_to_address v)(consensus_pubkey_hash env old_pk := 0)\<rparr>)) (\<lambda>_.
       bindM (writeM (\<lambda>v. v\<lparr>consensus_pubkey_hash_to_address :=
         (consensus_pubkey_hash_to_address v)(consensus_pubkey_hash env pk := a)\<rparr>)) (\<lambda>_.
       bindM (persist_registry_state_delta existing after) (\<lambda>_.
       bindM (set_pending True) (\<lambda>_.
       emit_vset (ValidatorRegistered a index)))))))))))))))))"

definition register_first ::
    "vset_env \<Rightarrow> address \<Rightarrow> ConsensusPubkey \<Rightarrow> b256 \<Rightarrow> address \<Rightarrow> ValidatorState \<Rightarrow> unit vset_prog" where
  "register_first env a pk node_id radicle_owner existing =
     bindM (getsM validator_count) (\<lambda>count.
     bindM (getsM config_max_validators) (\<lambda>max_validators.
     bindM (requireM (max_validators = 0 \<or> count < max_validators) (Revert (Text ''max validators reached''))) (\<lambda>_.
     bindM (unwrapM (checked_add count 1) (Fatal (Text ''validator count overflow''))) (\<lambda>new_index.
     bindM (requireM ((ucast new_index :: u64) \<noteq> 0) (Fatal (Text ''validator registry index must be non-zero''))) (\<lambda>_.
     bindM (resultM (register existing (ucast new_index) pk (ve_block_number env))) (\<lambda>registered.
     with_checkpoint (
       bindM (requireM (radicle_owner \<noteq> a)
         (Fatal (Text ''unregistered validator retains a Radicle NodeId reservation''))) (\<lambda>_.
       bindM (writeM (\<lambda>v. v\<lparr>address_to_index := (address_to_index v)(a := ucast new_index)\<rparr>)) (\<lambda>_.
       bindM (writeM (\<lambda>v. v\<lparr>index_to_address := (index_to_address v)(ucast new_index := a)\<rparr>)) (\<lambda>_.
       bindM (persist_registry_state_delta existing registered) (\<lambda>_.
       bindM (writeM (\<lambda>v. v\<lparr>consensus_pubkey_hash_to_address :=
         (consensus_pubkey_hash_to_address v)(consensus_pubkey_hash env pk := a)\<rparr>)) (\<lambda>_.
       bindM (writeM (\<lambda>v. v\<lparr>val_radicle_node_id := (val_radicle_node_id v)(a := node_id)\<rparr>)) (\<lambda>_.
       bindM (writeM (\<lambda>v. v\<lparr>radicle_node_id_to_validator := (radicle_node_id_to_validator v)(node_id := a)\<rparr>)) (\<lambda>_.
       bindM (writeM (\<lambda>v. v\<lparr>validator_count := new_index\<rparr>)) (\<lambda>_.
       bindM (set_pending True) (\<lambda>_.
       emit_vset (ValidatorRegistered a (ucast new_index))))))))))))))))))"

definition register_validator_inner ::
    "vset_env \<Rightarrow> address \<Rightarrow> address \<Rightarrow> ConsensusPubkey \<Rightarrow> b256 \<Rightarrow> bytes option \<Rightarrow> bool \<Rightarrow> unit vset_prog" where
  "register_validator_inner env caller a pk node_id sig allow_bootstrap_without_pop =
     bindM (getsM config_owner) (\<lambda>owner.
     bindM (requireM (pk \<noteq> 0) (Revert (Text ''consensus public key must not be zero''))) (\<lambda>_.
     bindM (requireM (caller = owner \<or> caller = a)
       (Revert (Text ''unauthorized: caller must be owner or validator itself''))) (\<lambda>_.
     bindM (ensure_not_operational_delegate a) (\<lambda>_.
     bindM (requireM (node_id \<noteq> 0) (Revert (Text ''Radicle NodeId must not be zero''))) (\<lambda>_.
     bindM (getsM (\<lambda>v. radicle_node_id_to_validator v node_id)) (\<lambda>radicle_owner.
     bindM (requireM (radicle_owner = 0 \<or> radicle_owner = a)
       (Revert (Text ''Radicle NodeId already registered by another validator''))) (\<lambda>_.
     bindM (case sig of
         Some bs \<Rightarrow> resultM (verify_bls_registration_sig env pk bs a node_id)
       | None \<Rightarrow> requireM allow_bootstrap_without_pop
           (Revert (Text ''validator registration requires BLS proof-of-possession signature''))) (\<lambda>_.
     bindM (if caller = a then
         bindM (readM (registered_count env)) (\<lambda>n.
         requireM (n < MAX_SELF_REGISTERED_UNSTAKED) (Revert (Text ''self-registration limit reached'')))
       else retM ()) (\<lambda>_.
     bindM (getsM (\<lambda>v. consensus_pubkey_hash_to_address v (consensus_pubkey_hash env pk))) (\<lambda>existing_owner.
     bindM (requireM (existing_owner = 0 \<or> existing_owner = a)
       (Revert (Text ''BLS consensus pubkey already registered by another validator''))) (\<lambda>_.
     bindM (readM (validator_state env a)) (\<lambda>existing.
     case lc_registry_index (vs_lifecycle existing) of
       Some index \<Rightarrow> reregister_inactive env a pk node_id radicle_owner existing index
     | None \<Rightarrow> register_first env a pk node_id radicle_owner existing))))))))))))"

definition register_validator_with_sig ::
    "vset_env \<Rightarrow> address \<Rightarrow> address \<Rightarrow> ConsensusPubkey \<Rightarrow> b256 \<Rightarrow> bytes option \<Rightarrow> unit vset_prog" where
  "register_validator_with_sig env caller a pk node_id sig =
     register_validator_inner env caller a pk node_id sig False"

section \<open>The stake mirror\<close>

text \<open>The common shape of the operations: read, choose the next lifecycle, persist, signal a set change.\<close>

definition transition ::
    "vset_env \<Rightarrow> address \<Rightarrow> (ValidatorState \<Rightarrow> (unit, ValidatorLifecycle \<times> bool) result) \<Rightarrow> ValidatorSetEvent list \<Rightarrow>
     unit vset_prog" where
  "transition env a pick events =
     bindM (readM (validator_state env a)) (\<lambda>before.
     bindM (resultM (pick before)) (\<lambda>(next, set_change).
     bindM (resultM (with_lifecycle before next)) (\<lambda>after.
     with_checkpoint (
       bindM (persist_validator_state_delta before after) (\<lambda>_.
       bindM (if set_change then set_pending True else retM ()) (\<lambda>_.
       forEachM emit_vset events))))))"

definition keep_variant :: "ValidatorLifecycle \<Rightarrow> StakeProjection \<Rightarrow> (unit, ValidatorLifecycle \<times> bool) result" where
  "keep_variant lc st = andThen (with_stake lc st) (\<lambda>lc'. Inr (lc', False))"

definition stake_increase_next :: "u256 \<Rightarrow> u256 \<Rightarrow> ValidatorState \<Rightarrow> (unit, ValidatorLifecycle \<times> bool) result" where
  "stake_increase_next amount minimum before =
     (let lc = vs_lifecycle before; st = \<lparr>bonded = amount, unbonding_end_hint = lc_unbonding_end_hint lc\<rparr> in
      case lc of
        Absent \<Rightarrow> Inl (Revert (Text ''cannot stake before validator registration''))
      | Inactive _ \<Rightarrow> Inl (Revert (Text ''inactive validator must re-register before staking''))
      | Exiting _ \<Rightarrow> Inl (Revert (Text ''cannot increase stake while validator is exiting or unbonding''))
      | Unbonding _ \<Rightarrow> Inl (Revert (Text ''cannot increase stake while validator is exiting or unbonding''))
      | WaitingForStake s \<Rightarrow>
          if minimum \<le> amount then
            andThen (reach_minimum s st minimum) (\<lambda>w. Inr (WaitingForReadiness w, True))
          else keep_variant lc st
      | _ \<Rightarrow> keep_variant lc st)"

definition record_stake_increase :: "vset_env \<Rightarrow> address \<Rightarrow> u256 \<Rightarrow> u256 \<Rightarrow> unit vset_prog" where
  "record_stake_increase env a amount minimum = transition env a (stake_increase_next amount minimum) []"

definition unstake_next :: "u64 \<Rightarrow> u256 \<Rightarrow> u256 \<Rightarrow> u64 \<Rightarrow> ValidatorState \<Rightarrow> (unit, ValidatorLifecycle \<times> bool) result" where
  "unstake_next height amount minimum hint before =
     (let lc = vs_lifecycle before; st = \<lparr>bonded = amount, unbonding_end_hint = nonzero hint\<rparr> in
      case lc of
        Absent \<Rightarrow> Inl (Revert (Text ''validator not registered''))
      | Inactive _ \<Rightarrow> Inl (Revert (Text ''validator is inactive''))
      | WaitingForReadiness s \<Rightarrow>
          if amount < minimum then
            andThen (demote_waiting_for_readiness s st minimum) (\<lambda>w. Inr (WaitingForStake w, True))
          else keep_variant lc st
      | Joining s \<Rightarrow>
          if amount < minimum then andThen (demote_joining s st minimum) (\<lambda>w. Inr (WaitingForStake w, True))
          else keep_variant lc st
      | Active s \<Rightarrow>
          if amount < minimum then andThen (begin_exit s st height) (\<lambda>e. Inr (Exiting e, True))
          else keep_variant lc st
      | JailRetained s \<Rightarrow>
          if amount = 0 then andThen (full_exit_jailed_retained s st) (\<lambda>e. Inr (Exiting e, True))
          else keep_variant lc st
      | Jail s \<Rightarrow>
          if amount = 0 then andThen (full_exit_jailed s st) (\<lambda>u. Inr (Unbonding u, False))
          else keep_variant lc st
      | _ \<Rightarrow> keep_variant lc st)"

definition record_unstake :: "vset_env \<Rightarrow> address \<Rightarrow> u256 \<Rightarrow> u256 \<Rightarrow> u64 \<Rightarrow> unit vset_prog" where
  "record_unstake env a amount minimum hint =
     transition env a (unstake_next (ve_block_number env) amount minimum hint) []"

definition slash_next :: "u64 \<Rightarrow> u256 \<Rightarrow> u256 \<Rightarrow> u64 option \<Rightarrow> ValidatorState \<Rightarrow> (unit, ValidatorLifecycle \<times> bool) result" where
  "slash_next height amount minimum hint before =
     (let lc = vs_lifecycle before;
          st = \<lparr>bonded = amount, unbonding_end_hint = (case hint of Some h \<Rightarrow> Some h | None \<Rightarrow> lc_unbonding_end_hint lc)\<rparr>;
          below_minimum = (minimum \<noteq> 0 \<and> amount < minimum) in
      case lc of
        Absent \<Rightarrow> Inl (Revert (Text ''validator not registered''))
      | Inactive _ \<Rightarrow> Inl (Revert (Text ''validator is inactive''))
      | WaitingForReadiness s \<Rightarrow>
          if below_minimum then
            andThen (demote_waiting_for_readiness s st minimum) (\<lambda>w. Inr (WaitingForStake w, True))
          else keep_variant lc st
      | Joining s \<Rightarrow>
          if below_minimum then andThen (demote_joining s st minimum) (\<lambda>w. Inr (WaitingForStake w, True))
          else keep_variant lc st
      | Active s \<Rightarrow>
          if below_minimum then andThen (begin_exit s st height) (\<lambda>e. Inr (Exiting e, True))
          else keep_variant lc st
      | _ \<Rightarrow> keep_variant lc st)"

definition record_stake_slash :: "vset_env \<Rightarrow> address \<Rightarrow> u256 \<Rightarrow> u256 \<Rightarrow> u64 option \<Rightarrow> unit vset_prog" where
  "record_stake_slash env a amount minimum hint =
     transition env a (slash_next (ve_block_number env) amount minimum hint) []"

definition complete_next :: "ValidatorState \<Rightarrow> (unit, ValidatorLifecycle \<times> bool) result" where
  "complete_next before =
     andThen (with_stake (vs_lifecycle before)
       \<lparr>bonded = lc_bonded_stake (vs_lifecycle before), unbonding_end_hint = None\<rparr>) (\<lambda>cleared.
     case cleared of
       Unbonding u \<Rightarrow> andThen (complete_unbonding u) (\<lambda>i. Inr (Inactive i, False))
     | _ \<Rightarrow> Inl (Fatal (Text ''with_stake preserves lifecycle variant'')))"

definition complete_unbonding_of :: "vset_env \<Rightarrow> address \<Rightarrow> unit vset_prog" where
  "complete_unbonding_of env a =
     bindM (readM (validator_state env a)) (\<lambda>before.
     case vs_lifecycle before of
       Unbonding _ \<Rightarrow> transition env a complete_next []
     | _ \<Rightarrow> retM ())"

section \<open>OCOMP recovery windows\<close>

datatype OcompMissRecord = Opened u64 u64 | Repeated u64 u64

definition record_ocomp_miss :: "vset_env \<Rightarrow> address \<Rightarrow> OcompMissRecord vset_prog" where
  "record_ocomp_miss env a =
     bindM (readM (validator_state env a)) (\<lambda>st.
     bindM (requireM (is_active_status (vs_lifecycle st)) (Revert (Text ''OCOMP miss requires an active validator''))) (\<lambda>_.
     bindM (getsM (\<lambda>v. val_ocomp_miss_count v a)) (\<lambda>count.
     bindM (unwrapM (checked_add count 1) (Fatal (Text ''OCOMP miss count overflow''))) (\<lambda>miss_count.
     bindM (getsM (\<lambda>v. val_ocomp_recovery_deadline v a)) (\<lambda>existing.
     with_checkpoint (
       bindM (writeM (\<lambda>v. v\<lparr>val_ocomp_miss_count := (val_ocomp_miss_count v)(a := miss_count)\<rparr>)) (\<lambda>_.
       if existing = 0 then
         bindM (unwrapM (checked_add (ve_block_number env) OCOMP_RECOVERY_WINDOW_BLOCKS)
           (Fatal (Text ''OCOMP recovery deadline overflow''))) (\<lambda>deadline.
         bindM (writeM (\<lambda>v. v\<lparr>val_ocomp_recovery_deadline := (val_ocomp_recovery_deadline v)(a := deadline)\<rparr>)) (\<lambda>_.
         retM (Opened miss_count deadline)))
       else retM (Repeated miss_count existing))))))))"

definition ocomp_slash_next :: "u256 \<Rightarrow> ValidatorState \<Rightarrow> (unit, ValidatorLifecycle \<times> bool) result" where
  "ocomp_slash_next amount before =
     andThen (ensure (is_active_status (vs_lifecycle before))
       (Revert (Text ''OCOMP bonded slash requires an active validator''))) (\<lambda>_.
     keep_variant (vs_lifecycle before)
       \<lparr>bonded = amount, unbonding_end_hint = lc_unbonding_end_hint (vs_lifecycle before)\<rparr>)"

definition record_ocomp_bonded_slash :: "vset_env \<Rightarrow> address \<Rightarrow> u256 \<Rightarrow> unit vset_prog" where
  "record_ocomp_bonded_slash env a amount =
     bindM (getsM (\<lambda>v. val_ocomp_recovery_deadline v a)) (\<lambda>deadline.
     bindM (requireM (deadline \<noteq> 0) (Revert (Text ''OCOMP bonded slash requires an open recovery window''))) (\<lambda>_.
     transition env a (ocomp_slash_next amount) []))"

definition ocomp_recovery_window :: "address \<Rightarrow> ValidatorSet \<Rightarrow> (u64 \<times> u64) option" where
  "ocomp_recovery_window a v =
     (if val_ocomp_recovery_deadline v a = 0 then None
      else Some (val_ocomp_miss_count v a, val_ocomp_recovery_deadline v a))"

definition close_ocomp_recovery_window :: "address \<Rightarrow> unit vset_prog" where
  "close_ocomp_recovery_window a =
     writeM (\<lambda>v. v\<lparr>val_ocomp_recovery_deadline := (val_ocomp_recovery_deadline v)(a := 0)\<rparr>)"

definition resolve_ocomp_recovery_window :: "address \<Rightarrow> u64 \<Rightarrow> u256 \<Rightarrow> u8 \<Rightarrow> unit vset_prog" where
  "resolve_ocomp_recovery_window a deadline amount outcome =
     bindM (getsM (\<lambda>v. val_ocomp_recovery_deadline v a)) (\<lambda>stored.
     bindM (requireM (stored = deadline) (Fatal (Text ''OCOMP recovery resolution deadline mismatch''))) (\<lambda>_.
     with_checkpoint (
       bindM (close_ocomp_recovery_window a) (\<lambda>_.
       emit_vset (OcompRecoveryResolved a deadline amount outcome)))))"

section \<open>Readiness, exit and jail\<close>

definition confirm_next :: "ValidatorState \<Rightarrow> (unit, ValidatorLifecycle) result" where
  "confirm_next before =
     (case vs_lifecycle before of
        WaitingForReadiness s \<Rightarrow> Inr (Joining (confirm_ready s))
      | Joining s \<Rightarrow> Inr (Joining s)
      | Absent \<Rightarrow> Inl (Revert (Text ''validator not registered''))
      | lc \<Rightarrow> andThen (registered_status lc) (\<lambda>_. Inl (Revert (Text ''confirmValidatorReady requires PENDING status''))))"

definition confirm_validator_ready :: "vset_env \<Rightarrow> address \<Rightarrow> bytes \<Rightarrow> unit vset_prog" where
  "confirm_validator_ready env caller encoded =
     bindM (readM (validator_state env caller)) (\<lambda>before.
     bindM (resultM (confirm_next before)) (\<lambda>lc.
     bindM (unwrapM (ocomp_decode env encoded) (Revert (Text ''invalid OCOMP registration''))) (\<lambda>registration.
     bindM (requireM (oc_chain_id registration = ve_chain_id env)
       (Revert (Text ''OCOMP registration chain id mismatch''))) (\<lambda>_.
     bindM (requireM (oc_genesis_hash registration = ve_genesis_hash env)
       (Revert (Text ''OCOMP registration genesis hash mismatch''))) (\<lambda>_.
     bindM (unwrapM (lc_consensus_pubkey (vs_lifecycle before))
       (Fatal (Text ''registered validator is missing consensus pubkey''))) (\<lambda>pk.
     bindM (unwrapM (ocomp_identity_hash env caller pk) (Fatal (Text ''validator identity hash''))) (\<lambda>expected.
     bindM (requireM (oc_validator_identity_hash registration = expected)
       (Revert (Text ''OCOMP registration validator identity mismatch''))) (\<lambda>_.
     bindM (readM (read_ocomp_registration env caller)) (\<lambda>existing.
     let key_hash = ve_keccak env (oc_public_key_sec1 registration) in
     bindM (case existing of
         None \<Rightarrow> retM ()
       | Some old \<Rightarrow>
           let pinned = ve_keccak env (oc_public_key_sec1 old) in
           bindM (requireM (pinned = key_hash) (Revert (Text ''OCOMP public key is immutable in key_epoch 1''))) (\<lambda>_.
           bindM (getsM (\<lambda>v. ocomp_key_hash_to_validator v pinned)) (\<lambda>pinned_owner.
           requireM (pinned_owner = caller) (Fatal (Text ''OCOMP key reservation is inconsistent''))))) (\<lambda>_.
     bindM (getsM (\<lambda>v. ocomp_key_hash_to_validator v key_hash)) (\<lambda>existing_owner.
     bindM (requireM (existing_owner = 0 \<or> existing_owner = caller)
       (Revert (Text ''OCOMP public key already registered by another validator''))) (\<lambda>_.
     with_checkpoint (
       bindM (writeM (\<lambda>v. v\<lparr>val_ocomp_registration := (val_ocomp_registration v)(caller := encoded)\<rparr>)) (\<lambda>_.
       bindM (writeM (\<lambda>v. v\<lparr>ocomp_key_hash_to_validator := (ocomp_key_hash_to_validator v)(key_hash := caller)\<rparr>)) (\<lambda>_.
       bindM (resultM (with_lifecycle before lc)) (\<lambda>after.
       bindM (persist_validator_state_delta before after) (\<lambda>_.
       set_pending True)))))))))))))))))"

text \<open>\<open>initialize_founder_ocomp_registrations\<close>: the checks of one pass of the loop over the active set and the
  registrations, which collect the writes and count the registrations that are already in place.\<close>

definition founder_state ::
    "vset_env \<Rightarrow> ValidatorSet \<Rightarrow> address \<Rightarrow> ocomp_registration \<Rightarrow> (unit, bool) result" where
  "founder_state env v a registration =
     andThen (read_ocomp_registration env a v) (\<lambda>stored.
     let owner = ocomp_key_hash_to_validator v (ve_keccak env (oc_public_key_sec1 registration)) in
     if stored = Some registration \<and> owner = a then Inr True
     else if stored = None \<and> owner = 0 then Inr False
     else Inl (Fatal (Text ''partial or conflicting OCOMP founder state'')))"

fun prepare_founders ::
    "vset_env \<Rightarrow> ValidatorSet \<Rightarrow> b256 set \<Rightarrow> bytes set \<Rightarrow> (ValidatorRecord \<times> ocomp_registration) list \<Rightarrow>
     (unit, (address \<times> b256 \<times> bytes) list \<times> nat) result" where
  "prepare_founders env v identities keys [] = Inr ([], 0)"
| "prepare_founders env v identities keys ((r, registration) # rest) =
     andThen (ensure (ocomp_proof_valid env registration)
       (Fatal (Text ''invalid OCOMP founder proof of possession''))) (\<lambda>_.
     andThen (ensure (oc_chain_id registration = ve_chain_id env \<and> oc_genesis_hash registration = ve_genesis_hash env)
       (Fatal (Text ''OCOMP founder registration chain binding mismatch''))) (\<lambda>_.
     andThen (ok_or (ocomp_identity_hash env (vr_validator_address r) (vr_consensus_pubkey r))
       (Fatal (Text ''derive OCOMP founder validator identity''))) (\<lambda>expected.
     andThen (ensure (oc_validator_identity_hash registration = expected)
       (Fatal (Text ''OCOMP founder registration identity mismatch''))) (\<lambda>_.
     andThen (ensure (expected \<notin> identities \<and> oc_public_key_sec1 registration \<notin> keys)
       (Fatal (Text ''OCOMP founder registrations contain duplicate identity or key''))) (\<lambda>_.
     andThen (ok_or (ocomp_encode env registration)
       (Fatal (Text ''encode canonical OCOMP founder registration''))) (\<lambda>encoded.
     andThen (founder_state env v (vr_validator_address r) registration) (\<lambda>exact.
     andThen (prepare_founders env v (insert expected identities) (insert (oc_public_key_sec1 registration) keys) rest)
       (\<lambda>(prepared, n).
     Inr ((vr_validator_address r, ve_keccak env (oc_public_key_sec1 registration), encoded) # prepared,
       if exact then Suc n else n)))))))))"

definition write_founder :: "address \<times> b256 \<times> bytes \<Rightarrow> unit vset_prog" where
  "write_founder = (\<lambda>(a, key_hash, encoded).
     bindM (writeM (\<lambda>v. v\<lparr>val_ocomp_registration := (val_ocomp_registration v)(a := encoded)\<rparr>)) (\<lambda>_.
     writeM (\<lambda>v. v\<lparr>ocomp_key_hash_to_validator := (ocomp_key_hash_to_validator v)(key_hash := a)\<rparr>)))"

definition initialize_founder_ocomp_registrations :: "vset_env \<Rightarrow> ocomp_registration list \<Rightarrow> unit vset_prog" where
  "initialize_founder_ocomp_registrations env registrations =
     bindM (readM (get_active_validators env)) (\<lambda>active.
     bindM (requireM (active \<noteq> [] \<and> length active = length registrations)
       (Fatal (Text ''OCOMP founder registrations must exactly cover ACTIVE ValidatorSet''))) (\<lambda>_.
     bindM (readM (\<lambda>v. prepare_founders env v {} {} (zip active registrations))) (\<lambda>(prepared, exact_existing).
     if exact_existing = length registrations then retM ()
     else
       bindM (requireM (exact_existing = 0) (Fatal (Text ''partial OCOMP founder registration import is fatal''))) (\<lambda>_.
       with_checkpoint (forEachM write_founder prepared)))))"

definition deactivate_next :: "u64 \<Rightarrow> ValidatorState \<Rightarrow> (unit, ValidatorLifecycle \<times> bool) result" where
  "deactivate_next height before =
     (case vs_lifecycle before of
        Active s \<Rightarrow> andThen (begin_exit s (stake s) height) (\<lambda>e. Inr (Exiting e, True))
      | Absent \<Rightarrow> Inl (Revert (Text ''validator not registered''))
      | _ \<Rightarrow> Inl (Revert (Text ''can only deactivate an active validator'')))"

definition deactivate_validator :: "vset_env \<Rightarrow> address \<Rightarrow> address \<Rightarrow> unit vset_prog" where
  "deactivate_validator env caller a =
     bindM (getsM config_owner) (\<lambda>owner.
     bindM (requireM (caller = owner \<or> caller = a)
       (Revert (Text ''unauthorized: caller must be owner or validator itself''))) (\<lambda>_.
     transition env a (deactivate_next (ve_block_number env)) [ValidatorDeactivated a (ve_block_number env)]))"

definition tee_expiry_next :: "u64 \<Rightarrow> ValidatorState \<Rightarrow> (unit, ValidatorLifecycle \<times> bool) result" where
  "tee_expiry_next height before =
     (case vs_lifecycle before of
        Active s \<Rightarrow> andThen (jail s height) (\<lambda>j. Inr (JailRetained j, True))
      | Absent \<Rightarrow> Inl (Revert (Text ''validator not registered''))
      | lc \<Rightarrow> andThen (registered_status lc) (\<lambda>_.
          Inl (Fatal (Text ''TEE expiry sweep selected validator with ineligible status''))))"

definition jail_validator_for_tee_expiry :: "vset_env \<Rightarrow> address \<Rightarrow> bool vset_prog" where
  "jail_validator_for_tee_expiry env a =
     bindM (readM (validator_state env a)) (\<lambda>before.
     case vs_lifecycle before of
       JailRetained _ \<Rightarrow> retM False
     | Jail _ \<Rightarrow> retM False
     | _ \<Rightarrow> bindM (transition env a (tee_expiry_next (ve_block_number env))
              [ValidatorJailed a (ve_block_number env)]) (\<lambda>_. retM True))"

text \<open>\<open>None\<close> is the early return \<open>Ok(None)\<close> of a punishment that does not apply.\<close>

definition punish_next :: "u64 \<Rightarrow> bool \<Rightarrow> ValidatorState \<Rightarrow> (unit, ValidatorLifecycle option) result" where
  "punish_next height jailing before =
     (let lc = vs_lifecycle before in
      andThen (ensure (lc \<noteq> Absent) (Revert (Text ''validator not registered''))) (\<lambda>_.
      andThen (registered_status lc) (\<lambda>_.
      andThen (ok_or (lc_history lc) (Fatal (Text ''registered validator is missing history''))) (\<lambda>h.
      let punish = (\<lambda>s.
        andThen (if jailing then andThen (jail s height) (\<lambda>j. Inr (JailRetained j))
                 else andThen (begin_exit s (stake s) height) (\<lambda>e. Inr (Exiting e))) (\<lambda>next.
        andThen (ok_or (checked_add (slash_count h) 1) (Fatal (Text ''slash count overflow''))) (\<lambda>slashes.
        andThen (with_history next
          (h\<lparr>last_deactivated_at_height := Some height, slash_count := slashes\<rparr>)) (\<lambda>next.
        Inr (Some next)))));
          refuse = Inl (Revert (Text ''cannot punish validator: only ACTIVE, EXITING, UNBONDING, or INACTIVE allowed'')) in
      case lc of
        Active s \<Rightarrow> punish s
      | JailRetained _ \<Rightarrow> if jailing then Inr None else refuse
      | Jail _ \<Rightarrow> if jailing then Inr None else refuse
      | Exiting _ \<Rightarrow> Inr None
      | Unbonding _ \<Rightarrow> Inr None
      | Inactive _ \<Rightarrow> Inr None
      | _ \<Rightarrow> refuse))))"

definition punish_validator :: "vset_env \<Rightarrow> address \<Rightarrow> bool \<Rightarrow> bool vset_prog" where
  "punish_validator env a jailing =
     bindM (readM (validator_state env a)) (\<lambda>before.
     bindM (resultM (punish_next (ve_block_number env) jailing before)) (\<lambda>next.
     case next of
       None \<Rightarrow> retM False
     | Some lc \<Rightarrow>
         bindM (resultM (with_lifecycle before lc)) (\<lambda>after.
         with_checkpoint (
           bindM (persist_validator_state_delta before after) (\<lambda>_.
           bindM (set_pending True) (\<lambda>_.
           bindM (forEachM emit_vset
             (if jailing then [ValidatorJailed a (ve_block_number env)]
              else [ValidatorDeactivated a (ve_block_number env), ValidatorForcedExit a (ve_block_number env)])) (\<lambda>_.
           retM True)))))))"

definition force_exit_validator :: "vset_env \<Rightarrow> address \<Rightarrow> unit vset_prog" where
  "force_exit_validator env a = bindM (punish_validator env a False) (\<lambda>_. retM ())"

definition jail_validator :: "vset_env \<Rightarrow> address \<Rightarrow> unit vset_prog" where
  "jail_validator env a = bindM (punish_validator env a True) (\<lambda>_. retM ())"

definition unjail_next :: "u64 \<Rightarrow> u64 \<Rightarrow> ValidatorState \<Rightarrow> (unit, ValidatorLifecycle \<times> bool) result" where
  "unjail_next height cooldown before =
     (case vs_lifecycle before of
        Jail s \<Rightarrow> andThen (unjail s height cooldown (lc_bonded_stake (vs_lifecycle before)))
          (\<lambda>w. Inr (WaitingForReadiness w, True))
      | JailRetained _ \<Rightarrow> Inl (Revert (Text ''jailed validator is still retained in the current committee''))
      | Absent \<Rightarrow> Inl (Revert (Text ''validator not registered''))
      | lc \<Rightarrow> andThen (registered_status lc) (\<lambda>_. Inl (Revert (Text ''unjailValidator requires JAILED status''))))"

definition unjail_after_stake_check :: "vset_env \<Rightarrow> address \<Rightarrow> unit vset_prog" where
  "unjail_after_stake_check env a =
     bindM (getsM config_unjail_cooldown_blocks) (\<lambda>cooldown.
     transition env a (unjail_next (ve_block_number env) cooldown) [ValidatorUnjailed a (ve_block_number env)])"

section \<open>Boundary activation\<close>

definition ineligible :: "ValidatorLifecycle \<Rightarrow> string \<Rightarrow> (unit, 'a) result" where
  "ineligible lc msg = andThen (registered_status lc) (\<lambda>_. Inl (Fatal (Text msg)))"

definition boundary_next ::
    "address list \<Rightarrow> u64 \<Rightarrow> address list \<Rightarrow> (unit, bool) result \<Rightarrow> ValidatorState \<Rightarrow> (unit, ValidatorLifecycle) result" where
  "boundary_next new_set freeze exclusions admitted before =
     (let included = vs_address before \<in> set new_set;
          expired = vs_address before \<in> set exclusions;
          lc = vs_lifecycle before;
          changed_at = Option.bind (lc_history lc) last_deactivated_at_height;
          other = (if \<not> expired then
                     if \<not> included then Inr lc
                     else ineligible lc ''validated boundary included ineligible validator''
                   else ineligible lc ''TEE expiry exclusion contains validator with ineligible status'') in
      case lc of
        Active s \<Rightarrow>
          if \<not> included \<and> expired then Inr (WaitingForReadiness (expire_active_tee s))
          else if included \<and> \<not> expired then Inr (Active (retain_active_at_boundary s))
          else if \<not> included \<and> \<not> expired then Inl (Fatal (Text ''validated boundary omitted active validator''))
          else other
      | Joining s \<Rightarrow>
          if \<not> included \<and> expired then Inr (WaitingForReadiness (expire_joining_tee s))
          else if included \<and> \<not> expired then
            andThen admitted (\<lambda>ok.
            andThen (ensure ok (Fatal (Text ''certified active set contains validator without OCOMP admission''))) (\<lambda>_.
            Inr (Active (activate_at_boundary s))))
          else other
      | WaitingForReadiness s \<Rightarrow>
          if \<not> included \<and> expired then Inr (WaitingForReadiness s) else other
      | Exiting s \<Rightarrow>
          if included \<and> \<not> expired then
            andThen (ok_or changed_at (Fatal (Text ''exiting validator has no deactivation height''))) (\<lambda>h.
            andThen (ensure (freeze < h) (Fatal (Text ''validated boundary retained validator that exited before freeze''))) (\<lambda>_.
            Inr (Exiting s)))
          else if \<not> included \<and> \<not> expired then
            andThen (ok_or changed_at (Fatal (Text ''exiting validator has no deactivation height''))) (\<lambda>h.
            andThen (ensure (h \<le> freeze) (Fatal (Text ''validated boundary omitted validator that exited after freeze''))) (\<lambda>_.
            Inr (Unbonding (exclude_exiting_at_boundary s))))
          else other
      | JailRetained s \<Rightarrow>
          if included \<and> \<not> expired then
            andThen (ensure (freeze < stored_jailed_at lc)
              (Fatal (Text ''validated boundary retained validator jailed before freeze''))) (\<lambda>_.
            Inr (JailRetained s))
          else if \<not> included \<and> \<not> expired then
            andThen (ensure (stored_jailed_at lc \<le> freeze)
              (Fatal (Text ''validated boundary omitted validator jailed after freeze''))) (\<lambda>_.
            Inr (Jail (exclude_jailed_at_boundary s)))
          else other
      | _ \<Rightarrow> other)"

fun plan_boundary ::
    "vset_env \<Rightarrow> address list \<Rightarrow> u64 \<Rightarrow> address list \<Rightarrow> ValidatorSet \<Rightarrow> ValidatorState \<Rightarrow>
     (unit, ValidatorState \<times> ValidatorState) result" where
  "plan_boundary env new_set freeze exclusions v before =
     andThen (boundary_next new_set freeze exclusions
       (andThen (read_ocomp_registration env (vs_address before) v) (\<lambda>r. Inr (r \<noteq> None))) before) (\<lambda>lc.
     andThen (with_lifecycle before lc) (\<lambda>after. Inr (before, after)))"

definition still_pending :: "ValidatorLifecycle \<Rightarrow> bool" where
  "still_pending lc = (case lc of WaitingForReadiness _ \<Rightarrow> True | Joining _ \<Rightarrow> True | Exiting _ \<Rightarrow> True
     | JailRetained _ \<Rightarrow> True | _ \<Rightarrow> False)"

definition apply_reshared_set ::
    "vset_env \<Rightarrow> address list \<Rightarrow> b256 \<Rightarrow> u64 \<Rightarrow> address list \<Rightarrow> unit vset_prog" where
  "apply_reshared_set env new_set set_hash freeze exclusions =
     bindM (resultM (count_u32 (length new_set) ''active set count exceeds u32'')) (\<lambda>active_count.
     bindM (readM registered_validator_addresses) (\<lambda>addresses.
     bindM (readM (\<lambda>v. traverseR (\<lambda>a. validator_state env a v) addresses)) (\<lambda>states.
     bindM (readM (\<lambda>v. traverseR (plan_boundary env new_set freeze exclusions v) states)) (\<lambda>transitions.
     let planned = map (vs_address \<circ> snd)
           (filter (\<lambda>tr. is_current_consensus_participant (vs_lifecycle (snd tr))) transitions) in
     bindM (requireM (card (set new_set) = length new_set \<and> length planned = length new_set \<and>
         set planned \<subseteq> set new_set)
       (Fatal (Text ''validated boundary participant membership mismatch''))) (\<lambda>_.
     with_checkpoint (
       bindM (forEachM (\<lambda>tr. persist_validator_state_delta (fst tr) (snd tr)) transitions) (\<lambda>_.
       bindM (writeM (\<lambda>v. v\<lparr>active_consensus_set_hash := set_hash\<rparr>)) (\<lambda>_.
       bindM (set_pending (list_ex (\<lambda>tr. still_pending (vs_lifecycle (snd tr))) transitions)) (\<lambda>_.
       emit_vset (ConsensusSetUpdated active_count))))))))))"

fun check_exclusions :: "address list \<Rightarrow> address set \<Rightarrow> address list \<Rightarrow> unit vset_prog" where
  "check_exclusions new_set seen [] = retM ()"
| "check_exclusions new_set seen (a # as) =
     bindM (requireM (a \<noteq> 0 \<and> a \<notin> seen)
       (Fatal (Text ''TEE expiry exclusions must contain unique non-zero validators''))) (\<lambda>_.
     bindM (requireM (a \<notin> set new_set)
       (Fatal (Text ''TEE-expired validator is also present in the new active set''))) (\<lambda>_.
     bindM (getsM (\<lambda>v. address_to_index v a)) (\<lambda>i.
     bindM (requireM (i \<noteq> 0) (Fatal (Text ''TEE expiry exclusions contain unregistered validator''))) (\<lambda>_.
     check_exclusions new_set (insert a seen) as))))"

definition activate_boundary_set ::
    "vset_env \<Rightarrow> address list \<Rightarrow> b256 \<Rightarrow> u64 \<Rightarrow> address list \<Rightarrow> unit vset_prog" where
  "activate_boundary_set env new_set set_hash freeze exclusions =
     (if exclusions = [] then apply_reshared_set env new_set set_hash freeze []
      else
        bindM (requireM (length exclusions \<le> MAX_TEE_EXPIRED_TARGET_EXCLUSIONS)
          (Fatal (Text ''TEE expiry exclusions exceed protocol cap''))) (\<lambda>_.
        bindM (check_exclusions new_set {} exclusions) (\<lambda>_.
        apply_reshared_set env new_set set_hash freeze exclusions)))"

section \<open>Participation and epochs\<close>

definition record_proposer :: "vset_env \<Rightarrow> address \<Rightarrow> unit vset_prog" where
  "record_proposer env a =
     bindM (readM (is_consensus_participant env a)) (\<lambda>participant.
     bindM (requireM participant (Revert (Text ''proposer is not a current consensus participant''))) (\<lambda>_.
     bindM (getsM (\<lambda>v. val_blocks_proposed (slots v a))) (\<lambda>proposed.
     bindM (unwrapM (checked_add proposed 1) (Fatal (Text ''blocks proposed overflow''))) (\<lambda>n.
     write_slot a (val_blocks_proposed_update (\<lambda>_. n))))))"

definition record_missed_block :: "address \<Rightarrow> unit vset_prog" where
  "record_missed_block a =
     bindM (getsM (\<lambda>v. val_missed_blocks (slots v a))) (\<lambda>missed.
     bindM (unwrapM (checked_add missed 1) (Fatal (Text ''missed blocks overflow''))) (\<lambda>n.
     write_slot a (val_missed_blocks_update (\<lambda>_. n))))"

definition count_missed_vote :: "address \<Rightarrow> unit vset_prog" where
  "count_missed_vote a =
     bindM (getsM (\<lambda>v. val_missed_votes (slots v a))) (\<lambda>missed.
     bindM (unwrapM (checked_add missed 1) (Fatal (Text ''missed votes overflow''))) (\<lambda>n.
     write_slot a (val_missed_votes_update (\<lambda>_. n))))"

definition record_participation :: "vset_env \<Rightarrow> address list \<Rightarrow> address list \<Rightarrow> unit vset_prog" where
  "record_participation env voters absent =
     bindM (forEachM (\<lambda>a. bindM (readM (is_consensus_participant env a)) (\<lambda>ok.
       requireM ok (Revert (Text ''voter is not a current consensus participant'')))) voters) (\<lambda>_.
     forEachM (\<lambda>a. bindM (readM (is_consensus_participant env a)) (\<lambda>ok.
       bindM (requireM ok (Revert (Text ''absent voter is not a current consensus participant''))) (\<lambda>_.
       count_missed_vote a))) absent)"

definition record_finalized_participation :: "vset_env \<Rightarrow> address list \<Rightarrow> address list \<Rightarrow> unit vset_prog" where
  "record_finalized_participation env voters absent =
     bindM (forEachM (\<lambda>a. bindM (readM (is_validator env a)) (\<lambda>ok.
       requireM ok (Revert (Text ''finalized voter is not a registered validator'')))) voters) (\<lambda>_.
     forEachM (\<lambda>a. bindM (readM (is_validator env a)) (\<lambda>ok.
       bindM (requireM ok (Revert (Text ''finalized absent voter is not a registered validator''))) (\<lambda>_.
       count_missed_vote a))) absent)"

definition reset_epoch_counters :: "vset_env \<Rightarrow> unit vset_prog" where
  "reset_epoch_counters env =
     bindM (readM registered_validator_addresses) (\<lambda>addresses.
     forEachM (\<lambda>a.
       bindM (readM (validator_lifecycle env a)) (\<lambda>lc.
       if is_current_consensus_participant lc then
         bindM (write_slot a (val_missed_blocks_update (\<lambda>_. 0))) (\<lambda>_.
         bindM (write_slot a (val_missed_votes_update (\<lambda>_. 0))) (\<lambda>_.
         write_slot a (val_blocks_proposed_update (\<lambda>_. 0))))
       else retM ())) addresses)"

definition advance_epoch :: "vset_env \<Rightarrow> u64 \<Rightarrow> u64 \<Rightarrow> unit vset_prog" where
  "advance_epoch env timestamp height =
     bindM (getsM epoch_number) (\<lambda>epoch.
     bindM (unwrapM (checked_add epoch 1) (Fatal (Text ''epoch number overflow''))) (\<lambda>new_epoch.
     bindM (writeM (\<lambda>v. v\<lparr>epoch_number := new_epoch\<rparr>)) (\<lambda>_.
     bindM (writeM (\<lambda>v. v\<lparr>epoch_start_timestamp := timestamp\<rparr>)) (\<lambda>_.
     bindM (writeM (\<lambda>v. v\<lparr>epoch_start_block := height\<rparr>)) (\<lambda>_.
     bindM (readM (active_validator_count env)) (\<lambda>active_count.
     emit_vset (EpochTransition new_epoch timestamp active_count)))))))"

definition update_epoch :: "vset_env \<Rightarrow> u64 \<Rightarrow> u64 \<Rightarrow> unit vset_prog" where
  "update_epoch env timestamp height = bindM (reset_epoch_counters env) (\<lambda>_. advance_epoch env timestamp height)"

section \<open>Hooks of the block executor\<close>

text \<open>\<open>hooks.rs\<close>: what the executor calls around a block.\<close>

definition FINALIZED_PARTICIPATION_RETAIN :: u64 where
  "FINALIZED_PARTICIPATION_RETAIN = 64"

definition is_epoch_boundary :: "u64 \<Rightarrow> ValidatorSet \<Rightarrow> bool" where
  "is_epoch_boundary block_number v \<longleftrightarrow> config_epoch_length_blocks v \<noteq> 0 \<and>
     saturating_add (epoch_start_block v) (ucast (config_epoch_length_blocks v)) \<le> block_number"

definition hook_record_proposer :: "vset_env \<Rightarrow> address \<Rightarrow> unit vset_prog" where
  "hook_record_proposer env beneficiary =
     bindM (readM (is_validator env beneficiary)) (\<lambda>registered.
     if registered then record_proposer env beneficiary else retM ())"

definition hook_record_participation :: "vset_env \<Rightarrow> address list \<Rightarrow> address list \<Rightarrow> unit vset_prog" where
  "hook_record_participation env voters absent =
     (if absent = [] then retM () else record_participation env voters absent)"

text \<open>The prune ring: the guard of the block recorded \<open>FINALIZED_PARTICIPATION_RETAIN\<close> records ago is cleared.\<close>

definition advance_ring :: "b256 \<Rightarrow> unit vset_prog" where
  "advance_ring fb_hash =
     bindM (getsM finalized_participation_ring_seq) (\<lambda>sq.
     let idx = sq mod FINALIZED_PARTICIPATION_RETAIN in
     bindM (getsM (\<lambda>v. finalized_participation_ring v idx)) (\<lambda>evicted.
     bindM (if evicted \<noteq> 0 \<and> evicted \<noteq> fb_hash then
         writeM (\<lambda>v. v\<lparr>finalized_participation_recorded := (finalized_participation_recorded v)(evicted := False)\<rparr>)
       else retM ()) (\<lambda>_.
     bindM (writeM (\<lambda>v. v\<lparr>finalized_participation_ring := (finalized_participation_ring v)(idx := fb_hash)\<rparr>)) (\<lambda>_.
     bindM (unwrapM (checked_add sq 1) (Fatal (Text ''finalized participation ring sequence overflow''))) (\<lambda>next.
     writeM (\<lambda>v. v\<lparr>finalized_participation_ring_seq := next\<rparr>))))))"

definition hook_record_finalized_participation ::
    "vset_env \<Rightarrow> b256 \<Rightarrow> address list \<Rightarrow> address list \<Rightarrow> unit vset_prog" where
  "hook_record_finalized_participation env fb_hash voters absent =
     (if voters = [] \<and> absent = [] then retM ()
      else
        bindM (getsM (\<lambda>v. finalized_participation_recorded v fb_hash)) (\<lambda>recorded.
        if recorded then retM ()
        else
          bindM (record_finalized_participation env voters absent) (\<lambda>_.
          bindM (writeM (\<lambda>v. v\<lparr>finalized_participation_recorded :=
            (finalized_participation_recorded v)(fb_hash := True)\<rparr>)) (\<lambda>_.
          advance_ring fb_hash))))"

section \<open>Cleanup\<close>

definition clear_validator_storage :: "vset_env \<Rightarrow> address \<Rightarrow> unit vset_prog" where
  "clear_validator_storage env a =
     bindM (getsM (\<lambda>v. read_consensus_pubkey (slots v a))) (\<lambda>pk.
     bindM (writeM (\<lambda>v. v\<lparr>consensus_pubkey_hash_to_address :=
       (consensus_pubkey_hash_to_address v)(consensus_pubkey_hash env pk := 0)\<rparr>)) (\<lambda>_.
     bindM (getsM (\<lambda>v. val_radicle_node_id v a)) (\<lambda>node_id.
     bindM (if node_id \<noteq> 0 then
         writeM (\<lambda>v. v\<lparr>radicle_node_id_to_validator := (radicle_node_id_to_validator v)(node_id := 0)\<rparr>)
       else retM ()) (\<lambda>_.
     bindM (writeM (\<lambda>v. v\<lparr>val_radicle_node_id := (val_radicle_node_id v)(a := 0)\<rparr>)) (\<lambda>_.
     bindM (write_consensus_pubkey a 0) (\<lambda>_.
     bindM (write_slot a (val_stake_update (\<lambda>_. 0))) (\<lambda>_.
     bindM (write_slot a (val_status_update (\<lambda>_. 0))) (\<lambda>_.
     bindM (write_slot a (val_slash_count_update (\<lambda>_. 0))) (\<lambda>_.
     bindM (write_slot a (val_missed_blocks_update (\<lambda>_. 0))) (\<lambda>_.
     bindM (write_slot a (val_missed_votes_update (\<lambda>_. 0))) (\<lambda>_.
     bindM (write_slot a (val_blocks_proposed_update (\<lambda>_. 0))) (\<lambda>_.
     bindM (write_slot a (val_joined_at_height_update (\<lambda>_. 0))) (\<lambda>_.
     bindM (write_slot a (val_deactivated_at_height_update (\<lambda>_. 0))) (\<lambda>_.
     bindM (write_slot a (val_unbonding_end_update (\<lambda>_. 0))) (\<lambda>_.
     bindM (write_slot a (val_has_bls_share_update (\<lambda>_. False))) (\<lambda>_.
     bindM (write_slot a (val_p2p_address_version_update (\<lambda>_. 0))) (\<lambda>_.
     bindM (write_slot a (val_p2p_address_payload_update (\<lambda>_. []))) (\<lambda>_.
     bindM (write_slot a (val_join_confirmed_update (\<lambda>_. False))) (\<lambda>_.
     bindM (write_slot a (val_jailed_at_height_update (\<lambda>_. 0))) (\<lambda>_.
     bindM (writeM (\<lambda>v. v\<lparr>val_ocomp_miss_count := (val_ocomp_miss_count v)(a := 0)\<rparr>)) (\<lambda>_.
     writeM (\<lambda>v. v\<lparr>val_ocomp_recovery_deadline := (val_ocomp_recovery_deadline v)(a := 0)\<rparr>))))))))))))))))))))))"

text \<open>The swap with the last entry of the dense index, and the removal of the last slot.\<close>

definition remove_index :: "address \<Rightarrow> u64 \<Rightarrow> u64 \<Rightarrow> unit vset_prog" where
  "remove_index a i count =
     bindM (if i < count then
         bindM (getsM (\<lambda>v. index_to_address v count)) (\<lambda>last_addr.
         bindM (writeM (\<lambda>v. v\<lparr>index_to_address := (index_to_address v)(i := last_addr)\<rparr>)) (\<lambda>_.
         writeM (\<lambda>v. v\<lparr>address_to_index := (address_to_index v)(last_addr := i)\<rparr>)))
       else retM ()) (\<lambda>_.
     bindM (writeM (\<lambda>v. v\<lparr>index_to_address := (index_to_address v)(count := 0)\<rparr>)) (\<lambda>_.
     writeM (\<lambda>v. v\<lparr>address_to_index := (address_to_index v)(a := 0)\<rparr>)))"

text \<open>Whether the entry of \<open>a\<close> is removed by a pass of the loop.\<close>

definition removable :: "vset_env \<Rightarrow> address \<Rightarrow> ValidatorSet \<Rightarrow> (unit, bool) result" where
  "removable env a v =
     andThen (validator_state env a v) (\<lambda>st.
     case vs_lifecycle st of
       Inactive _ \<Rightarrow>
         andThen (ok_or (Option.bind (lc_history (vs_lifecycle st)) last_deactivated_at_height)
           (Fatal (Text ''inactive validator has no deactivation height''))) (\<lambda>deactivated_at.
         andThen (ok_or (checked_add deactivated_at (ucast (config_reregistration_cooldown v)))
           (Fatal (Text ''inactive cleanup height overflow''))) (\<lambda>cleanup_at.
         Inr (cleanup_at \<le> ve_block_number env \<and> val_ocomp_recovery_deadline v a = 0)))
     | _ \<Rightarrow> Inr False)"

text \<open>The \<open>while\<close> loop. Every pass either moves the index up or the count down by one, so after
  \<open>count + 1 - i\<close> passes the guard of the loop fails. The first argument bounds the number of evaluations of the
  guard; a loop that uses them up without ending returns \<open>None\<close>, and \<open>cleanup_loop_ends\<close> shows that this does
  not happen.\<close>

fun cleanup_loop :: "nat \<Rightarrow> vset_env \<Rightarrow> u32 \<Rightarrow> u64 \<Rightarrow> u32 \<Rightarrow> u32 \<Rightarrow> (u32 \<times> u32) option vset_prog" where
  "cleanup_loop 0 env max_removals i count removed = retM None"
| "cleanup_loop (Suc n) env max_removals i count removed =
     (if \<not> i \<le> ucast count then retM (Some (count, removed))
      else if 0 < max_removals \<and> max_removals \<le> removed then retM (Some (count, removed))
      else
        bindM (getsM (\<lambda>v. index_to_address v i)) (\<lambda>a.
        if a = 0 then cleanup_loop n env max_removals (i + 1) count removed
        else
          bindM (readM (removable env a)) (\<lambda>go.
          if \<not> go then cleanup_loop n env max_removals (i + 1) count removed
          else
            bindM (clear_validator_storage env a) (\<lambda>_.
            bindM (remove_index a i (ucast count)) (\<lambda>_.
            cleanup_loop n env max_removals i (count - 1) (removed + 1))))))"

definition cleanup_inactive_validators :: "vset_env \<Rightarrow> u32 \<Rightarrow> u32 vset_prog" where
  "cleanup_inactive_validators env max_removals =
     with_checkpoint (
       bindM (getsM validator_count) (\<lambda>count.
       bindM (cleanup_loop (Suc (unat count)) env max_removals 1 count 0) (\<lambda>result.
       case result of
         None \<Rightarrow> failM (Fatal (Text ''cleanup does not end''))
       | Some (count, removed) \<Rightarrow>
           bindM (writeM (\<lambda>v. v\<lparr>validator_count := count\<rparr>)) (\<lambda>_.
           retM removed))))"

section \<open>Operational keys\<close>

definition ValidatorDelegateRole_try_from :: "u8 \<Rightarrow> (unit, ValidatorDelegateRole) result" where
  "ValidatorDelegateRole_try_from r =
     (if r = 1 then Inr Oracle else if r = 2 then Inr Ocomp
      else Inl (Revert (Text ''unsupported validator delegate role'')))"

definition ensure_registered_validator :: "vset_env \<Rightarrow> address \<Rightarrow> unit vset_prog" where
  "ensure_registered_validator env a =
     bindM (readM (get_validator env a)) (\<lambda>r.
     requireM (r \<noteq> None) (Revert (Text ''caller is not a registered validator'')))"

definition set_delegate :: "vset_env \<Rightarrow> address \<Rightarrow> ValidatorDelegateRole \<Rightarrow> address \<Rightarrow> unit vset_prog" where
  "set_delegate env validator role delegate =
     bindM (ensure_registered_validator env validator) (\<lambda>_.
     bindM (requireM (delegate \<noteq> 0) (Revert (Text ''delegate address must not be zero''))) (\<lambda>_.
     bindM (requireM (delegate \<noteq> validator) (Revert (Text ''delegate must differ from validator''))) (\<lambda>_.
     bindM (readM (get_validator env delegate)) (\<lambda>r.
     bindM (requireM (r = None) (Revert (Text ''delegate must not be a registered validator''))) (\<lambda>_.
     bindM (getsM (\<lambda>v. validator_by_role_delegate v (role_id role) delegate)) (\<lambda>assigned.
     bindM (requireM (assigned = 0 \<or> assigned = validator) (Revert (Text ''delegate already assigned for role''))) (\<lambda>_.
     bindM (getsM (\<lambda>v. delegate_by_validator_role v validator (role_id role))) (\<lambda>previous.
     if previous = delegate then retM ()
     else
       bindM (if previous \<noteq> 0 then
           writeM (\<lambda>v. v\<lparr>validator_by_role_delegate := (validator_by_role_delegate v)(role_id role :=
             (validator_by_role_delegate v (role_id role))(previous := 0))\<rparr>)
         else retM ()) (\<lambda>_.
       bindM (writeM (\<lambda>v. v\<lparr>delegate_by_validator_role := (delegate_by_validator_role v)(validator :=
         (delegate_by_validator_role v validator)(role_id role := delegate))\<rparr>)) (\<lambda>_.
       bindM (writeM (\<lambda>v. v\<lparr>validator_by_role_delegate := (validator_by_role_delegate v)(role_id role :=
         (validator_by_role_delegate v (role_id role))(delegate := validator))\<rparr>)) (\<lambda>_.
       emit_vset (ValidatorDelegateSet validator (role_id role) delegate))))))))))))"

definition revoke_delegate :: "vset_env \<Rightarrow> address \<Rightarrow> ValidatorDelegateRole \<Rightarrow> unit vset_prog" where
  "revoke_delegate env validator role =
     bindM (ensure_registered_validator env validator) (\<lambda>_.
     bindM (getsM (\<lambda>v. delegate_by_validator_role v validator (role_id role))) (\<lambda>previous.
     if previous = 0 then retM ()
     else
       bindM (writeM (\<lambda>v. v\<lparr>delegate_by_validator_role := (delegate_by_validator_role v)(validator :=
         (delegate_by_validator_role v validator)(role_id role := 0))\<rparr>)) (\<lambda>_.
       bindM (writeM (\<lambda>v. v\<lparr>validator_by_role_delegate := (validator_by_role_delegate v)(role_id role :=
         (validator_by_role_delegate v (role_id role))(previous := 0))\<rparr>)) (\<lambda>_.
       emit_vset (ValidatorDelegateRevoked validator (role_id role) previous)))))"

definition get_delegate :: "address \<Rightarrow> ValidatorDelegateRole \<Rightarrow> ValidatorSet \<Rightarrow> address" where
  "get_delegate validator role v = delegate_by_validator_role v validator (role_id role)"

definition resolve_validator_for_role ::
    "vset_env \<Rightarrow> address \<Rightarrow> ValidatorDelegateRole \<Rightarrow> ValidatorSet \<Rightarrow> (unit, address option) result" where
  "resolve_validator_for_role env signer role v =
     andThen (get_validator env signer v) (\<lambda>r.
     case r of
       Some rec \<Rightarrow>
         if get_delegate signer role v = 0 \<and> vr_status rec = ACTIVE \<and> vr_has_bls_share rec
         then Inr (Some signer) else Inr None
     | None \<Rightarrow>
         let validator = validator_by_role_delegate v (role_id role) signer in
         if validator = 0 \<or> get_delegate validator role v \<noteq> signer then Inr None
         else
           andThen (get_validator env validator v) (\<lambda>r.
           case r of
             None \<Rightarrow> Inr None
           | Some rec \<Rightarrow>
               if vr_status rec \<noteq> ACTIVE \<or> \<not> vr_has_bls_share rec then Inr None else Inr (Some validator)))"

section \<open>The abstraction\<close>

type_synonym lifecycles = "address \<Rightarrow> ValidatorLifecycle"

type_synonym permissions = "address \<Rightarrow> lifecycle_event set"

text \<open>Every validator made transitions of \<open>E\<close> only.\<close>

definition evolves :: "permissions \<Rightarrow> lifecycles \<Rightarrow> lifecycles \<Rightarrow> bool" where
  "evolves E L L' \<longleftrightarrow> (\<forall>a. runs_in (E a) (L a) (L' a))"

text \<open>Started in a storage that represents \<open>L\<close>, a successful run ends in a storage that represents some \<open>L'\<close>
  to which every validator evolved by transitions of \<open>E\<close>; a neutral program keeps what is represented.\<close>

definition tracks :: "vset_env \<Rightarrow> permissions \<Rightarrow> lifecycles \<Rightarrow> 'a vset_prog \<Rightarrow> bool" where
  "tracks env E L m \<longleftrightarrow> (\<forall>s u t. m s = (Inr u, t) \<longrightarrow> registry_view env (store s) L \<longrightarrow>
     (\<exists>L'. registry_view env (store t) L' \<and> evolves E L L'))"

definition neutral :: "vset_env \<Rightarrow> 'a vset_prog \<Rightarrow> bool" where
  "neutral env m \<longleftrightarrow> (\<forall>s u t L. m s = (Inr u, t) \<longrightarrow> registry_view env (store s) L \<longrightarrow> registry_view env (store t) L)"

definition runs_to ::
    "(ValidatorLifecycle \<Rightarrow> lifecycle_event set) \<Rightarrow> (ValidatorState \<Rightarrow> (unit, ValidatorLifecycle \<times> bool) result) \<Rightarrow> bool" where
  "runs_to D pick \<longleftrightarrow> (\<forall>st lc b. pick st = Inr (lc, b) \<longrightarrow> wf_lifecycle (vs_lifecycle st) \<longrightarrow>
     runs_in (D (vs_lifecycle st)) (vs_lifecycle st) lc)"

text \<open>The transitions a report of a new bonded amount, and a punishment, may cause.\<close>

definition increase_events :: "u256 \<Rightarrow> u256 \<Rightarrow> lifecycle_event set" where
  "increase_events amount minimum = insert (MirrorStake amount) (if minimum \<le> amount then {ReachMinimum minimum amount} else {})"

definition slash_events :: "u256 \<Rightarrow> u256 \<Rightarrow> lifecycle_event set" where
  "slash_events amount minimum =
     insert (MirrorStake amount) (if amount < minimum then {Demote minimum amount, BeginExit amount} else {})"

definition unstake_events :: "u256 \<Rightarrow> u256 \<Rightarrow> lifecycle_event set" where
  "unstake_events amount minimum = slash_events amount minimum \<union> (if amount = 0 then {ExitJailed 0} else {})"

definition punish_events :: "bool \<Rightarrow> ValidatorLifecycle \<Rightarrow> lifecycle_event set" where
  "punish_events jailing lc = {if jailing then JailEvent else BeginExit (lc_bonded_stake lc), Account}"

text \<open>\<open>leads v m Q\<close>: a successful run of \<open>m\<close> from the storage \<open>v\<close> ends in a storage of \<open>Q\<close>.\<close>

definition leads :: "'c \<Rightarrow> ('c, 'e, 'a) prog \<Rightarrow> ('c \<Rightarrow> bool) \<Rightarrow> bool" where
  "leads v m Q \<longleftrightarrow> (\<forall>s u t. m s = (Inr u, t) \<longrightarrow> store s = v \<longrightarrow> Q (store t))"

text \<open>The transitions a boundary may cause: the committee members stay or enter, and only with an OCOMP registration,
  the others leave.\<close>

definition boundary_events :: "vset_env \<Rightarrow> address list \<Rightarrow> address list \<Rightarrow> ValidatorSet \<Rightarrow> permissions" where
  "boundary_events env new_set exclusions v a =
     (if a \<in> set new_set then
        if a \<in> set exclusions then {}
        else insert Retain (if \<exists>reg. read_ocomp_registration env a v = (Inr (Some reg) :: (unit, _) result) then {Activate} else {})
      else if a \<in> set exclusions then {ExpireTee} else {ExcludeExiting, ExcludeJailed})"

definition evolved :: "vset_env \<Rightarrow> permissions \<Rightarrow> lifecycles \<Rightarrow> ValidatorSet \<Rightarrow> bool" where
  "evolved env E L v \<longleftrightarrow> (\<exists>L'. registry_view env v L' \<and> evolves E L L')"

section \<open>What an operation may do to the registry\<close>

named_theorems track_intros "operations that keep a registry view"

lemma evolves_refl [simp]: "evolves E L L"
  by (simp add: evolves_def)

lemma evolves_trans: "evolves E L M \<Longrightarrow> evolves E M N \<Longrightarrow> evolves E L N"
  unfolding evolves_def using runs_in_trans by blast

lemma evolves_set: "runs_in (E a) (L a) lc \<Longrightarrow> evolves E L (L(a := lc))"
  by (simp add: evolves_def)

lemma neutral_pure: "pure_prog m \<Longrightarrow> neutral env m"
  unfolding neutral_def by (metis pure_store)

lemma neutral_bind [track_intros]: "neutral env m \<Longrightarrow> (\<And>x. neutral env (k x)) \<Longrightarrow> neutral env (bindM m k)"
  unfolding neutral_def bindM_ok by blast

lemma neutral_write: "(\<And>v L. registry_view env v L \<Longrightarrow> registry_view env (f v) L) \<Longrightarrow> neutral env (writeM f)"
  by (auto simp: neutral_def writeM_ok)

lemma neutral_checkpoint [track_intros]: "neutral env m \<Longrightarrow> neutral env (with_checkpoint m)"
  by (simp add: neutral_def with_checkpoint_ok)

lemma neutral_if [track_intros]: "neutral env m \<Longrightarrow> neutral env n \<Longrightarrow> neutral env (if b then m else n)"
  by simp

lemma neutral_option [track_intros]:
  "neutral env m \<Longrightarrow> (\<And>x. neutral env (f x)) \<Longrightarrow> neutral env (case y of None \<Rightarrow> m | Some x \<Rightarrow> f x)"
  by (cases y) auto

lemma neutral_let [track_intros]: "neutral env (f x) \<Longrightarrow> neutral env (let y = x in f y)"
  by simp

lemma neutral_reads [track_intros]:
  "neutral env (retM x)" "neutral env (failM e)" "neutral env (getsM g)" "neutral env (requireM b e)"
  "neutral env (unwrapM y e)" "neutral env (readM r)" "neutral env (resultM q)"
  by (auto intro: neutral_pure pure_intros)

lemma neutral_forEach [track_intros]: "(\<And>x. neutral env (f x)) \<Longrightarrow> neutral env (forEachM f xs)"
  by (induction xs) (auto intro: track_intros)

lemma neutral_fields [track_intros]:
  "neutral env (writeM (\<lambda>v. v\<lparr>pending_set_change := f0 v\<rparr>))"
  "neutral env (writeM (\<lambda>v. v\<lparr>vset_logs := f1 v\<rparr>))"
  "neutral env (writeM (\<lambda>v. v\<lparr>active_consensus_set_hash := f2 v\<rparr>))"
  "neutral env (writeM (\<lambda>v. v\<lparr>val_ocomp_registration := f3 v\<rparr>))"
  "neutral env (writeM (\<lambda>v. v\<lparr>ocomp_key_hash_to_validator := f4 v\<rparr>))"
  "neutral env (writeM (\<lambda>v. v\<lparr>val_radicle_node_id := f5 v\<rparr>))"
  "neutral env (writeM (\<lambda>v. v\<lparr>radicle_node_id_to_validator := f6 v\<rparr>))"
  "neutral env (writeM (\<lambda>v. v\<lparr>val_ocomp_miss_count := f7 v\<rparr>))"
  "neutral env (writeM (\<lambda>v. v\<lparr>val_ocomp_recovery_deadline := f8 v\<rparr>))"
  "neutral env (writeM (\<lambda>v. v\<lparr>delegate_by_validator_role := f9 v\<rparr>))"
  "neutral env (writeM (\<lambda>v. v\<lparr>validator_by_role_delegate := f10 v\<rparr>))"
  "neutral env (writeM (\<lambda>v. v\<lparr>epoch_number := f11 v\<rparr>))"
  "neutral env (writeM (\<lambda>v. v\<lparr>epoch_start_timestamp := f12 v\<rparr>))"
  "neutral env (writeM (\<lambda>v. v\<lparr>epoch_start_block := f13 v\<rparr>))"
  "neutral env (writeM (\<lambda>v. v\<lparr>config_max_validators := f14 v\<rparr>))"
  "neutral env (writeM (\<lambda>v. v\<lparr>finalized_participation_recorded := f15 v\<rparr>))"
  "neutral env (writeM (\<lambda>v. v\<lparr>finalized_participation_ring := f16 v\<rparr>))"
  "neutral env (writeM (\<lambda>v. v\<lparr>finalized_participation_ring_seq := f17 v\<rparr>))"
  by (rule neutral_write, simp add: view_frame)+

lemma neutral_flags [track_intros]: "neutral env (set_pending b)" "neutral env (emit_vset ev)"
  unfolding set_pending_def emit_vset_def by (intro track_intros)+

lemma tracks_neutral: "neutral env m \<Longrightarrow> tracks env E L m"
  unfolding neutral_def tracks_def using evolves_refl by blast

lemma tracks_bind:
  assumes "neutral env m" "\<And>x. tracks env E L (k x)"
  shows "tracks env E L (bindM m k)"
  using assms unfolding neutral_def tracks_def bindM_ok by blast

lemma tracks_state: "tracks env E L (k \<lparr>vs_address = a, vs_lifecycle = L a\<rparr>) \<Longrightarrow> tracks env E L (bindM (readM (validator_state env a)) k)"
  unfolding tracks_def bindM_ok readM_ok by (auto simp: validator_state_view)

lemma tracks_result: "(\<And>x. r = Inr x \<Longrightarrow> tracks env E L (k x)) \<Longrightarrow> tracks env E L (bindM (resultM r) k)"
  unfolding tracks_def bindM_ok resultM_ok by blast

lemma tracks_with:
  "tracks env E L (k \<lparr>vs_address = a, vs_lifecycle = lc\<rparr>) \<Longrightarrow>
   tracks env E L (bindM (resultM (with_lifecycle \<lparr>vs_address = a, vs_lifecycle = x\<rparr> lc)) k)"
  by (rule tracks_result) (simp add: with_lifecycle_ok)

lemma tracks_require: "(b \<Longrightarrow> tracks env E L (k ())) \<Longrightarrow> tracks env E L (bindM (requireM b e) k)"
  unfolding tracks_def bindM_ok requireM_ok by auto

lemma tracks_checkpoint: "tracks env E L m \<Longrightarrow> tracks env E L (with_checkpoint m)"
  by (simp add: tracks_def with_checkpoint_ok)

lemma tracks_seq:
  assumes "tracks env E L m" "\<And>M x. tracks env E M (k x)"
  shows "tracks env E L (bindM m k)"
  unfolding tracks_def
proof (intro allI impI)
  fix s u t assume "bindM m k s = (Inr u, t)" and v: "registry_view env (store s) L"
  then obtain x s1 where m: "m s = (Inr x, s1)" and k: "k x s1 = (Inr u, t)" by (auto simp: bindM_ok)
  from m v assms(1) obtain M where "registry_view env (store s1) M" "evolves E L M" unfolding tracks_def by blast
  moreover from this k assms(2) obtain N where "registry_view env (store t) N" "evolves E M N" unfolding tracks_def by blast
  ultimately show "\<exists>L'. registry_view env (store t) L' \<and> evolves E L L'" using evolves_trans by blast
qed

lemma persist_view:
  assumes "registry_view env (store s) L" "runs_in D (L a) lc"
    and "persist_validator_state_delta \<lparr>vs_address = a, vs_lifecycle = L a\<rparr> \<lparr>vs_address = a, vs_lifecycle = lc\<rparr> s = (Inr u, t)"
  shows "registry_view env (store t) (L(a := lc))"
    and "store t = (store s)\<lparr>slots := (slots (store s))(a := encode_lifecycle lc)\<rparr>"
proof -
  let ?b = "\<lparr>vs_address = a, vs_lifecycle = L a\<rparr>" and ?c = "\<lparr>vs_address = a, vs_lifecycle = lc\<rparr>"
  have sl: "slots (store s) (vs_address ?c) = encode_lifecycle (vs_lifecycle ?b)"
    using view_slots [OF assms(1)] by simp
  note p = persist_delta_ok [OF assms(3) sl]
  from p(1) show st: "store t = (store s)\<lparr>slots := (slots (store s))(a := encode_lifecycle lc)\<rparr>" by simp
  have "lc_registry_index lc = lc_registry_index (L a)" "lc_consensus_pubkey lc = lc_consensus_pubkey (L a)"
    using p(4,5) by simp_all
  then show "registry_view env (store t) (L(a := lc))"
    unfolding st by (rule view_set [OF assms(1) runs_in_wf [OF assms(2) view_wf [OF assms(1)]]])
qed

lemma tracks_persist:
  assumes run: "runs_in (E a) (L a) lc" and neutral: "\<And>x. neutral env (k x)"
  shows "tracks env E L (bindM (persist_validator_state_delta \<lparr>vs_address = a, vs_lifecycle = L a\<rparr>
     \<lparr>vs_address = a, vs_lifecycle = lc\<rparr>) k)"
  unfolding tracks_def bindM_ok
proof (intro allI impI, elim exE conjE)
  fix s u t x s1 assume v: "registry_view env (store s) L"
    and p: "persist_validator_state_delta \<lparr>vs_address = a, vs_lifecycle = L a\<rparr> \<lparr>vs_address = a, vs_lifecycle = lc\<rparr> s = (Inr x, s1)"
    and k: "k x s1 = (Inr u, t)"
  have "registry_view env (store t) (L(a := lc))"
    using persist_view(1) [OF v run p] k neutral unfolding neutral_def by blast
  then show "\<exists>L'. registry_view env (store t) L' \<and> evolves E L L'" using evolves_set [of E a L lc, OF run] by blast
qed

lemma transition_tracks:
  assumes "runs_to D pick" "D (L a) \<subseteq> E a" "wf_lifecycle (L a)"
  shows "tracks env E L (transition env a pick events)"
  unfolding transition_def
proof (rule tracks_state, rule tracks_result, clarify)
  fix lc b assume "pick \<lparr>vs_address = a, vs_lifecycle = L a\<rparr> = Inr (lc, b)"
  with assms(1,3) have "runs_in (D (L a)) (L a) lc" unfolding runs_to_def by fastforce
  then have run: "runs_in (E a) (L a) lc" using assms(2) by (rule runs_in_mono)
  show "tracks env E L (bindM (resultM (with_lifecycle \<lparr>vs_address = a, vs_lifecycle = L a\<rparr> lc)) (\<lambda>after.
     with_checkpoint (bindM (persist_validator_state_delta \<lparr>vs_address = a, vs_lifecycle = L a\<rparr> after) (\<lambda>_.
       bindM (if b then set_pending True else retM ()) (\<lambda>_. forEachM emit_vset events)))))"
    by (rule tracks_with, rule tracks_checkpoint, rule tracks_persist [of E a L lc, OF run]) (intro track_intros)
qed

text \<open>What each choice of the next lifecycle amounts to: the transitions it makes, with the amounts it stores.\<close>

lemma keep_variant_run:
  "keep_variant lc st = Inr (lc', b) \<Longrightarrow> MirrorStake (bonded st) \<in> D \<Longrightarrow> runs_in D lc lc'"
  unfolding keep_variant_def by (auto intro: runs_in_step step_with_stake)

lemma amount_steps:
  "reach_minimum s st m = (Inr w :: (unit, payload_stake) result) \<Longrightarrow> ReachMinimum m (bonded st) \<in> D \<Longrightarrow>
     runs_in D (WaitingForStake s) (WaitingForReadiness w)"
  "demote_waiting_for_readiness s st m = (Inr w :: (unit, payload_stake) result) \<Longrightarrow> Demote m (bonded st) \<in> D \<Longrightarrow>
     runs_in D (WaitingForReadiness s) (WaitingForStake w)"
  "demote_joining s st m = (Inr w :: (unit, payload_stake) result) \<Longrightarrow> Demote m (bonded st) \<in> D \<Longrightarrow>
     runs_in D (Joining s) (WaitingForStake w)"
  "begin_exit s st h = (Inr w :: (unit, payload_stake) result) \<Longrightarrow> BeginExit (bonded st) \<in> D \<Longrightarrow>
     runs_in D (Active s) (Exiting w)"
  "full_exit_jailed_retained j st = (Inr w :: (unit, payload_stake) result) \<Longrightarrow> ExitJailed (bonded st) \<in> D \<Longrightarrow>
     runs_in D (JailRetained j) (Exiting w)"
  "full_exit_jailed j st = (Inr w :: (unit, payload_stake) result) \<Longrightarrow> ExitJailed (bonded st) \<in> D \<Longrightarrow>
     runs_in D (Jail j) (Unbonding w)"
  by (blast intro: runs_in_step lifecycle_step.intros)+

lemma stake_increase_runs: "runs_to (\<lambda>_. increase_events amount minimum) (stake_increase_next amount minimum)"
  unfolding runs_to_def stake_increase_next_def Let_def increase_events_def
  by (auto split: ValidatorLifecycle.splits if_splits elim!: keep_variant_run intro!: amount_steps)

lemma unstake_runs: "runs_to (\<lambda>_. unstake_events amount minimum) (unstake_next height amount minimum hint)"
  unfolding runs_to_def unstake_next_def Let_def unstake_events_def slash_events_def
  by (auto split: ValidatorLifecycle.splits if_splits elim!: keep_variant_run intro!: amount_steps)

lemma slash_runs: "runs_to (\<lambda>_. slash_events amount minimum) (slash_next height amount minimum hint)"
  unfolding runs_to_def slash_next_def Let_def slash_events_def
  by (auto split: ValidatorLifecycle.splits if_splits elim!: keep_variant_run intro!: amount_steps)

lemma complete_runs: "runs_to (\<lambda>lc. {MirrorStake (lc_bonded_stake lc), CompleteUnbonding}) complete_next"
  unfolding runs_to_def complete_next_def
proof (intro allI impI)
  fix st lc b
  assume "andThen (with_stake (vs_lifecycle st) \<lparr>bonded = lc_bonded_stake (vs_lifecycle st), unbonding_end_hint = None\<rparr>)
      (\<lambda>cleared. case cleared of Unbonding u \<Rightarrow> andThen (complete_unbonding u) (\<lambda>i. Inr (Inactive i, False))
        | _ \<Rightarrow> Inl (Fatal (Text ''with_stake preserves lifecycle variant''))) = (Inr (lc, b) :: (unit, ValidatorLifecycle \<times> bool) result)"
  then obtain c where w: "with_stake (vs_lifecycle st) \<lparr>bonded = lc_bonded_stake (vs_lifecycle st), unbonding_end_hint = None\<rparr>
      = (Inr c :: (unit, ValidatorLifecycle) result)"
    and c: "(case c of Unbonding u \<Rightarrow> andThen (complete_unbonding u) (\<lambda>i. Inr (Inactive i, False))
        | _ \<Rightarrow> Inl (Fatal (Text ''with_stake preserves lifecycle variant''))) = (Inr (lc, b) :: (unit, ValidatorLifecycle \<times> bool) result)"
    by (simp only: andThen_ok) blast
  from c obtain u i where u: "c = Unbonding u" "complete_unbonding u = (Inr i :: (unit, payload_no_stake) result)" "lc = Inactive i"
    by (cases c) auto
  let ?D = "{MirrorStake (lc_bonded_stake (vs_lifecycle st)), CompleteUnbonding}"
  have "runs_in ?D (vs_lifecycle st) c" by (rule runs_in_step [OF step_with_stake [OF w]]) simp
  moreover have "runs_in ?D c lc" unfolding u(1,3) by (rule runs_in_step [OF step_complete [OF u(2)]]) simp
  ultimately show "runs_in ?D (vs_lifecycle st) lc" by (rule runs_in_trans)
qed

lemma ocomp_slash_runs: "runs_to (\<lambda>_. {MirrorStake amount}) (ocomp_slash_next amount)"
  unfolding runs_to_def ocomp_slash_next_def by (auto elim!: keep_variant_run)

lemma deactivate_runs: "runs_to (\<lambda>lc. {BeginExit (lc_bonded_stake lc)}) (deactivate_next height)"
  unfolding runs_to_def deactivate_next_def
  by (auto split: ValidatorLifecycle.splits simp: lc_bonded_stake_def intro: amount_steps)

lemma tee_expiry_runs: "runs_to (\<lambda>_. {JailEvent}) (tee_expiry_next height)"
  unfolding runs_to_def tee_expiry_next_def
  by (auto split: ValidatorLifecycle.splits intro: runs_in_step step_jail)

lemma unjail_runs: "runs_to (\<lambda>_. {Unjail}) (unjail_next height cooldown)"
  unfolding runs_to_def unjail_next_def
  by (auto split: ValidatorLifecycle.splits intro: runs_in_step step_unjail)

lemma confirm_next_run: "confirm_next st = Inr lc \<Longrightarrow> ConfirmReady \<in> D \<Longrightarrow> runs_in D (vs_lifecycle st) lc"
  unfolding confirm_next_def
  by (auto split: ValidatorLifecycle.splits intro: runs_in_step step_confirm_ready)

lemma confirm_tracks: "ConfirmReady \<in> E caller \<Longrightarrow> tracks env E L (confirm_validator_ready env caller encoded)"
  unfolding confirm_validator_ready_def Let_def
  by (rule tracks_state, rule tracks_result, drule (1) confirm_next_run,
      (rule tracks_bind, intro track_intros)+, rule tracks_checkpoint,
      rule tracks_bind, rule track_intros, rule tracks_bind, rule track_intros,
      rule tracks_with, rule tracks_persist, simp, rule track_intros)

lemma punish_next_run:
  assumes "punish_next height jailing st = Inr (Some lc)"
  shows "runs_in (punish_events jailing (vs_lifecycle st)) (vs_lifecycle st) lc"
proof -
  let ?D = "punish_events jailing (vs_lifecycle st)"
  from assms obtain s where a: "vs_lifecycle st = Active s"
    unfolding punish_next_def Let_def by (cases "vs_lifecycle st") (auto split: if_splits)
  from assms obtain mid h where mid: "(if jailing then andThen (jail s height) (\<lambda>j. Inr (JailRetained j))
      else andThen (begin_exit s (stake s) height) (\<lambda>e. Inr (Exiting e))) = (Inr mid :: (unit, ValidatorLifecycle) result)"
    and w: "with_history mid h = (Inr lc :: (unit, ValidatorLifecycle) result)"
    unfolding punish_next_def Let_def a by auto
  from mid have "runs_in ?D (Active s) mid"
    by (auto simp: a punish_events_def lc_bonded_stake_def split: if_splits intro: runs_in_step step_jail amount_steps)
  moreover have "runs_in ?D mid lc" by (rule runs_in_step [OF step_with_history [OF w]]) (simp add: punish_events_def)
  ultimately show ?thesis unfolding a by (rule runs_in_trans)
qed

lemma punish_tracks:
  assumes "punish_events jailing (L a) \<subseteq> E a"
  shows "tracks env E L (punish_validator env a jailing)"
  unfolding punish_validator_def
proof (rule tracks_state, rule tracks_result)
  fix n assume n: "punish_next (ve_block_number env) jailing \<lparr>vs_address = a, vs_lifecycle = L a\<rparr> = Inr n"
  show "tracks env E L (case n of None \<Rightarrow> retM False
     | Some lc \<Rightarrow>
         bindM (resultM (with_lifecycle \<lparr>vs_address = a, vs_lifecycle = L a\<rparr> lc)) (\<lambda>after.
         with_checkpoint (
           bindM (persist_validator_state_delta \<lparr>vs_address = a, vs_lifecycle = L a\<rparr> after) (\<lambda>_.
           bindM (set_pending True) (\<lambda>_.
           bindM (forEachM emit_vset
             (if jailing then [ValidatorJailed a (ve_block_number env)]
              else [ValidatorDeactivated a (ve_block_number env), ValidatorForcedExit a (ve_block_number env)])) (\<lambda>_.
           retM True))))))"
  proof (cases n)
    case None
    then show ?thesis by (simp add: tracks_neutral track_intros)
  next
    case (Some lc)
    from punish_next_run n Some have "runs_in (punish_events jailing (L a)) (L a) lc" by fastforce
    then have "runs_in (E a) (L a) lc" using assms by (rule runs_in_mono)
    then show ?thesis unfolding Some option.case
      by (intro tracks_with tracks_checkpoint tracks_persist track_intros)
  qed
qed

section \<open>Counters\<close>

lemma counters_view:
  assumes "registry_view env v L" "L a \<noteq> Absent"
    and "f \<in> {missed_blocks_update, missed_votes_update, blocks_proposed_update :: _ \<Rightarrow> ValidatorHistory \<Rightarrow> ValidatorHistory}"
  shows "\<exists>lc h. lc_history (L a) = Some h \<and> with_history (L a) (f (\<lambda>_. n) h) = (Inr lc :: (unit, ValidatorLifecycle) result)"
proof -
  have wf: "wf_lifecycle (L a)" by (rule view_wf [OF assms(1)])
  show ?thesis using assms(2,3) wf
    by (cases "L a") (auto simp: lc_history_def with_history_ok wf_defs)
qed

lemma with_history_encode:
  assumes "with_history lc h = (Inr lc' :: (unit, ValidatorLifecycle) result)" 
  shows "encode_lifecycle lc' = (encode_lifecycle lc)\<lparr>val_slash_count := slash_count h,
      val_missed_blocks := missed_blocks h, val_missed_votes := missed_votes h, val_blocks_proposed := blocks_proposed h,
      val_joined_at_height := joined_at_height h, val_deactivated_at_height := or_zero (last_deactivated_at_height h)\<rparr>"
    and "lc_registry_index lc' = lc_registry_index lc" "lc_consensus_pubkey lc' = lc_consensus_pubkey lc"
  using assms
  by (cases lc; auto simp: with_history_ok encode_lifecycle_def hist_or_zero_def deactivated_or_zero_def lc_history_def payload_views
      lc_bonded_stake_def lc_unbonding_end_hint_def p2p_stored_def)+

lemma encoded_counters:
  "lc_history lc = Some h \<Longrightarrow> val_slash_count (encode_lifecycle lc) = slash_count h \<and>
     val_missed_blocks (encode_lifecycle lc) = missed_blocks h \<and> val_missed_votes (encode_lifecycle lc) = missed_votes h \<and>
     val_blocks_proposed (encode_lifecycle lc) = blocks_proposed h \<and> val_joined_at_height (encode_lifecycle lc) = joined_at_height h \<and>
     val_deactivated_at_height (encode_lifecycle lc) = or_zero (last_deactivated_at_height h)"
  by (simp add: encode_lifecycle_def hist_or_zero_def deactivated_or_zero_def)

lemma counter_write:
  assumes "registry_view env v L" "L a \<noteq> Absent"
    and "(f, g) \<in> {(val_missed_blocks_update, missed_blocks_update), (val_missed_votes_update, missed_votes_update),
       (val_blocks_proposed_update, blocks_proposed_update :: _ \<Rightarrow> ValidatorHistory \<Rightarrow> ValidatorHistory)}"
  shows "\<exists>lc. registry_view env (update_slot a (f (\<lambda>_. n)) v) (L(a := lc)) \<and> lifecycle_step Account (L a) lc"
proof -
  from counters_view [OF assms(1,2), of g n] assms(3) obtain lc h where h: "lc_history (L a) = Some h"
    and w: "with_history (L a) (g (\<lambda>_. n) h) = (Inr lc :: (unit, ValidatorLifecycle) result)" by auto
  have "f (\<lambda>_. n) (slots v a) = encode_lifecycle lc"
    unfolding with_history_encode(1) [OF w] view_slots [OF assms(1)] using assms(3) encoded_counters [OF h]
    by (cases "encode_lifecycle (L a)") auto
  moreover have step: "lifecycle_step Account (L a) lc" by (rule step_with_history [OF w])
  ultimately show ?thesis
    using view_set [OF assms(1) lifecycle_step_wf [OF step view_wf [OF assms(1)]] with_history_encode(2,3) [OF w]]
    unfolding update_slot_def by auto
qed

lemma account_registered:
  assumes "lifecycle_step Account lc lc'"
  shows "lc \<noteq> Absent \<and> lc' \<noteq> Absent"
  using assms
proof (cases rule: lifecycle_step.cases)
  case (step_with_history h)
  then show ?thesis by (cases lc) (auto simp: with_history_ok)
qed

lemma tracks_counter:
  assumes "L a \<noteq> Absent"
    and "(f, g) \<in> {(val_missed_blocks_update, missed_blocks_update), (val_missed_votes_update, missed_votes_update),
       (val_blocks_proposed_update, blocks_proposed_update :: _ \<Rightarrow> ValidatorHistory \<Rightarrow> ValidatorHistory)}"
    and "\<And>M. M a \<noteq> Absent \<Longrightarrow> tracks env E M (k ())" and ev: "Account \<in> E a"
  shows "tracks env E L (bindM (write_slot a (f (\<lambda>_. n))) k)"
  unfolding tracks_def
proof (intro allI impI)
  fix s u t assume r: "bindM (write_slot a (f (\<lambda>_. n))) k s = (Inr u, t)" and v: "registry_view env (store s) L"
  from r obtain x s1 where "write_slot a (f (\<lambda>_. n)) s = (Inr x, s1)" and k: "k () s1 = (Inr u, t)"
    by (auto simp: bindM_ok)
  then have s1: "store s1 = update_slot a (f (\<lambda>_. n)) (store s)" by (auto simp: write_slot_def writeM_ok)
  from counter_write [OF v assms(1,2), of n] obtain lc where v1: "registry_view env (store s1) (L(a := lc))"
    and step: "lifecycle_step Account (L a) lc" unfolding s1 by blast
  have "(L(a := lc)) a \<noteq> Absent" using account_registered [OF step] by simp
  from assms(3) [of "L(a := lc)", OF this] v1 k obtain M where "registry_view env (store t) M" "evolves E (L(a := lc)) M"
    unfolding tracks_def by blast
  then show "\<exists>L'. registry_view env (store t) L' \<and> evolves E L L'"
    using evolves_set [of E a L lc, OF runs_in_step [OF step ev]] evolves_trans by blast
qed

lemma bindM_end: "bindM m retM = m"
  by (rule ext) (auto simp: bindM_def retM_def split: sum.splits prod.splits)

lemma tracks_counter_end:
  assumes "L a \<noteq> Absent"
    and "(f, g) \<in> {(val_missed_blocks_update, missed_blocks_update), (val_missed_votes_update, missed_votes_update),
       (val_blocks_proposed_update, blocks_proposed_update :: _ \<Rightarrow> ValidatorHistory \<Rightarrow> ValidatorHistory)}"
    and "Account \<in> E a"
  shows "tracks env E L (write_slot a (f (\<lambda>_. n)))"
  using tracks_counter [of L a f g env E retM n, OF assms(1,2) _ assms(3)] by (simp add: bindM_end tracks_neutral track_intros)

lemma lifecycle_view: "registry_view env v L \<Longrightarrow> validator_lifecycle env a v = Inr (L a)"
  by (simp add: validator_lifecycle_def validator_state_view)

lemma tracks_lifecycle:
  "tracks env E L (k (L a)) \<Longrightarrow> tracks env E L (bindM (readM (validator_lifecycle env a)) k)"
  unfolding tracks_def bindM_ok readM_ok by (auto simp: lifecycle_view)

lemma tracks_participant:
  "tracks env E L (k (is_current_consensus_participant (L a))) \<Longrightarrow> tracks env E L (bindM (readM (is_consensus_participant env a)) k)"
  unfolding tracks_def bindM_ok readM_ok is_consensus_participant_def by (auto simp: lifecycle_view)

lemma tracks_registered:
  "tracks env E L (k (L a \<noteq> Absent)) \<Longrightarrow> tracks env E L (bindM (readM (is_validator env a)) k)"
  unfolding tracks_def bindM_ok readM_ok is_validator_def by (auto simp: lifecycle_view)

lemma tracks_forEach: "(\<And>M x. x \<in> set xs \<Longrightarrow> tracks env E M (f x)) \<Longrightarrow> tracks env E L (forEachM f xs)"
proof (induction xs arbitrary: L)
  case Nil
  show ?case by (simp add: tracks_neutral track_intros)
next
  case (Cons x xs)
  then show ?case unfolding forEachM.simps by (intro tracks_seq) auto
qed

lemma participant_registered: "is_current_consensus_participant lc \<Longrightarrow> lc \<noteq> Absent"
  by (cases lc) simp_all

lemma count_missed_vote_tracks: "Account \<in> E a \<Longrightarrow> L a \<noteq> Absent \<Longrightarrow> tracks env E L (count_missed_vote a)"
  unfolding count_missed_vote_def by (intro tracks_bind track_intros tracks_counter_end [where g = missed_votes_update]) auto

lemma record_missed_block_tracks: "Account \<in> E a \<Longrightarrow> L a \<noteq> Absent \<Longrightarrow> tracks env E L (record_missed_block a)"
  unfolding record_missed_block_def by (intro tracks_bind track_intros tracks_counter_end [where g = missed_blocks_update]) auto

lemma record_proposer_tracks: "Account \<in> E a \<Longrightarrow> tracks env E L (record_proposer env a)"
  unfolding record_proposer_def
  by (rule tracks_participant, rule tracks_require, drule participant_registered)
     (intro tracks_bind track_intros tracks_counter_end [where g = blocks_proposed_update], auto)

lemma record_participation_tracks: "(\<And>a. a \<in> set absent \<Longrightarrow> Account \<in> E a) \<Longrightarrow> tracks env E L (record_participation env voters absent)"
  unfolding record_participation_def
  by (rule tracks_bind, intro track_intros, rule tracks_forEach, rule tracks_participant, rule tracks_require,
      drule participant_registered, rule count_missed_vote_tracks, simp_all)

lemma record_finalized_tracks: "(\<And>a. a \<in> set absent \<Longrightarrow> Account \<in> E a) \<Longrightarrow> tracks env E L (record_finalized_participation env voters absent)"
  unfolding record_finalized_participation_def
  by (rule tracks_bind, intro track_intros, rule tracks_forEach, rule tracks_registered, rule tracks_require,
      rule count_missed_vote_tracks, simp_all)

lemma reset_epoch_counters_tracks:
  assumes "\<And>a. Account \<in> E a"
  shows "tracks env E L (reset_epoch_counters env)"
  unfolding reset_epoch_counters_def
proof (rule tracks_bind, intro track_intros, rule tracks_forEach, rule tracks_lifecycle)
  fix M :: "address \<Rightarrow> ValidatorLifecycle" and a
  show "tracks env E M (if is_current_consensus_participant (M a) then
         bindM (write_slot a (val_missed_blocks_update (\<lambda>_. 0))) (\<lambda>_.
         bindM (write_slot a (val_missed_votes_update (\<lambda>_. 0))) (\<lambda>_.
         write_slot a (val_blocks_proposed_update (\<lambda>_. 0))))
       else retM ())"
  proof (cases "is_current_consensus_participant (M a)")
    case True
    then have "M a \<noteq> Absent" by (rule participant_registered)
    then show ?thesis using True
      by (simp, intro tracks_counter [where g = missed_blocks_update] tracks_counter [where g = missed_votes_update]
          tracks_counter_end [where g = blocks_proposed_update]) (auto intro: assms)
  qed (simp add: tracks_neutral track_intros)
qed

lemma advance_epoch_tracks: "tracks env E L (advance_epoch env ts h)"
  unfolding advance_epoch_def by (intro tracks_neutral track_intros)

lemma update_epoch_tracks: "(\<And>a. Account \<in> E a) \<Longrightarrow> tracks env E L (update_epoch env ts h)"
  unfolding update_epoch_def by (intro tracks_seq reset_epoch_counters_tracks advance_epoch_tracks)

section \<open>Registration\<close>

lemma view_cong:
  assumes "registry_view env v L" "slots w = slots v" "address_to_index w = address_to_index v"
    and "index_to_address w = index_to_address v" "validator_count w = validator_count v"
    and "consensus_pubkey_hash_to_address w = consensus_pubkey_hash_to_address v"
  shows "registry_view env w L"
  using assms by (simp add: registry_view_def)

lemma fresh_waiting_view:
  "lc_registry_index (WaitingForStake (fresh_waiting i pk h)) = Some i"
  "lc_consensus_pubkey (WaitingForStake (fresh_waiting i pk h)) = Some pk"
  by (simp_all add: payload_views fresh_waiting_def)

lemma wf_fresh_waiting: "pk \<noteq> 0 \<Longrightarrow> i \<noteq> 0 \<Longrightarrow> wf_lifecycle (WaitingForStake (fresh_waiting i pk h))"
  by (simp add: wf_defs fresh_waiting_def StakeProjection_zero_def ValidatorHistory_fresh_def)

lemma view_address_nonzero: "registry_view env v L \<Longrightarrow> L a \<noteq> Absent \<Longrightarrow> a \<noteq> 0"
  using view_absent [of env v L a] view_entry(1) [of env v L "address_to_index v a"]
  unfolding registry_view_def by metis

lemma view_add:
  assumes v: "registry_view env v L" and absent: "L a = Absent" and a: "a \<noteq> 0"
    and n: "checked_add (validator_count v) 1 = Some n"
    and owner: "consensus_pubkey_hash_to_address v (consensus_pubkey_hash env pk) \<in> {0, a}"
    and lc: "(ucast n :: u64) \<noteq> 0 \<Longrightarrow> wf_lifecycle lc" "lc_registry_index lc = Some (ucast n)" "lc_consensus_pubkey lc = Some pk"
  shows "registry_view env (v\<lparr>slots := (slots v)(a := encode_lifecycle lc),
     address_to_index := (address_to_index v)(a := ucast n), index_to_address := (index_to_address v)(ucast n := a),
     consensus_pubkey_hash_to_address := (consensus_pubkey_hash_to_address v)(consensus_pubkey_hash env pk := a),
     validator_count := n\<rparr>) (L(a := lc))"
proof -
  have un: "unat n = Suc (unat (validator_count v))" using n by (auto simp: unat_add_exact)
  have uc: "unat (ucast n :: u64) = unat n" by (simp add: unat_ucast_up)
  have n0: "(ucast n :: u64) \<noteq> 0" using un uc by (metis nat.distinct(1) unat_0)
  have old: "i \<noteq> ucast n \<and> i \<le> ucast n" if "i \<le> ucast (validator_count v)" for i :: u64
    using that un uc by (auto simp: ucast_u32_le)
  have new: "i \<le> ucast n \<longleftrightarrow> i = ucast n \<or> i \<le> ucast (validator_count v)" for i :: u64
    using un uc by (auto simp: ucast_u32_le le_Suc_eq word_unat_eq_iff)
  have reg: "address_to_index v b \<le> ucast (validator_count v)" "index_to_address v (address_to_index v b) = b" if "L b \<noteq> Absent" for b
    using v that unfolding registry_view_def by blast+
  have ent: "index_to_address v i \<noteq> 0" "address_to_index v (index_to_address v i) = i" "index_to_address v i \<noteq> a"
    if "i \<noteq> 0" "i \<le> ucast (validator_count v)" for i
    using view_entry [OF v that] absent view_absent [OF v, of a] that(1) by auto
  have key: "consensus_pubkey_hash_to_address v (consensus_pubkey_hash env q) = b \<and> consensus_pubkey_hash env q \<noteq> consensus_pubkey_hash env pk"
    if "lc_consensus_pubkey (L b) = Some q" "b \<noteq> a" for b q
  proof -
    have "L b \<noteq> Absent" using that(1) pubkey_None [of "L b"] by auto
    then have "b \<noteq> 0" by (rule view_address_nonzero [OF v])
    moreover have "consensus_pubkey_hash_to_address v (consensus_pubkey_hash env q) = b"
      using v that(1) unfolding registry_view_def by blast
    ultimately show ?thesis using owner that(2) by auto
  qed
  show ?thesis
    using view_wf [OF v] view_slots [OF v] view_index [OF v] lc(1) [OF n0] reg ent key old n0 a
    unfolding registry_view_def by (auto simp: lc(2,3) new word_gt_0) (metis, metis)
qed

lemma view_reregister:
  assumes v: "registry_view env v L" and inactive: "L a = Inactive s" and pk: "pk \<noteq> 0"
    and owner: "consensus_pubkey_hash_to_address v (consensus_pubkey_hash env pk) \<in> {0, a}"
    and lc_def: "lc = WaitingForStake (fresh_waiting (registry_index s) pk h)"
  shows "registry_view env (v\<lparr>slots := (slots v)(a := encode_lifecycle lc),
     consensus_pubkey_hash_to_address := (consensus_pubkey_hash_to_address v)
       (consensus_pubkey_hash env (consensus_pubkey s) := 0, consensus_pubkey_hash env pk := a)\<rparr>) (L(a := lc))"
proof -
  have i: "registry_index s = address_to_index v a" "address_to_index v a \<noteq> 0"
    using view_index [OF v, of a] inactive view_wf [OF v, of a] by (auto simp: wf_defs)
  have own: "consensus_pubkey_hash_to_address v (consensus_pubkey_hash env (consensus_pubkey s)) = a"
    using v inactive unfolding registry_view_def by (auto simp: lc_consensus_pubkey_def)
  have key: "consensus_pubkey_hash_to_address v (consensus_pubkey_hash env q) = b \<and>
      consensus_pubkey_hash env q \<noteq> consensus_pubkey_hash env pk \<and>
      consensus_pubkey_hash env q \<noteq> consensus_pubkey_hash env (consensus_pubkey s)"
    if "lc_consensus_pubkey (L b) = Some q" "b \<noteq> a" for b q
  proof -
    have "L b \<noteq> Absent" using that(1) pubkey_None [of "L b"] by auto
    then have "b \<noteq> 0" by (rule view_address_nonzero [OF v])
    moreover have "consensus_pubkey_hash_to_address v (consensus_pubkey_hash env q) = b"
      using v that(1) unfolding registry_view_def by blast
    ultimately show ?thesis using owner own that(2) by auto
  qed
  have reg: "address_to_index v b \<le> ucast (validator_count v)" "index_to_address v (address_to_index v b) = b" if "L b \<noteq> Absent" for b
    using v that unfolding registry_view_def by blast+
  show ?thesis
    using view_wf [OF v] view_slots [OF v] view_index [OF v] wf_fresh_waiting [OF pk i(2)] reg view_entry [OF v] key i
      reg [of a] inactive
    unfolding registry_view_def lc_def by (auto simp: fresh_waiting_view word_gt_0)
qed

named_theorems lead_intros "stepping through a program from a known storage"

lemma leads_gets [lead_intros]: "leads v (k (f v)) Q \<Longrightarrow> leads v (bindM (getsM f) k) Q"
  unfolding leads_def bindM_ok getsM_ok by blast

lemma leads_require [lead_intros]: "(b \<Longrightarrow> leads v (k ()) Q) \<Longrightarrow> leads v (bindM (requireM b e) k) Q"
  unfolding leads_def bindM_ok requireM_ok by auto

lemma leads_unwrap [lead_intros]: "(\<And>x. y = Some x \<Longrightarrow> leads v (k x) Q) \<Longrightarrow> leads v (bindM (unwrapM y e) k) Q"
  unfolding leads_def bindM_ok unwrapM_ok by blast

lemma leads_read [lead_intros]: "(\<And>x. f v = Inr x \<Longrightarrow> leads v (k x) Q) \<Longrightarrow> leads v (bindM (readM f) k) Q"
  unfolding leads_def bindM_ok readM_ok by blast

lemma leads_result [lead_intros]: "(\<And>x. r = Inr x \<Longrightarrow> leads v (k x) Q) \<Longrightarrow> leads v (bindM (resultM r) k) Q"
  unfolding leads_def bindM_ok resultM_ok by blast

lemma leads_write [lead_intros]: "leads (f v) (k ()) Q \<Longrightarrow> leads v (bindM (writeM f) k) Q"
  unfolding leads_def bindM_ok writeM_ok by auto

lemma leads_last [lead_intros]: "Q (f v) \<Longrightarrow> leads v (writeM f) Q"
  by (auto simp: leads_def writeM_ok)

lemma leads_checkpoint [lead_intros]: "leads v m Q \<Longrightarrow> leads v (with_checkpoint m) Q"
  by (simp add: leads_def with_checkpoint_ok)

lemma leads_pure: "pure_prog m \<Longrightarrow> (\<And>x. leads v (k x) Q) \<Longrightarrow> leads v (bindM m k) Q"
  unfolding leads_def bindM_ok by (metis pure_store)

lemma leads_persist_registry:
  assumes "slots v (vs_address after) = encode_lifecycle (vs_lifecycle before)"
    and "leads (v\<lparr>slots := (slots v)(vs_address after := encode_lifecycle (vs_lifecycle after))\<rparr>) (k ()) Q"
  shows "leads v (bindM (persist_registry_state_delta before after) k) Q"
  using assms persist_registry_ok unfolding leads_def bindM_ok by fastforce

lemma leads_tracks:
  assumes "\<And>v. registry_view env v L \<Longrightarrow> leads v m (\<lambda>v'. \<exists>L'. registry_view env v' L' \<and> evolves E L L')"
  shows "tracks env E L m"
  using assms unfolding tracks_def leads_def by blast

lemma register_first_leads:
  assumes v: "registry_view env v L" and absent: "L a = Absent" and a: "a \<noteq> 0" and pk: "pk \<noteq> 0"
    and owner: "consensus_pubkey_hash_to_address v (consensus_pubkey_hash env pk) \<in> {0, a}"
  shows "leads v (register_first env a pk node_id ro \<lparr>vs_address = a, vs_lifecycle = Absent\<rparr>)
     (\<lambda>v'. \<exists>n. checked_add (validator_count v) 1 = Some n \<and> (ucast n :: u64) \<noteq> 0 \<and>
        registry_view env v' (L(a := WaitingForStake (fresh_waiting (ucast n) pk (ve_block_number env)))))"
  unfolding register_first_def set_pending_def emit_vset_def
  apply (intro lead_intros leads_persist_registry)
   apply (simp add: register_ok view_slots [OF v] absent)
  apply (simp add: register_ok del: checked_add_Some)
  apply (rule view_cong [OF view_add [OF v absent a _ owner wf_fresh_waiting [OF pk] fresh_waiting_view]])
  apply simp_all
  done

lemma reregister_leads:
  assumes v: "registry_view env v L" and inactive: "L a = Inactive s" and pk: "pk \<noteq> 0"
    and owner: "consensus_pubkey_hash_to_address v (consensus_pubkey_hash env pk) \<in> {0, a}"
  shows "leads v (reregister_inactive env a pk node_id ro \<lparr>vs_address = a, vs_lifecycle = L a\<rparr> index)
     (\<lambda>v'. registry_view env v' (L(a := WaitingForStake (fresh_waiting (registry_index s) pk (ve_block_number env)))))"
  unfolding reregister_inactive_def set_pending_def emit_vset_def inactive ValidatorState.simps ValidatorLifecycle.case bindM_retM
  apply (intro lead_intros)
  apply (rule leads_pure, intro pure_intros, auto intro!: pure_intros split: option.split)[1]
  apply (intro lead_intros leads_persist_registry)
   apply (simp add: transition_ok with_lifecycle_ok view_slots [OF v] inactive)
  apply (simp add: transition_ok with_lifecycle_ok lc_consensus_pubkey_def)
  apply (rule view_cong [OF view_reregister [OF v inactive pk owner refl]])
  apply simp_all
  done

lemma leads_mono: "leads v m Q \<Longrightarrow> (\<And>w. Q w \<Longrightarrow> R w) \<Longrightarrow> leads v m R"
  unfolding leads_def by blast

lemma register_step:
  assumes "n \<noteq> 0" "pk \<noteq> 0"
  shows "lifecycle_step Register Absent (WaitingForStake (fresh_waiting n pk h))"
  using step_register [of "\<lparr>vs_address = 0, vs_lifecycle = Absent\<rparr>" n pk h
    "\<lparr>vs_address = 0, vs_lifecycle = WaitingForStake (fresh_waiting n pk h)\<rparr>"] assms
  by (simp add: register_ok)

lemma reregister_step: "pk \<noteq> 0 \<Longrightarrow> lifecycle_step Reregister (Inactive s) (WaitingForStake (fresh_waiting (registry_index s) pk h))"
  using step_reregister [of s pk h "fresh_waiting (registry_index s) pk h"] by (simp add: transition_ok)

lemma register_first_evolved:
  assumes v: "registry_view env v L" and absent: "L a = Absent" and a: "a \<noteq> 0" and pk: "pk \<noteq> 0"
    and owner: "consensus_pubkey_hash_to_address v (consensus_pubkey_hash env pk) \<in> {0, a}"
    and ev: "Register \<in> E a"
  shows "leads v (register_first env a pk node_id ro \<lparr>vs_address = a, vs_lifecycle = Absent\<rparr>) (evolved env E L)"
proof (rule leads_mono [OF register_first_leads [OF v absent a pk owner]])
  fix w assume "\<exists>n. checked_add (validator_count v) 1 = Some n \<and> (ucast n :: u64) \<noteq> 0 \<and>
     registry_view env w (L(a := WaitingForStake (fresh_waiting (ucast n) pk (ve_block_number env))))"
  then obtain n :: u32 where n: "(ucast n :: u64) \<noteq> 0"
    and w: "registry_view env w (L(a := WaitingForStake (fresh_waiting (ucast n) pk (ve_block_number env))))" by blast
  have "runs_in (E a) (L a) (WaitingForStake (fresh_waiting (ucast n) pk (ve_block_number env)))"
    using runs_in_step [OF register_step [OF n pk] ev] absent by simp
  from evolves_set [of E a L, OF this] w show "evolved env E L w" unfolding evolved_def by blast
qed

lemma reregister_evolved:
  assumes v: "registry_view env v L" and some: "L a \<noteq> Absent" and pk: "pk \<noteq> 0"
    and owner: "consensus_pubkey_hash_to_address v (consensus_pubkey_hash env pk) \<in> {0, a}"
    and ev: "Reregister \<in> E a"
  shows "leads v (reregister_inactive env a pk node_id ro \<lparr>vs_address = a, vs_lifecycle = L a\<rparr> index) (evolved env E L)"
proof (cases "\<exists>s. L a = Inactive s")
  case True
  then obtain s where s: "L a = Inactive s" ..
  let ?lc = "WaitingForStake (fresh_waiting (registry_index s) pk (ve_block_number env))"
  have "runs_in (E a) (L a) ?lc" using runs_in_step [OF reregister_step [OF pk] ev] s by simp
  from evolves_set [of E a L, OF this] show ?thesis
    by (intro leads_mono [OF reregister_leads [OF v s pk owner]]) (auto simp: evolved_def)
next
  case False
  then show ?thesis using some
    by (cases "L a") (simp_all add: leads_def reregister_inactive_def bindM_failM failM_ok)
qed

lemma register_first_guard: "leads v (register_first env a pk node_id a existing) Q"
  unfolding register_first_def by (intro lead_intros) simp

lemma register_evolved:
  assumes v: "registry_view env v L" and ev: "Register \<in> E a" "Reregister \<in> E a"
  shows "leads v (register_validator_inner env caller a pk node_id sig allow) (evolved env E L)"
proof -
  have final: "leads v (case lc_registry_index (vs_lifecycle x) of
       Some index \<Rightarrow> reregister_inactive env a pk node_id ro x index
     | None \<Rightarrow> register_first env a pk node_id ro x) (evolved env E L)"
    if pk: "pk \<noteq> 0" and ro: "ro = 0 \<or> ro = a"
      and owner: "consensus_pubkey_hash_to_address v (consensus_pubkey_hash env pk) = 0 \<or>
        consensus_pubkey_hash_to_address v (consensus_pubkey_hash env pk) = a"
      and x: "validator_state env a v = Inr x" for ro x
  proof -
    have ow: "consensus_pubkey_hash_to_address v (consensus_pubkey_hash env pk) \<in> {0, a}" using owner by blast
    have xe: "x = \<lparr>vs_address = a, vs_lifecycle = L a\<rparr>" using x by (simp add: validator_state_view [OF v])
    show ?thesis
    proof (cases "lc_registry_index (L a)")
      case None
      then have ab: "L a = Absent" by (simp add: index_None)
      show ?thesis
      proof (cases "a = 0")
        case True
        then have "ro = a" using ro by simp
        then show ?thesis using register_first_guard [of v env a pk node_id x "evolved env E L"]
          by (simp add: xe ab payload_views)
      next
        case False
        show ?thesis using register_first_evolved [of env v L a pk E, OF v ab False pk ow ev(1)] by (simp add: xe ab payload_views)
      qed
    next
      case (Some index)
      then have "L a \<noteq> Absent" using index_None [of "L a"] by auto
      from reregister_evolved [of env v L a pk E, OF v this pk ow ev(2)] show ?thesis by (simp add: xe Some)
    qed
  qed
  show ?thesis
    unfolding register_validator_inner_def ensure_not_operational_delegate_def
    apply (intro lead_intros)
    apply (rule leads_pure, intro pure_intros)
    apply (intro lead_intros)
    apply (rule leads_pure, intro pure_intros)
    apply (rule leads_pure, intro pure_intros)
    apply (intro lead_intros)
    apply (rule final)
       apply assumption+
    done
qed

lemma tracks_register_validator:
  "Register \<in> E a \<Longrightarrow> Reregister \<in> E a \<Longrightarrow> tracks env E L (register_validator_inner env caller a pk node_id sig allow)"
  using register_evolved unfolding evolved_def by (intro leads_tracks)

lemma tracks_persist_end:
  assumes "runs_in (E a) (L a) lc"
  shows "tracks env E L (persist_validator_state_delta \<lparr>vs_address = a, vs_lifecycle = L a\<rparr> \<lparr>vs_address = a, vs_lifecycle = lc\<rparr>)"
  using tracks_persist [of E a L lc env retM, OF assms] by (simp add: bindM_end track_intros)

lemma map_err_ok: "map_err e r = Inr x \<longleftrightarrow> r = Inr x"
  by (cases r) (simp_all add: map_err_def)

lemma decode_versioned_valid: "decode_versioned version payload = Inr d \<Longrightarrow> valid_p2p d"
  by (auto simp: decode_versioned_def decode_v1_iff split: if_splits)

lemma publish_run:
  assumes "map_err e (decode_versioned version payload) = Inr d" "with_p2p lc (V1 d) = (Inr lc' :: (unit, ValidatorLifecycle) result)"
    and "PublishP2p \<in> D"
  shows "runs_in D lc lc'"
  using assms(1,3) runs_in_step [OF step_with_p2p [OF assms(2)]] by (simp add: map_err_ok decode_versioned_valid)

lemma set_p2p_tracks: "PublishP2p \<in> E a \<Longrightarrow> tracks env E L (set_p2p_address env caller a version encoded)"
  unfolding set_p2p_address_def
  by (rule tracks_bind, rule track_intros, rule tracks_bind, rule track_intros, rule tracks_bind, rule track_intros,
      rule tracks_bind, rule track_intros, rule tracks_bind, rule track_intros, rule tracks_bind, rule track_intros,
      rule tracks_result, rule tracks_state, rule tracks_result, rule tracks_with, rule tracks_checkpoint,
      rule tracks_persist_end, simp, rule publish_run, simp_all)

section \<open>Operations that leave every lifecycle alone\<close>

lemma ensure_registered_neutral [track_intros]: "neutral env (ensure_registered_validator env a)"
  unfolding ensure_registered_validator_def by (intro track_intros)

lemma set_delegate_neutral: "neutral env (set_delegate env validator role delegate)"
  unfolding set_delegate_def by (intro track_intros)

lemma revoke_delegate_neutral: "neutral env (revoke_delegate env validator role)"
  unfolding revoke_delegate_def by (intro track_intros)

lemma record_ocomp_miss_neutral: "neutral env (record_ocomp_miss env a)"
  unfolding record_ocomp_miss_def by (intro track_intros)

lemma close_ocomp_neutral [track_intros]: "neutral env (close_ocomp_recovery_window a)"
  unfolding close_ocomp_recovery_window_def by (intro track_intros)

lemma resolve_ocomp_neutral: "neutral env (resolve_ocomp_recovery_window a deadline amount outcome)"
  unfolding resolve_ocomp_recovery_window_def by (intro track_intros)

lemma set_max_neutral: "neutral env (set_config_max_validators n)"
  unfolding set_config_max_validators_def by (intro track_intros)

end
