(* ===== verification/Validator_Contract.thy ===== *)
theory Validator_Contract
  imports Validator_Operations
begin

text \<open>
  The validator set as a contract: the calls of \<open>precompile.rs\<close>, the operations the staking contract, the
  slashing code and the block executor perform on it, and what holds in every storage these lead to.

  A message is a call of the precompile or an operation of the system. Each runs in a frame of its own, an
  EVM call frame or the execution of a block, and a frame that fails leaves no trace in the storage; this
  is the outer \<open>with_checkpoint\<close> of \<open>vset_message\<close>.
\<close>

section \<open>The call table\<close>

datatype ValidatorSetCall =
    getValidators
  | getActiveValidators
  | getActiveConsensusSet
  | validatorByAddress address
  | validatorByIndex u64
  | validatorCount
  | activeValidatorCount
  | activeConsensusCount
  | isValidator address
  | isConsensusParticipant address
  | hasPendingSetChange
  | getEpochNumber
  | getEpochStartTimestamp
  | getEpochStartBlock
  | setDelegate u8 address
  | revokeDelegate u8
  | getDelegate address u8
  | resolveValidator u8 address
  | registerValidator address bytes b256 bytes
  | getRadicleNodeId address
  | validatorByRadicleNodeId b256
  | setP2pAddress address u8 bytes
  | getP2pAddress address
  | deactivateValidator address
  | confirmValidatorReady bytes

datatype ValidatorSetReturn =
    VNone
  | VAddress address
  | VAddresses "address list"
  | VRecord ValidatorRecord
  | VU32 u32
  | VU64 u64
  | VU256 u256
  | VB256 b256
  | VBool bool
  | VP2p u8 bytes

definition reply :: "('a \<Rightarrow> ValidatorSetReturn) \<Rightarrow> (ValidatorSet \<Rightarrow> (unit, 'a) result) \<Rightarrow> ValidatorSetReturn vset_prog" where
  "reply f view = bindM (readM view) (\<lambda>x. retM (f x))"

definition done_with :: "unit vset_prog \<Rightarrow> ValidatorSetReturn vset_prog" where
  "done_with m = bindM m (\<lambda>_. retM VNone)"

definition require_record :: "string \<Rightarrow> ValidatorRecord option \<Rightarrow> (unit, ValidatorRecord) result" where
  "require_record msg r = ok_or r (Revert (Text msg))"

definition register_call ::
    "vset_env \<Rightarrow> address \<Rightarrow> address \<Rightarrow> bytes \<Rightarrow> b256 \<Rightarrow> bytes \<Rightarrow> unit vset_prog" where
  "register_call env caller a pubkey node_id signature =
     bindM (requireM (length pubkey = 48) (Revert (Text ''consensus pubkey must be 48 bytes''))) (\<lambda>_.
     bindM (requireM (length signature = 96) (Revert (Text ''BLS proof of possession must be exactly 96 bytes''))) (\<lambda>_.
     register_validator_with_sig env caller a (word_of_int (be_int pubkey)) node_id (Some signature)))"

fun vset_call :: "vset_env \<Rightarrow> address \<Rightarrow> ValidatorSetCall \<Rightarrow> ValidatorSetReturn vset_prog" where
  "vset_call env caller getValidators =
     reply (\<lambda>rs. VAddresses (map vr_validator_address rs)) (get_all_validators env)"
| "vset_call env caller getActiveValidators =
     reply (\<lambda>rs. VAddresses (map vr_validator_address rs)) (get_active_validators env)"
| "vset_call env caller getActiveConsensusSet =
     reply (\<lambda>rs. VAddresses (map vr_validator_address rs)) (get_active_consensus_set env)"
| "vset_call env caller (validatorByAddress a) =
     reply VRecord (\<lambda>v. andThen (get_validator env a v) (require_record ''validator not found''))"
| "vset_call env caller (validatorByIndex index) =
     reply VRecord (\<lambda>v.
       andThen (validator_address_at index v) (\<lambda>a.
       andThen (ok_or a (Revert (Text ''validator not found at index''))) (\<lambda>a.
       andThen (get_validator env a v) (require_record ''validator not found''))))"
| "vset_call env caller validatorCount = reply VU32 (\<lambda>v. Inr (validator_count v))"
| "vset_call env caller activeValidatorCount = reply VU32 (active_validator_count env)"
| "vset_call env caller activeConsensusCount = reply VU32 (active_consensus_count env)"
| "vset_call env caller (isValidator a) = reply VBool (is_validator env a)"
| "vset_call env caller (isConsensusParticipant a) = reply VBool (is_consensus_participant env a)"
| "vset_call env caller hasPendingSetChange = reply VBool (\<lambda>v. Inr (pending_set_change v))"
| "vset_call env caller getEpochNumber = reply VU256 (\<lambda>v. Inr (epoch_number v))"
| "vset_call env caller getEpochStartTimestamp = reply VU64 (\<lambda>v. Inr (epoch_start_timestamp v))"
| "vset_call env caller getEpochStartBlock = reply VU64 (\<lambda>v. Inr (epoch_start_block v))"
| "vset_call env caller (setDelegate role delegate) =
     done_with (bindM (resultM (ValidatorDelegateRole_try_from role)) (\<lambda>r. set_delegate env caller r delegate))"
| "vset_call env caller (revokeDelegate role) =
     done_with (bindM (resultM (ValidatorDelegateRole_try_from role)) (\<lambda>r. revoke_delegate env caller r))"
| "vset_call env caller (getDelegate validator role) =
     reply VAddress (\<lambda>v. andThen (ValidatorDelegateRole_try_from role) (\<lambda>r. Inr (get_delegate validator r v)))"
| "vset_call env caller (resolveValidator role signer) =
     reply VAddress (\<lambda>v.
       andThen (ValidatorDelegateRole_try_from role) (\<lambda>r.
       andThen (resolve_validator_for_role env signer r v) (\<lambda>a.
       Inr (case a of None \<Rightarrow> 0 | Some x \<Rightarrow> x))))"
| "vset_call env caller (registerValidator a pubkey node_id signature) =
     done_with (register_call env caller a pubkey node_id signature)"
| "vset_call env caller (getRadicleNodeId a) = reply VB256 (\<lambda>v. Inr (val_radicle_node_id v a))"
| "vset_call env caller (validatorByRadicleNodeId n) = reply VAddress (\<lambda>v. Inr (radicle_node_id_to_validator v n))"
| "vset_call env caller (setP2pAddress a version encoded) = done_with (set_p2p_address env caller a version encoded)"
| "vset_call env caller (getP2pAddress a) =
     reply (\<lambda>p. case p of None \<Rightarrow> VP2p 0 [] | Some (version, encoded) \<Rightarrow> VP2p version encoded) (get_p2p_address env a)"
| "vset_call env caller (deactivateValidator a) = done_with (deactivate_validator env caller a)"
| "vset_call env caller (confirmValidatorReady registration) =
     done_with (confirm_validator_ready env caller registration)"

definition vset_dispatch :: "vset_env \<Rightarrow> address \<Rightarrow> u256 \<Rightarrow> ValidatorSetCall \<Rightarrow> ValidatorSetReturn vset_prog" where
  "vset_dispatch env caller value call =
     bindM (requireM (value = 0) (Revert (Text ''non-payable function called with value''))) (\<lambda>_.
     vset_call env caller call)"

text \<open>What the other modules do to the validator set: the stake mirror (\<open>staking\<close>), punishments
  (\<open>slashindicator\<close>), OCOMP recovery windows, and the executor around a block.\<close>

datatype system_operation =
    SetMaxValidators u32
  | StakeIncreased address u256 u256
  | Unstaked address u256 u256 u64
  | StakeSlashed address u256 u256 "u64 option"
  | UnbondingCompleted address
  | OcompMissed address
  | OcompSlashed address u256
  | WindowClosed address
  | WindowResolved address u64 u256 u8
  | FoundersImported "ocomp_registration list"
  | ExitForced address
  | Jailed address
  | TeeExpired address
  | Unjailed address
  | BoundaryActivated "address list" b256 u64 "address list"
  | ProposerRecorded address
  | ParticipationRecorded "address list" "address list"
  | FinalizedRecorded b256 "address list" "address list"
  | CountersReset
  | EpochAdvanced u64 u64
  | EpochUpdated u64 u64
  | InactiveCleaned u32

definition ignoring :: "'a vset_prog \<Rightarrow> unit vset_prog" where
  "ignoring m = bindM m (\<lambda>_. retM ())"

fun system_step :: "vset_env \<Rightarrow> system_operation \<Rightarrow> unit vset_prog" where
  "system_step env (SetMaxValidators n) = set_config_max_validators n"
| "system_step env (StakeIncreased a amount minimum) = record_stake_increase env a amount minimum"
| "system_step env (Unstaked a amount minimum hint) = record_unstake env a amount minimum hint"
| "system_step env (StakeSlashed a amount minimum hint) = record_stake_slash env a amount minimum hint"
| "system_step env (UnbondingCompleted a) = complete_unbonding_of env a"
| "system_step env (OcompMissed a) = ignoring (record_ocomp_miss env a)"
| "system_step env (OcompSlashed a amount) = record_ocomp_bonded_slash env a amount"
| "system_step env (WindowClosed a) = close_ocomp_recovery_window a"
| "system_step env (WindowResolved a deadline amount outcome) = resolve_ocomp_recovery_window a deadline amount outcome"
| "system_step env (FoundersImported rs) = initialize_founder_ocomp_registrations env rs"
| "system_step env (ExitForced a) = force_exit_validator env a"
| "system_step env (Jailed a) = jail_validator env a"
| "system_step env (TeeExpired a) = ignoring (jail_validator_for_tee_expiry env a)"
| "system_step env (Unjailed a) = unjail_after_stake_check env a"
| "system_step env (BoundaryActivated new_set set_hash freeze exclusions) =
     activate_boundary_set env new_set set_hash freeze exclusions"
| "system_step env (ProposerRecorded a) = hook_record_proposer env a"
| "system_step env (ParticipationRecorded voters absent) = hook_record_participation env voters absent"
| "system_step env (FinalizedRecorded fb voters absent) = hook_record_finalized_participation env fb voters absent"
| "system_step env CountersReset = reset_epoch_counters env"
| "system_step env (EpochAdvanced ts h) = advance_epoch env ts h"
| "system_step env (EpochUpdated ts h) = update_epoch env ts h"
| "system_step env (InactiveCleaned n) = ignoring (cleanup_inactive_validators env n)"

datatype vset_message = Call vset_env address u256 ValidatorSetCall | System vset_env system_operation

fun vset_run :: "vset_message \<Rightarrow> ValidatorSetReturn vset_prog" where
  "vset_run (Call env caller value call) = with_checkpoint (vset_dispatch env caller value call)"
| "vset_run (System env op) = with_checkpoint (done_with (system_step env op))"

text \<open>The storage of a chain without validators.\<close>

definition vset_genesis :: "address \<Rightarrow> u32 \<Rightarrow> ValidatorSet" where
  "vset_genesis owner max_validators =
     \<lparr>config_owner = owner, config_max_validators = max_validators, config_epoch_length_blocks = 0,
      slots = (\<lambda>_. encode_lifecycle Absent), address_to_index = (\<lambda>_. 0), index_to_address = (\<lambda>_. 0),
      consensus_pubkey_hash_to_address = (\<lambda>_. 0), validator_count = 0, epoch_number = 0, epoch_start_timestamp = 0,
      epoch_start_block = 0, pending_set_change = False, active_consensus_set_hash = 0,
      config_reregistration_cooldown = 0, config_unjail_cooldown_blocks = 0,
      delegate_by_validator_role = (\<lambda>_ _. 0), validator_by_role_delegate = (\<lambda>_ _. 0),
      val_ocomp_registration = (\<lambda>_. []), ocomp_key_hash_to_validator = (\<lambda>_. 0), val_radicle_node_id = (\<lambda>_. 0),
      radicle_node_id_to_validator = (\<lambda>_. 0), val_ocomp_miss_count = (\<lambda>_. 0), val_ocomp_recovery_deadline = (\<lambda>_. 0),
      finalized_participation_recorded = (\<lambda>_. False), finalized_participation_ring = (\<lambda>_. 0),
      finalized_participation_ring_seq = 0, vset_logs = []\<rparr>"

text \<open>The lifecycle of \<open>a\<close> after a boundary, given the storage before it.\<close>

definition boundary_after ::
    "vset_env \<Rightarrow> address list \<Rightarrow> u64 \<Rightarrow> address list \<Rightarrow> ValidatorSet \<Rightarrow> (address \<Rightarrow> ValidatorLifecycle) \<Rightarrow> address \<Rightarrow> ValidatorLifecycle" where
  "boundary_after env new_set freeze exclusions v L a =
     (case boundary_next new_set freeze exclusions (andThen (read_ocomp_registration env a v) (\<lambda>r. Inr (r \<noteq> None)))
        \<lparr>vs_address = a, vs_lifecycle = L a\<rparr> of Inl _ \<Rightarrow> Absent | Inr lc \<Rightarrow> lc)"

text \<open>While the loop runs, the stored count is still the one of the beginning.\<close>

abbreviation recounted :: "u32 \<Rightarrow> ValidatorSet \<Rightarrow> ValidatorSet" where
  "recounted n v \<equiv> v\<lparr>validator_count := n\<rparr>"

text \<open>The storage after one removal: the last entry moved to the place of \<open>a\<close>, and the slots of \<open>a\<close> empty.\<close>

definition removed_entry :: "vset_env \<Rightarrow> address \<Rightarrow> u64 \<Rightarrow> u32 \<Rightarrow> ConsensusPubkey \<Rightarrow> ValidatorSet \<Rightarrow> ValidatorSet" where
  "removed_entry env a i n pk v = v\<lparr>slots := (slots v)(a := encode_lifecycle Absent),
     consensus_pubkey_hash_to_address := (consensus_pubkey_hash_to_address v)(consensus_pubkey_hash env pk := 0),
     index_to_address := (index_to_address v)(i := index_to_address v (ucast n), ucast n := 0),
     address_to_index := (address_to_index v)(index_to_address v (ucast n) := i, a := 0)\<rparr>"

text \<open>The parts of the storage that the registry view and the loop read.\<close>

definition cleared :: "vset_env \<Rightarrow> address \<Rightarrow> ValidatorSet \<Rightarrow> ValidatorSet \<Rightarrow> bool" where
  "cleared env a v w \<longleftrightarrow> slots w = (slots v)(a := encode_lifecycle Absent) \<and>
     consensus_pubkey_hash_to_address w = (consensus_pubkey_hash_to_address v)
       (consensus_pubkey_hash env (read_consensus_pubkey (slots v a)) := 0) \<and>
     address_to_index w = address_to_index v \<and> index_to_address w = index_to_address v \<and>
     validator_count w = validator_count v \<and> config_reregistration_cooldown w = config_reregistration_cooldown v \<and>
     val_ocomp_recovery_deadline w = (val_ocomp_recovery_deadline v)(a := 0)"

text \<open>A validator is due for removal: inactive, past its cooldown, and with no recovery window open.\<close>

definition due :: "vset_env \<Rightarrow> ValidatorSet \<Rightarrow> ValidatorLifecycle \<Rightarrow> address \<Rightarrow> bool" where
  "due env v lc a \<longleftrightarrow> val_ocomp_recovery_deadline v a = 0 \<and>
     (case lc of
        Inactive p \<Rightarrow>
          (case last_deactivated_at_height (history p) of
             None \<Rightarrow> False
           | Some h \<Rightarrow> unat h + unat (config_reregistration_cooldown v) \<le> unat (ve_block_number env))
      | _ \<Rightarrow> False)"

text \<open>What a cleanup may do: validators that are due leave, the others stay as they are, some with another
  index.\<close>

definition thinned :: "vset_env \<Rightarrow> ValidatorSet \<Rightarrow> (address \<Rightarrow> ValidatorLifecycle) \<Rightarrow> (address \<Rightarrow> ValidatorLifecycle) \<Rightarrow> bool" where
  "thinned env v L L' \<longleftrightarrow> (\<forall>a. L' a = Absent \<and> due env v (L a) a \<or> L' a = L a \<or> (\<exists>i. L' a = reindex i (L a)))"

definition cleanup_inv ::
    "vset_env \<Rightarrow> ValidatorSet \<Rightarrow> (address \<Rightarrow> ValidatorLifecycle) \<Rightarrow> ValidatorSet \<Rightarrow> u32 \<Rightarrow> u64 \<Rightarrow> u32 \<Rightarrow>
     lifecycles \<Rightarrow> bool" where
  "cleanup_inv env v0 L0 v n i r L \<longleftrightarrow> registry_view env (recounted n v) L \<and> n \<le> validator_count v \<and>
     evolves (\<lambda>_. {Reindex, Cleanup}) L0 L \<and> thinned env v0 L0 L \<and> unat n + unat r = unat (validator_count v0) \<and> i \<noteq> 0 \<and>
     config_reregistration_cooldown v = config_reregistration_cooldown v0 \<and>
     (\<forall>a. L a \<noteq> Absent \<longrightarrow> val_ocomp_recovery_deadline v a = val_ocomp_recovery_deadline v0 a) \<and>
     (\<forall>j. 0 < j \<and> j < i \<and> j \<le> ucast n \<longrightarrow> \<not> due env v0 (L (index_to_address v j)) (index_to_address v j))"

section \<open>Boundary activation\<close>

lemma traverseR_image:
  assumes "traverseR f xs = Inr ys" "\<And>x y. x \<in> set xs \<Longrightarrow> f x = Inr y \<Longrightarrow> y = g x"
  shows "ys = map g xs" "\<And>x. x \<in> set xs \<Longrightarrow> f x = Inr (g x)"
proof -
  have "ys = map g xs \<and> (\<forall>x \<in> set xs. f x = Inr (g x))" using assms
  proof (induction xs arbitrary: ys)
    case (Cons x xs)
    then obtain y zs where "f x = Inr y" "traverseR f xs = Inr zs" "ys = y # zs" by auto
    with Cons show ?case by (metis list.set_intros list.simps(9) set_ConsD)
  qed simp
  then show "ys = map g xs" "\<And>x. x \<in> set xs \<Longrightarrow> f x = Inr (g x)" by blast+
qed

lemma persist_all:
  assumes "registry_view env (store s) L" "distinct as" "\<And>a. a \<in> set as \<Longrightarrow> runs_in (E a) (L a) (N a)"
    and "forEachM (\<lambda>tr. persist_validator_state_delta (fst tr) (snd tr))
      (map (\<lambda>a. (\<lparr>vs_address = a, vs_lifecycle = L a\<rparr>, \<lparr>vs_address = a, vs_lifecycle = N a\<rparr>)) as) s = (Inr u, t)"
  shows "registry_view env (store t) (\<lambda>b. if b \<in> set as then N b else L b)"
  using assms
proof (induction as arbitrary: s L)
  case Nil
  then show ?case by (simp add: retM_ok)
next
  case (Cons a as)
  let ?p = "\<lambda>L a. (\<lparr>vs_address = a, vs_lifecycle = L a\<rparr>, \<lparr>vs_address = a, vs_lifecycle = N a\<rparr>)"
  from Cons.prems(4) obtain x s1 where p: "persist_validator_state_delta (fst (?p L a)) (snd (?p L a)) s = (Inr x, s1)"
    and r: "forEachM (\<lambda>tr. persist_validator_state_delta (fst tr) (snd tr)) (map (?p L) as) s1 = (Inr u, t)"
    by (auto simp: bindM_ok)
  from Cons.prems(3) [of a] have "runs_in (E a) (L a) (N a)" by simp
  from persist_view(1) [OF Cons.prems(1) this] p have v: "registry_view env (store s1) (L(a := N a))" by simp
  have same: "map (?p (L(a := N a))) as = map (?p L) as" using Cons.prems(2) by auto
  have "registry_view env (store t) (\<lambda>b. if b \<in> set as then N b else (L(a := N a)) b)"
  proof (rule Cons.IH [OF v])
    show "forEachM (\<lambda>tr. persist_validator_state_delta (fst tr) (snd tr)) (map (?p (L(a := N a))) as) s1 = (Inr u, t)"
      unfolding same by (rule r)
  qed (use Cons.prems(2,3) in auto)
  then show ?case by (rule back_subst [where P = "registry_view env (store t)"]) (use Cons.prems(2) in auto)
qed

lemma ineligible_fails [simp]: "ineligible lc msg \<noteq> Inr x"
  by (cases "stored_status lc") (auto simp: ineligible_def registered_status_def ok_or_def)

lemma boundary_next_run:
  assumes "boundary_next new_set freeze exclusions (andThen (read_ocomp_registration env (vs_address st) v) (\<lambda>r. Inr (r \<noteq> None))) st = Inr lc"
  shows "runs_in (boundary_events env new_set exclusions v (vs_address st)) (vs_lifecycle st) lc"
proof (cases "vs_lifecycle st = lc")
  case False
  with assms show ?thesis unfolding boundary_next_def Let_def boundary_events_def
    by (cases "vs_lifecycle st")
       (auto split: if_splits intro!: runs_in_step [OF step_retain] runs_in_step [OF step_expire_active]
          runs_in_step [OF step_expire_joining] runs_in_step [OF step_activate] runs_in_step [OF step_exclude_exiting]
          runs_in_step [OF step_exclude_jailed])
qed simp

lemma plan_boundary_ok:
  assumes "plan_boundary env new_set freeze exclusions v \<lparr>vs_address = a, vs_lifecycle = L a\<rparr> = Inr tr"
  shows "tr = (\<lparr>vs_address = a, vs_lifecycle = L a\<rparr>,
     \<lparr>vs_address = a, vs_lifecycle = boundary_after env new_set freeze exclusions v L a\<rparr>)"
    and "runs_in (boundary_events env new_set exclusions v a) (L a) (boundary_after env new_set freeze exclusions v L a)"
  using assms boundary_next_run [of new_set freeze exclusions env "\<lparr>vs_address = a, vs_lifecycle = L a\<rparr>" v]
  by (auto simp: boundary_after_def with_lifecycle_ok split: sum.splits)

lemma plan_view:
  assumes v: "registry_view env v L"
    and states: "traverseR (\<lambda>a. validator_state env a v) (registry_list v) = (Inr states :: (unit, ValidatorState list) result)"
    and plan: "traverseR (plan_boundary env new_set freeze exclusions v) states = Inr transitions"
  shows "transitions = map (\<lambda>a. (\<lparr>vs_address = a, vs_lifecycle = L a\<rparr>,
      \<lparr>vs_address = a, vs_lifecycle = boundary_after env new_set freeze exclusions v L a\<rparr>)) (registry_list v)"
    and "\<And>a. a \<in> set (registry_list v) \<Longrightarrow>
      runs_in (boundary_events env new_set exclusions v a) (L a) (boundary_after env new_set freeze exclusions v L a)"
proof -
  let ?b = "\<lambda>a. \<lparr>vs_address = a, vs_lifecycle = L a\<rparr>"
    and ?c = "\<lambda>a. \<lparr>vs_address = a, vs_lifecycle = boundary_after env new_set freeze exclusions v L a\<rparr>"
  have st: "states = map ?b (registry_list v)"
    by (rule traverseR_image(1) [OF states]) (simp add: validator_state_view [OF v])
  have eq: "y = (x, \<lparr>vs_address = vs_address x, vs_lifecycle = boundary_after env new_set freeze exclusions v L (vs_address x)\<rparr>)"
    if "x \<in> set states" "plan_boundary env new_set freeze exclusions v x = Inr y" for x y
    using that plan_boundary_ok(1) [of env new_set freeze exclusions v _ L y] unfolding st by (auto simp del: plan_boundary.simps)
  note im = traverseR_image [OF plan eq]
  show "transitions = map (\<lambda>a. (?b a, ?c a)) (registry_list v)"
    using im(1) unfolding st by (simp add: comp_def)
  show "runs_in (boundary_events env new_set exclusions v a) (L a) (boundary_after env new_set freeze exclusions v L a)" if "a \<in> set (registry_list v)" for a
    using im(2) [where x = "?b a"] plan_boundary_ok(2) [of env new_set freeze exclusions v a L] that unfolding st by (auto simp del: plan_boundary.simps)
qed


lemma boundary_effect:
  assumes v: "registry_view env (store s) L"
    and run: "apply_reshared_set env new_set set_hash freeze exclusions s = (Inr u, t)"
  shows "\<exists>L'. registry_view env (store t) L' \<and> evolves (boundary_events env new_set exclusions (store s)) L L' \<and>
     (\<forall>a. is_current_consensus_participant (L' a) \<longleftrightarrow> a \<in> set new_set) \<and>
     active_consensus_set_hash (store t) = set_hash \<and>
     (pending_set_change (store t) \<longleftrightarrow> (\<exists>a. still_pending (L' a)))"
proof -
  let ?as = "registry_list (store s)" and ?N = "boundary_after env new_set freeze exclusions (store s) L"
  let ?tr = "map (\<lambda>a. (\<lparr>vs_address = a, vs_lifecycle = L a\<rparr>, \<lparr>vs_address = a, vs_lifecycle = ?N a\<rparr>)) ?as"
  let ?L = "\<lambda>b. if b \<in> set ?as then ?N b else L b"
  let ?planned = "filter (\<lambda>a. is_current_consensus_participant (?N a)) ?as"
  from run obtain states transitions s1 lg where
      st: "traverseR (\<lambda>a. validator_state env a (store s)) ?as = (Inr states :: (unit, ValidatorState list) result)"
      and pl: "traverseR (plan_boundary env new_set freeze exclusions (store s)) states = Inr transitions"
      and mem: "card (set new_set) = length new_set"
        "length (filter (\<lambda>tr. is_current_consensus_participant (vs_lifecycle (snd tr))) transitions) = length new_set"
        "(vs_address \<circ> snd) ` set (filter (\<lambda>tr. is_current_consensus_participant (vs_lifecycle (snd tr))) transitions) \<subseteq> set new_set"
      and ps: "forEachM (\<lambda>tr. persist_validator_state_delta (fst tr) (snd tr)) transitions s = (Inr (), s1)"
      and t: "store t = (store s1)\<lparr>active_consensus_set_hash := set_hash,
         pending_set_change := list_ex (\<lambda>tr. still_pending (vs_lifecycle (snd tr))) transitions,
         vset_logs := lg\<rparr>"
    unfolding apply_reshared_set_def Let_def registered_addresses_view [OF v]
    by (auto simp: bindM_ok readM_ok resultM_ok requireM_ok with_checkpoint_ok writeM_ok set_pending_def emit_vset_def
        registered_addresses_view [OF v])
  note tr = plan_view(1) [OF v st pl]
  have w: "registry_view env (store s1) ?L"
    by (rule persist_all [OF v registry_list_distinct [OF v] plan_view(2) [OF v st pl]]) (use ps in \<open>simp_all add: tr\<close>)
  have "set ?planned = set new_set"
  proof (rule card_subset_eq)
    show "set ?planned \<subseteq> set new_set" using mem(3) unfolding tr by (simp add: filter_map comp_def image_image)
    have "card (set ?planned) = length ?planned" by (intro distinct_card distinct_filter registry_list_distinct [OF v])
    then show "card (set ?planned) = card (set new_set)" using mem(1,2) unfolding tr by (simp add: filter_map comp_def)
  qed simp
  then have part: "is_current_consensus_participant (?L a) \<longleftrightarrow> a \<in> set new_set" for a
    using registry_list_member [OF v, of a] by (auto dest: participant_registered)
  have "evolves (boundary_events env new_set exclusions (store s)) L ?L" using plan_view(2) [OF v st pl] by (simp add: evolves_def)
  moreover have "registry_view env (store t) ?L" unfolding t using w by (simp only: view_frame)
  moreover have "pending_set_change (store t) \<longleftrightarrow> (\<exists>a. still_pending (?L a))"
    unfolding t using registry_list_member [OF v] by (auto simp: tr list_ex_iff still_pending_def)
  ultimately show ?thesis using part t by (intro exI [of _ ?L]) simp
qed

section \<open>Cleanup\<close>

lemma reindex_views [simp]:
  "lc_registry_index (reindex i lc) = (if lc = Absent then None else Some i)"
  "lc_consensus_pubkey (reindex i lc) = lc_consensus_pubkey lc"
  "encode_lifecycle (reindex i lc) = encode_lifecycle lc"
  "reindex i lc = Absent \<longleftrightarrow> lc = Absent"
  by (cases lc; simp add: payload_views encode_lifecycle_def hist_or_zero_def deactivated_or_zero_def lc_bonded_stake_def
      lc_unbonding_end_hint_def p2p_stored_def)+

lemma reindex_wf: "wf_lifecycle lc \<Longrightarrow> i \<noteq> 0 \<Longrightarrow> wf_lifecycle (reindex i lc)"
  using lifecycle_step_wf [OF step_reindex] by blast

lemma state_mono:
  assumes le: "\<And>i :: u64. i \<le> ucast n \<Longrightarrow> i \<le> ucast (validator_count v)"
    and st: "validator_state env a (recounted n v) = (Inr st :: ('e, ValidatorState) result)"
  shows "validator_state env a v = (Inr st :: ('e, ValidatorState) result)"
proof -
  from st obtain st' where d: "decode_stored a (address_to_index v a) (read_consensus_pubkey (slots v a)) (stored_stake (slots v a))
      (val_status (slots v a)) (val_p2p_address_version (slots v a)) (val_p2p_address_payload (slots v a))
      (stored_history (slots v a)) (val_has_bls_share (slots v a)) (val_join_confirmed (slots v a))
      (val_jailed_at_height (slots v a)) = (Inr st' :: ('e, ValidatorState) result)"
    unfolding validator_state_def Let_def by (auto simp: andThen_ok)
  show ?thesis
  proof (cases "lc_registry_index (vs_lifecycle st')")
    case None
    then show ?thesis using st d unfolding validator_state_def Let_def by simp
  next
    case (Some i)
    then show ?thesis using st d unfolding validator_state_def Let_def by (auto simp: andThen_ok ensure_ok le)
  qed
qed

lemma recounted_state:
  fixes n :: u32
  assumes "registry_view env (recounted n v) L" "n \<le> validator_count v"
  shows "validator_state env a v = Inr \<lparr>vs_address = a, vs_lifecycle = L a\<rparr>"
proof (rule state_mono [OF _ validator_state_view [OF assms(1)]])
  fix i :: u64 assume "i \<le> ucast n"
  then show "i \<le> ucast (validator_count v)" using assms(2) unfolding ucast_u32_le by (simp add: word_le_nat_alt)
qed

lemma view_remove:
  fixes n :: u32
  assumes v: "registry_view env (recounted n v) L" and inactive: "L a = Inactive p"
    and i: "i = address_to_index v a" and z: "z = index_to_address v (ucast n)"
  shows "registry_view env (recounted (n - 1) (removed_entry env a i n (consensus_pubkey p) v))
     (L(z := reindex i (L z), a := Absent))"
proof -
  have reg: "address_to_index v b \<le> ucast n" "index_to_address v (address_to_index v b) = b" "address_to_index v b \<noteq> 0"
    if "L b \<noteq> Absent" for b
  proof -
    show "address_to_index v b \<le> ucast n" "index_to_address v (address_to_index v b) = b"
      using v that unfolding registry_view_def by simp_all
    show "address_to_index v b \<noteq> 0" using view_absent [OF v, of b] that by simp
  qed
  have idx: "i \<noteq> 0" "i \<le> ucast n" "index_to_address v i = a"
    using reg [of a] inactive unfolding i by simp_all
  have n0: "n \<noteq> 0" using idx(1,2) by auto
  then have un: "unat n = Suc (unat (n - 1))" by (simp add: unat_minus_one unat_gt_0)
  have low: "j \<le> ucast (n - 1) \<longleftrightarrow> j \<le> ucast n \<and> j \<noteq> ucast n" for j :: u64
    unfolding ucast_u32_le using un by (auto simp: word_unat_eq_iff unat_ucast_up)
  have ent: "index_to_address v j \<noteq> 0" "address_to_index v (index_to_address v j) = j" if "j \<noteq> 0" "j \<le> ucast n" for j
    using view_entry [OF v, of j] that by simp_all
  have un0: "(ucast n :: u64) \<noteq> 0" using idx(1,2) by auto
  have z': "z \<noteq> 0" "address_to_index v z = ucast n" "L z \<noteq> Absent"
  proof -
    show a: "z \<noteq> 0" and b: "address_to_index v z = ucast n" using ent [OF un0 order_refl] unfolding z by simp_all
    show "L z \<noteq> Absent" using view_absent [OF v, of z] b un0 by simp
  qed
  have owner: "consensus_pubkey_hash_to_address v (consensus_pubkey_hash env q) = b" if "lc_consensus_pubkey (L b) = Some q" for b q
    using v that unfolding registry_view_def by simp
  have key: "consensus_pubkey_hash_to_address v (consensus_pubkey_hash env q) = b \<and> consensus_pubkey_hash env q \<noteq> consensus_pubkey_hash env (consensus_pubkey p)"
    if "lc_consensus_pubkey (L b) = Some q" "b \<noteq> a" for b q
    using owner [OF that(1)] owner [of a "consensus_pubkey p"] inactive that(2) by (auto simp: lc_consensus_pubkey_def)
  let ?F = "(index_to_address v)(i := z, ucast n := 0)" and ?G = "(address_to_index v)(z := i, a := 0)"
    and ?L = "L(z := reindex i (L z), a := Absent)"
  have za: "z = a \<longleftrightarrow> i = ucast n" using idx z'(2) z i by auto
  have r1: "?G b \<le> ucast (n - 1) \<and> ?F (?G b) = b" if "?L b \<noteq> Absent" for b
  proof -
    from that have ba: "b \<noteq> a" and lb: "L b \<noteq> Absent" by (auto split: if_splits)
    show ?thesis
    proof (cases "b = z")
      case True
      then have "i \<noteq> ucast n" using ba za by blast
      then show ?thesis using True ba idx(2) low by simp
    next
      case False
      then have "address_to_index v b \<noteq> ucast n" "address_to_index v b \<noteq> i" using reg(2) [OF lb] idx(3) ba z by auto
      then show ?thesis using False ba reg [OF lb] low by simp
    qed
  qed
  have r2: "?F j \<noteq> 0 \<and> ?G (?F j) = j" if j: "j \<noteq> 0" "j \<le> ucast (n - 1)" for j
  proof -
    from j(2) have jn: "j \<noteq> ucast n" "j \<le> ucast n" using low by blast+
    note e = ent [OF j(1) jn(2)]
    show ?thesis
    proof (cases "j = i")
      case True
      then show ?thesis using jn(1) z'(1) za by simp
    next
      case False
      then have "index_to_address v j \<noteq> a" "index_to_address v j \<noteq> z" using e(2) i z'(2) jn(1) by auto
      then show ?thesis using False jn(1) e by simp
    qed
  qed
  have r3: "lc_registry_index (?L b) = nonzero (?G b)" for b
    using view_index [OF v, of b] z'(3) idx(1) index_None [of Absent] by (simp add: nonzero_def)
  have r4: "slots v b = encode_lifecycle (L b)" for b by (rule view_slots [OF v, of b, simplified])
  have r5: "wf_lifecycle (?L b)" for b using view_wf [OF v] reindex_wf [OF view_wf [OF v] idx(1)] by simp
  show ?thesis
    unfolding registry_view_def removed_entry_def z [symmetric]
    apply (intro conjI allI impI)
    subgoal using r5 by blast
    subgoal by (simp add: r4)
    subgoal using r3 by simp
    subgoal for b using r1 [of b] by simp
    subgoal for b using r1 [of b] by simp
    subgoal for j using r2 [of j] by (simp add: word_gt_0)
    subgoal for j using r2 [of j] by (simp add: word_gt_0)
    subgoal for b q using key [of b q] pubkey_None [of Absent] by (simp split: if_splits)
    done
qed

lemma leads_if [lead_intros]:
  "(b \<Longrightarrow> leads v (bindM m k) Q) \<Longrightarrow> (\<not> b \<Longrightarrow> leads v (bindM n k) Q) \<Longrightarrow> leads v (bindM (if b then m else n) k) Q"
  by simp

lemma leads_ret [lead_intros]: "leads v (k x) Q \<Longrightarrow> leads v (bindM (retM x) k) Q"
  by (simp add: bindM_retM)

lemma leads_assoc [lead_intros]: "leads v (bindM m (\<lambda>x. bindM (k x) l)) Q \<Longrightarrow> leads v (bindM (bindM m k) l) Q"
  unfolding leads_def bindM_ok by blast

lemma empty_slots:
  "encode_lifecycle Absent = \<lparr>val_consensus_pubkey_lo = 0, val_consensus_pubkey_hi = 0, val_stake = 0, val_status = 0,
     val_slash_count = 0, val_missed_blocks = 0, val_missed_votes = 0, val_blocks_proposed = 0, val_joined_at_height = 0,
     val_deactivated_at_height = 0, val_unbonding_end = 0, val_has_bls_share = False, val_p2p_address_version = 0,
     val_p2p_address_payload = [], val_join_confirmed = False, val_jailed_at_height = 0\<rparr>"
  by (simp add: encode_lifecycle_def payload_views hist_or_zero_def deactivated_or_zero_def lc_bonded_stake_def
      lc_unbonding_end_hint_def p2p_stored_def REGISTERED_def or_zero_def)

lemma slots_cleared:
  "sl\<lparr>val_consensus_pubkey_lo := 0, val_consensus_pubkey_hi := 0, val_stake := 0, val_status := 0,
     val_slash_count := 0, val_missed_blocks := 0, val_missed_votes := 0, val_blocks_proposed := 0, val_joined_at_height := 0,
     val_deactivated_at_height := 0, val_unbonding_end := 0, val_has_bls_share := False, val_p2p_address_version := 0,
     val_p2p_address_payload := [], val_join_confirmed := False, val_jailed_at_height := 0\<rparr> = encode_lifecycle Absent"
  by (cases sl) (simp add: empty_slots)

lemma clear_storage_leads: "leads v (clear_validator_storage env a) (cleared env a v)"
  unfolding clear_validator_storage_def write_consensus_pubkey_def write_slot_def
  by (intro lead_intros) (simp_all add: cleared_def update_slot_def slots_cleared pubkey_zero)

lemma remove_index_leads:
  "leads v (remove_index a i count) (\<lambda>w. w = v\<lparr>
     index_to_address := (if i < count then (index_to_address v)(i := index_to_address v count) else index_to_address v)(count := 0),
     address_to_index := (if i < count then (address_to_index v)(index_to_address v count := i) else address_to_index v)(a := 0)\<rparr>)"
  unfolding remove_index_def by (intro lead_intros) simp_all

lemma leads_seq: "leads v m P \<Longrightarrow> (\<And>w x. P w \<Longrightarrow> leads w (k x) Q) \<Longrightarrow> leads v (bindM m k) Q"
  unfolding leads_def bindM_ok by blast

lemma remove_leads:
  fixes n :: u32
  assumes v: "registry_view env (recounted n v) L" and inactive: "L a = Inactive p"
    and i: "i = address_to_index v a" and z: "z = index_to_address v (ucast n)"
  shows "leads v (bindM (clear_validator_storage env a) (\<lambda>_. remove_index a i (ucast n)))
     (\<lambda>w. registry_view env (recounted (n - 1) w) (L(z := reindex i (L z), a := Absent)) \<and>
        index_to_address w = (index_to_address v)(i := z, ucast n := 0) \<and>
        validator_count w = validator_count v \<and> config_reregistration_cooldown w = config_reregistration_cooldown v \<and>
        val_ocomp_recovery_deadline w = (val_ocomp_recovery_deadline v)(a := 0))"
proof -
  have pk: "read_consensus_pubkey (slots v a) = consensus_pubkey p"
    using view_slots [OF v, of a] inactive by (simp add: read_encoded_pubkey lc_consensus_pubkey_def)
  have idx: "i \<le> ucast n" "index_to_address v i = a"
    using v inactive unfolding registry_view_def i by simp_all
  have I: "(if i < ucast n then (index_to_address v)(i := index_to_address v (ucast n)) else index_to_address v)(ucast n := 0)
      = (index_to_address v)(i := z, ucast n := 0)"
    using idx z by (auto simp: order_le_less)
  have A: "(if i < ucast n then (address_to_index v)(index_to_address v (ucast n) := i) else address_to_index v)(a := 0)
      = (address_to_index v)(z := i, a := 0)"
    using idx z by (auto simp: order_le_less)
  show ?thesis
  proof (rule leads_seq [OF clear_storage_leads], rule leads_mono [OF remove_index_leads], intro conjI)
    fix w w' assume w: "cleared env a v w"
      and w': "w' = w\<lparr>
        index_to_address := (if i < ucast n then (index_to_address w)(i := index_to_address w (ucast n)) else index_to_address w)(ucast n := 0),
        address_to_index := (if i < ucast n then (address_to_index w)(index_to_address w (ucast n) := i) else address_to_index w)(a := 0)\<rparr>"
    have "index_to_address w' = (index_to_address v)(i := z, ucast n := 0) \<and> address_to_index w' = (address_to_index v)(z := i, a := 0)"
      using w I A unfolding w' by (cases "i < ucast n") (simp_all add: cleared_def)
    then have ix: "index_to_address w' = (index_to_address v)(i := z, ucast n := 0)" "address_to_index w' = (address_to_index v)(z := i, a := 0)"
      by blast+
    show "registry_view env (recounted (n - 1) w') (L(z := reindex i (L z), a := Absent))"
      by (rule view_cong [OF view_remove [OF v inactive i z]])
         (use w ix z pk in \<open>simp_all add: cleared_def removed_entry_def w'\<close>)
    show "index_to_address w' = (index_to_address v)(i := z, ucast n := 0)" by (rule ix)
    show "validator_count w' = validator_count v" "config_reregistration_cooldown w' = config_reregistration_cooldown v"
      "val_ocomp_recovery_deadline w' = (val_ocomp_recovery_deadline v)(a := 0)"
      using w unfolding w' by (simp_all add: cleared_def)
  qed
qed

lemma due_reindex [simp]: "due env v (reindex i lc) a = due env v lc a"
  by (cases lc) (simp_all add: due_def)

lemma reindex_reindex: "reindex i (reindex j lc) = reindex i lc"
  by (cases lc) simp_all

lemma due_Absent [simp]: "\<not> due env v Absent a"
  by (simp add: due_def)

lemma removable_due:
  assumes "registry_view env (recounted n v) L" "n \<le> validator_count v" "removable env a v = Inr go"
  shows "go \<longleftrightarrow> due env v (L a) a"
proof -
  have st: "validator_state env a v = (Inr \<lparr>vs_address = a, vs_lifecycle = L a\<rparr> :: (unit, ValidatorState) result)"
    by (rule recounted_state [OF assms(1,2)])
  show ?thesis using assms(3) unfolding removable_def due_def st
    by (cases "L a") (auto simp: lc_history_def unat_add_exact word_le_nat_alt unat_ucast_up payload_views)
qed

lemma due_removed:
  assumes "due env v lc a" shows "\<exists>p. lc = Inactive p" "Cleanup \<in> D \<Longrightarrow> runs_in D lc Absent"
proof -
  show p: "\<exists>p. lc = Inactive p" using assms by (cases lc) (simp_all add: due_def)
  then obtain p where "lc = Inactive p" ..
  then show "Cleanup \<in> D \<Longrightarrow> runs_in D lc Absent" using runs_in_step [OF step_cleanup, of D p] by (simp add: cleanup_def)
qed

lemma cleanup_inv_due:
  assumes "cleanup_inv env v0 L0 v n i r L"
  shows "due env v (L a) a \<longleftrightarrow> due env v0 (L a) a"
proof (cases "L a = Absent")
  case False
  then have "val_ocomp_recovery_deadline v a = val_ocomp_recovery_deadline v0 a"
    "config_reregistration_cooldown v = config_reregistration_cooldown v0"
    using assms unfolding cleanup_inv_def by blast+
  then show ?thesis unfolding due_def by (simp only:)
qed simp

lemma cleanup_inv_skip:
  assumes inv: "cleanup_inv env v0 L0 v n i r L" and le: "i \<le> ucast n"
    and stay: "\<not> due env v0 (L (index_to_address v i)) (index_to_address v i)"
  shows "cleanup_inv env v0 L0 v n (i + 1) r L"
proof -
  have i: "unat (i + 1) = Suc (unat i)"
    using le unat_bound [of n] by (subst unat_add_exact) (auto simp: ucast_u32_le)
  have "j < i + 1 \<longleftrightarrow> j < i \<or> j = i" for j
    using i by (auto simp: word_less_nat_alt word_unat_eq_iff)
  moreover have "i + 1 \<noteq> 0" using i by (metis nat.distinct(1) unat_0)
  ultimately show ?thesis using inv stay unfolding cleanup_inv_def by auto
qed


lemma cleanup_inv_remove:
  assumes inv: "cleanup_inv env v0 L0 v n i r L" and le: "i \<le> ucast n"
    and go: "due env v0 (L a) a" and a: "a = index_to_address v i"
  shows "leads v (bindM (clear_validator_storage env a) (\<lambda>_. remove_index a i (ucast n)))
     (\<lambda>w. \<exists>L'. cleanup_inv env v0 L0 w (n - 1) i (r + 1) L')"
proof -
  let ?E = "\<lambda>_. {Reindex, Cleanup}" and ?z = "index_to_address v (ucast n)" and ?L = "L(index_to_address v (ucast n) := reindex i (L (index_to_address v (ucast n))), a := Absent)"
  from inv have v: "registry_view env (recounted n v) L" and nc: "n \<le> validator_count v" and ev: "evolves ?E L0 L"
    and th: "thinned env v0 L0 L" and cnt: "unat n + unat r = unat (validator_count v0)" and i0: "i \<noteq> 0"
    and cd: "config_reregistration_cooldown v = config_reregistration_cooldown v0"
    and dl: "\<And>a. L a \<noteq> Absent \<Longrightarrow> val_ocomp_recovery_deadline v a = val_ocomp_recovery_deadline v0 a"
    and fr: "\<And>j. 0 < j \<Longrightarrow> j < i \<Longrightarrow> j \<le> ucast n \<Longrightarrow> \<not> due env v0 (L (index_to_address v j)) (index_to_address v j)"
    unfolding cleanup_inv_def by blast+
  from due_removed(1) [OF go] obtain p where p: "L a = Inactive p" ..
  have idx: "i = address_to_index v a" using view_entry(2) [OF v i0] le unfolding a by simp
  have n0: "n \<noteq> 0" using le i0 by auto
  have un: "unat (n - 1) = unat n - 1" using n0 by (simp add: unat_minus_one)
  have "unat n \<noteq> 0" using n0 by (simp add: unat_eq_zero)
  then have ur: "unat (n - 1) + unat (r + 1) = unat (validator_count v0)"
    using cnt un unat_bound [of "validator_count v0"] by (subst unat_add_exact) auto
  have low: "j \<le> ucast n \<and> j \<noteq> ucast n" if "j \<le> ucast (n - 1)" for j :: u64
    using that un \<open>unat n \<noteq> 0\<close> unfolding ucast_u32_le by (auto simp: unat_ucast_up)
  have "evolves ?E L (L(?z := reindex i (L ?z)))"
    by (rule evolves_set) (rule runs_in_step [OF step_reindex [OF i0]], simp)
  moreover have "evolves ?E (L(?z := reindex i (L ?z))) ?L"
    by (rule evolves_set, rule due_removed(2) [of env v0 _ a]) (use go in auto)
  ultimately have ev': "evolves ?E L0 ?L" using ev evolves_trans by blast
  have th': "thinned env v0 L0 ?L"
    unfolding thinned_def
  proof (intro allI)
    fix b
    have b: "L b = Absent \<and> due env v0 (L0 b) b \<or> L b = L0 b \<or> (\<exists>i. L b = reindex i (L0 b))"
      using th unfolding thinned_def by blast
    show "?L b = Absent \<and> due env v0 (L0 b) b \<or> ?L b = L0 b \<or> (\<exists>i. ?L b = reindex i (L0 b))"
    proof (cases "b = a")
      case True
      then show ?thesis using b go by auto
    next
      case False
      then show ?thesis using b by (auto simp: reindex_reindex)
    qed
  qed
  show ?thesis
  proof (rule leads_mono [OF remove_leads [OF v p idx refl]], intro exI [of _ ?L])
    fix w assume w: "registry_view env (recounted (n - 1) w) ?L \<and> index_to_address w = (index_to_address v)(i := ?z, ucast n := 0) \<and>
        validator_count w = validator_count v \<and> config_reregistration_cooldown w = config_reregistration_cooldown v \<and>
        val_ocomp_recovery_deadline w = (val_ocomp_recovery_deadline v)(a := 0)"
    have f: "\<not> due env v0 (?L (index_to_address w j)) (index_to_address w j)" if "0 < j" "j < i" "j \<le> ucast (n - 1)" for j
      using w fr [OF that(1,2)] low [OF that(3)] that(2) by auto
    have "n - 1 \<le> validator_count v" using nc un unfolding word_le_nat_alt by simp
    then show "cleanup_inv env v0 L0 w (n - 1) i (r + 1) ?L"
      unfolding cleanup_inv_def using w ev' th' ur i0 cd dl f by auto
  qed
qed


lemma loop_remove:
  assumes "bindM (clear_validator_storage env a) (\<lambda>_. bindM (remove_index a i c) k) s = (Inr u, t)"
  shows "\<exists>x s1. bindM (clear_validator_storage env a) (\<lambda>_. remove_index a i c) s = (Inr x, s1) \<and> k x s1 = (Inr u, t)"
  using assms unfolding bindM_ok by blast

text \<open>The loop keeps its invariant, and it returns when its guard fails or the limit is reached.\<close>

lemma cleanup_loop_exits:
  assumes "cleanup_loop k env mx i n r s = (Inr (Some (n', r')), t)" "cleanup_inv env v0 L0 (store s) n i r L"
  shows "\<exists>i' L'. cleanup_inv env v0 L0 (store t) n' i' r' L' \<and> (ucast n' < i' \<or> 0 < mx \<and> mx \<le> r')"
  using assms
proof (induction k arbitrary: i n r s L)
  case 0
  then show ?case by (simp add: retM_ok)
next
  case (Suc k)
  let ?a = "index_to_address (store s) i"
  note inv = Suc.prems(2)
  have v: "registry_view env (recounted n (store s)) L" "n \<le> validator_count (store s)" "i \<noteq> 0"
    using inv unfolding cleanup_inv_def by blast+
  consider "\<not> i \<le> ucast n" | "0 < mx \<and> mx \<le> r" | (pass) "i \<le> ucast n" "\<not> (0 < mx \<and> mx \<le> r)" by blast
  then show ?case
  proof cases
    case pass
    then have a0: "?a \<noteq> 0" using view_entry(1) [OF v(1,3)] by simp
    obtain go where go: "removable env ?a (store s) = Inr go"
      and rest: "(if \<not> go then cleanup_loop k env mx (i + 1) n r
          else bindM (clear_validator_storage env ?a) (\<lambda>_. bindM (remove_index ?a i (ucast n)) (\<lambda>_.
            cleanup_loop k env mx i (n - 1) (r + 1)))) s = (Inr (Some (n', r')), t)"
      using Suc.prems(1) pass a0 by (auto simp: bindM_ok getsM_ok readM_ok)
    have d: "go \<longleftrightarrow> due env v0 (L ?a) ?a"
      using removable_due [OF v(1,2) go] cleanup_inv_due [OF inv] by simp
    show ?thesis
    proof (cases go)
      case False
      have "cleanup_inv env v0 L0 (store s) n (i + 1) r L" by (rule cleanup_inv_skip [OF inv pass(1)]) (use d False in simp)
      from Suc.IH [OF _ this] rest False show ?thesis by auto
    next
      case True
      from loop_remove rest True obtain x s1 where
        m: "bindM (clear_validator_storage env ?a) (\<lambda>_. remove_index ?a i (ucast n)) s = (Inr x, s1)"
        and l: "cleanup_loop k env mx i (n - 1) (r + 1) s1 = (Inr (Some (n', r')), t)" by (auto simp: bindM_ok)
      from cleanup_inv_remove [OF inv pass(1) _ refl] m d True obtain L1
        where "cleanup_inv env v0 L0 (store s1) (n - 1) i (r + 1) L1" unfolding leads_def by blast
      then show ?thesis by (rule Suc.IH [OF l])
    qed
  next
    case 1
    then have "n' = n \<and> r' = r \<and> t = s" using Suc.prems(1) by (simp add: retM_ok)
    then show ?thesis using inv 1 by (auto simp: not_le)
  next
    case 2
    then have "n' = n \<and> r' = r \<and> t = s" using Suc.prems(1) by (cases "i \<le> ucast n") (simp_all add: retM_ok)
    then show ?thesis using inv 2 by auto
  qed
qed

lemma cleanup_loop_ends:
  assumes "unat n + 2 \<le> unat i + k" "0 < k" "i \<noteq> 0"
  shows "fst (cleanup_loop k env mx i n r s) \<noteq> Inr None"
  using assms
proof (induction k arbitrary: i n r s)
  case (Suc k)
  show ?case
  proof (cases "i \<le> ucast n")
    case True
    then have le: "unat i \<le> unat n" by (simp add: ucast_u32_le)
    have suc: "unat (i + 1) = Suc (unat i)"
      using le unat_bound [of n] by (subst unat_add_exact) auto
    then have i1: "i + 1 \<noteq> 0" by (metis nat.distinct(1) unat_0)
    have pos: "0 < k" using Suc.prems(1) le by simp
    have n: "unat n = Suc (unat (n - 1))" using True Suc.prems(3) by (cases "n = 0") (simp_all add: unat_minus_one unat_gt_0)
    have next_index: "fst (cleanup_loop k env mx (i + 1) n r s') \<noteq> Inr None" for s'
      by (rule Suc.IH [OF _ pos i1]) (use Suc.prems(1) suc in simp)
    have next_count: "fst (cleanup_loop k env mx i (n - 1) (r + 1) s') \<noteq> Inr None" for s'
      by (rule Suc.IH [OF _ pos Suc.prems(3)]) (use Suc.prems(1) n in simp)
    show ?thesis using True next_index next_count
      by (auto simp: bindM_def getsM_def readM_def retM_def split: sum.split prod.split) 
  qed (simp add: retM_def)
qed simp

section \<open>Every message keeps the registry\<close>

lemma tracks_wf: "(wf_lifecycle (L a) \<Longrightarrow> tracks env E L m) \<Longrightarrow> tracks env E L m"
  unfolding tracks_def using view_wf by blast

lemma transition_keeps: "runs_to D pick \<Longrightarrow> D (L a) \<subseteq> E a \<Longrightarrow> tracks env E L (transition env a pick events)"
  by (rule tracks_wf [of L a], rule transition_tracks)

lemma tracks_ret: "tracks env E L m \<Longrightarrow> tracks env E L (bindM m (\<lambda>x. retM (f x)))"
  by (rule tracks_seq) (simp_all add: tracks_neutral track_intros)

lemma write_founder_neutral [track_intros]: "neutral env (write_founder x)"
  unfolding write_founder_def by (cases x) (simp add: track_intros)

lemma founders_neutral: "neutral env (initialize_founder_ocomp_registrations env' rs)"
  unfolding initialize_founder_ocomp_registrations_def by (intro track_intros) (auto intro!: track_intros)

lemma stake_mirror_tracks:
  "increase_events amount minimum \<subseteq> E a \<Longrightarrow> tracks env E L (record_stake_increase env a amount minimum)"
  "unstake_events amount minimum \<subseteq> E a \<Longrightarrow> tracks env E L (record_unstake env a amount minimum hint)"
  "slash_events amount minimum \<subseteq> E a \<Longrightarrow> tracks env E L (record_stake_slash env a amount minimum slash_hint)"
  "MirrorStake amount \<in> E a \<Longrightarrow> tracks env E L (record_ocomp_bonded_slash env a amount)"
  unfolding record_stake_increase_def record_unstake_def record_stake_slash_def record_ocomp_bonded_slash_def
  by (intro transition_keeps [OF stake_increase_runs] transition_keeps [OF unstake_runs] transition_keeps [OF slash_runs]
      transition_keeps [OF ocomp_slash_runs] tracks_bind track_intros; simp)+

lemma complete_unbonding_tracks:
  "{MirrorStake (lc_bonded_stake (L a)), CompleteUnbonding} \<subseteq> E a \<Longrightarrow> tracks env E L (complete_unbonding_of env a)"
  unfolding complete_unbonding_of_def
  by (rule tracks_state) (auto split: ValidatorLifecycle.split intro: transition_keeps [OF complete_runs] tracks_neutral track_intros)

lemma exit_tracks:
  "BeginExit (lc_bonded_stake (L a)) \<in> E a \<Longrightarrow> tracks env E L (deactivate_validator env caller a)"
  "Unjail \<in> E a \<Longrightarrow> tracks env E L (unjail_after_stake_check env a)"
  "punish_events False (L a) \<subseteq> E a \<Longrightarrow> tracks env E L (force_exit_validator env a)"
  "punish_events True (L a) \<subseteq> E a \<Longrightarrow> tracks env E L (jail_validator env a)"
  unfolding deactivate_validator_def unjail_after_stake_check_def force_exit_validator_def jail_validator_def
  by (intro transition_keeps [OF deactivate_runs] transition_keeps [OF unjail_runs] tracks_bind track_intros tracks_ret
      punish_tracks; simp)+

lemma tee_expiry_tracks: "JailEvent \<in> E a \<Longrightarrow> tracks env E L (jail_validator_for_tee_expiry env a)"
  unfolding jail_validator_for_tee_expiry_def
  by (rule tracks_state) (auto split: ValidatorLifecycle.split
      intro!: tracks_ret transition_keeps [OF tee_expiry_runs] tracks_neutral [OF neutral_reads(1)])

lemma check_exclusions_neutral [track_intros]: "neutral env (check_exclusions new_set seen as)"
proof (induction as arbitrary: seen)
  case Nil
  show ?case by (simp add: track_intros)
next
  case (Cons a as)
  show ?case unfolding check_exclusions.simps by (intro track_intros Cons.IH)
qed

lemma hook_tracks:
  "Account \<in> E a \<Longrightarrow> tracks env E L (hook_record_proposer env a)"
  "(\<And>a. a \<in> set absent \<Longrightarrow> Account \<in> E a) \<Longrightarrow> tracks env E L (hook_record_participation env voters absent)"
  "(\<And>a. a \<in> set absent \<Longrightarrow> Account \<in> E a) \<Longrightarrow> tracks env E L (hook_record_finalized_participation env fb voters absent)"
  unfolding hook_record_proposer_def hook_record_participation_def hook_record_finalized_participation_def advance_ring_def Let_def
    apply (rule tracks_bind, rule track_intros, simp add: record_proposer_tracks tracks_neutral track_intros)
   apply (simp add: record_participation_tracks tracks_neutral track_intros)
  apply (simp add: tracks_neutral track_intros)
  apply (rule impI)
  apply (rule tracks_bind, rule track_intros)
  apply (simp add: tracks_neutral track_intros)
  apply (rule impI)
  apply (rule tracks_seq, rule record_finalized_tracks, simp, rule tracks_neutral)
  apply (intro track_intros)
  done

lemma cleanup_start:
  assumes "registry_view env v L"
  shows "cleanup_inv env v L v (validator_count v) 1 0 L"
  using assms unfolding cleanup_inv_def thinned_def by (auto simp: word_less_nat_alt)

lemma cleanup_effect:
  assumes v: "registry_view env (store s) L" and run: "cleanup_inactive_validators env mx s = (Inr removed, t)"
  shows "\<exists>L'. registry_view env (store t) L' \<and> evolves (\<lambda>_. {Reindex, Cleanup}) L L' \<and> thinned env (store s) L L' \<and>
     unat (validator_count (store t)) + unat removed = unat (validator_count (store s)) \<and>
     (mx = 0 \<or> removed < mx \<longrightarrow> (\<forall>a. \<not> due env (store s) (L' a) a))"
proof -
  from run obtain n s1 where l: "cleanup_loop (Suc (unat (validator_count (store s)))) env mx 1 (validator_count (store s)) 0 s = (Inr (Some (n, removed)), s1)"
    and t: "store t = recounted n (store s1)"
    unfolding cleanup_inactive_validators_def by (auto simp: bindM_ok getsM_ok with_checkpoint_ok writeM_ok retM_ok failM_ok split: option.splits)
  from cleanup_loop_exits [OF l cleanup_start [OF v]] obtain i L' where
    inv: "cleanup_inv env (store s) L (store s1) n i removed L'" and ex: "ucast n < i \<or> 0 < mx \<and> mx \<le> removed" by auto
  have w: "registry_view env (store t) L'" using inv unfolding cleanup_inv_def t by blast
  have "\<not> due env (store s) (L' a) a" if "mx = 0 \<or> removed < mx" for a
  proof (cases "L' a = Absent")
    case False
    let ?j = "address_to_index (store t) a"
    have j: "?j \<le> ucast n" "index_to_address (store t) ?j = a" "?j \<noteq> 0"
      using w False view_absent [OF w, of a] unfolding registry_view_def t by auto
    moreover have "ucast n < i" using ex that by auto
    ultimately show ?thesis using inv unfolding cleanup_inv_def t by (auto simp: word_gt_0)
  qed simp
  with w inv show ?thesis unfolding cleanup_inv_def t by (intro exI [of _ L']) simp
qed

lemma evolves_mono: "evolves D L L' \<Longrightarrow> (\<And>a. D a \<subseteq> E a) \<Longrightarrow> evolves E L L'"
  unfolding evolves_def using runs_in_mono by blast

lemma cleanup_tracks:
  assumes "\<And>a. {Reindex, Cleanup} \<subseteq> E a"
  shows "tracks env E L (cleanup_inactive_validators env mx)"
  unfolding tracks_def using cleanup_effect evolves_mono [of "\<lambda>_. {Reindex, Cleanup}" L _ E, OF _ assms] by blast

end
