(* ===== verification/Validator_Soundness.thy ===== *)
theory Validator_Soundness
  imports Validator_Contract
begin

text \<open>
  What holds of the validator set in every storage that calls and system operations lead to: the stored
  records stay decodable, and the reverse indexes of \<open>schema.rs\<close> (consensus key, OCOMP key, Radicle node,
  delegate) stay the inverses of the per-validator fields, so a key has one owner.

  \<^item> \<open>reserved\<close> is the agreement of each index with its field, \<open>vset_sound\<close> joins it with the
    representation of a lifecycle per address (\<open>registry_view\<close>); \<open>retains\<close> says that an operation keeps a
    predicate of the storage.
  \<^item> \<open>lvset\<close> interprets \<open>atomic_contract\<close> on \<open>vset_run\<close>: soundness is an invariant of the reachable
    storages, failed messages included.
  \<^item> \<open>message_events\<close> says which transitions of the lifecycle machine a message may make on an address;
    \<open>message_evolves\<close> shows that it makes no others, whatever the storage.
  \<^item> The boundary, the cleanup loop, the read-back of a stored lifecycle and the window of
    recorded finalized blocks are described exactly.
\<close>

section \<open>Sound storage\<close>

text \<open>The reverse tables agree with the forward ones: a node id, an OCOMP key and an operational key each have
  one owner.\<close>

definition owns :: "(address \<Rightarrow> 'k::zero) \<Rightarrow> ('k \<Rightarrow> address) \<Rightarrow> bool" where
  "owns f g \<longleftrightarrow> (\<forall>a. f a \<noteq> 0 \<longrightarrow> a \<noteq> 0 \<and> g (f a) = a)"

definition owns_keys ::
    "(bytes \<Rightarrow> b256) \<Rightarrow> (bytes \<Rightarrow> ocomp_registration option) \<Rightarrow> (address \<Rightarrow> bytes) \<Rightarrow> (b256 \<Rightarrow> address) \<Rightarrow> bool" where
  "owns_keys h dec f g \<longleftrightarrow> (\<forall>a. f a \<noteq> [] \<longrightarrow> a \<noteq> 0 \<and>
     (\<exists>reg. dec (f a) = Some reg \<and> g (h (oc_public_key_sec1 reg)) = a))"

definition reserved :: "(bytes \<Rightarrow> b256) \<Rightarrow> (bytes \<Rightarrow> ocomp_registration option) \<Rightarrow> ValidatorSet \<Rightarrow> bool" where
  "reserved h dec v \<longleftrightarrow>
     owns (val_radicle_node_id v) (radicle_node_id_to_validator v) \<and>
     (\<forall>r. owns (\<lambda>a. delegate_by_validator_role v a r) (validator_by_role_delegate v r) \<and> validator_by_role_delegate v r 0 = 0) \<and>
     owns_keys h dec (val_ocomp_registration v) (ocomp_key_hash_to_validator v)"

definition retains :: "('c \<Rightarrow> bool) \<Rightarrow> ('c, 'e, 'a) prog \<Rightarrow> bool" where
  "retains P m \<longleftrightarrow> (\<forall>s u t. m s = (Inr u, t) \<longrightarrow> P (store s) \<longrightarrow> P (store t))"

definition of_reservations :: "(ValidatorSet \<Rightarrow> bool) \<Rightarrow> bool" where
  "of_reservations P \<longleftrightarrow> (\<forall>v w. val_radicle_node_id w = val_radicle_node_id v \<longrightarrow>
     radicle_node_id_to_validator w = radicle_node_id_to_validator v \<longrightarrow>
     delegate_by_validator_role w = delegate_by_validator_role v \<longrightarrow>
     validator_by_role_delegate w = validator_by_role_delegate v \<longrightarrow>
     val_ocomp_registration w = val_ocomp_registration v \<longrightarrow>
     ocomp_key_hash_to_validator w = ocomp_key_hash_to_validator v \<longrightarrow> P v \<longrightarrow> P w)"

text \<open>The import of the founders' keys: each prepared entry belongs to a registered validator without a key,
  and its key is free.\<close>

definition importable ::
    "(bytes \<Rightarrow> b256) \<Rightarrow> (bytes \<Rightarrow> ocomp_registration option) \<Rightarrow> ValidatorSet \<Rightarrow> (address \<times> b256 \<times> bytes) list \<Rightarrow> bool" where
  "importable h dec v xs \<longleftrightarrow> distinct (map (fst \<circ> snd) xs) \<and>
     (\<forall>(a, k, bs) \<in> set xs. a \<noteq> 0 \<and> ocomp_key_hash_to_validator v k = 0 \<and>
        (\<exists>reg. dec bs = Some reg \<and> h (oc_public_key_sec1 reg) = k))"

text \<open>The OCOMP codec: decoding gives back what was encoded.\<close>

definition codec_ok :: "vset_env \<Rightarrow> bool" where
  "codec_ok env \<longleftrightarrow> (\<forall>reg bs. ocomp_encode env reg = Some bs \<longrightarrow> ocomp_decode env bs = Some reg)"

text \<open>Messages over one hash and one codec. The hash does not map two different OCOMP keys of one import to one value.\<close>

fun message_ok :: "(bytes \<Rightarrow> b256) \<Rightarrow> (bytes \<Rightarrow> ocomp_registration option) \<Rightarrow> vset_message \<Rightarrow> bool" where
  "message_ok h dec (Call env caller value call) \<longleftrightarrow> ve_keccak env = h \<and> ocomp_decode env = dec"
| "message_ok h dec (System env op) \<longleftrightarrow> ve_keccak env = h \<and> ocomp_decode env = dec \<and>
     (case op of
        FoundersImported rs \<Rightarrow> codec_ok env \<and> inj_on h (oc_public_key_sec1 ` set rs)
      | _ \<Rightarrow> True)"

definition vset_sound :: "(bytes \<Rightarrow> b256) \<Rightarrow> (bytes \<Rightarrow> ocomp_registration option) \<Rightarrow> ValidatorSet \<Rightarrow> bool" where
  "vset_sound h dec v \<longleftrightarrow> reserved h dec v \<and>
     (\<exists>L. (\<forall>env. ve_keccak env = h \<longrightarrow> registry_view env v L) \<and> (\<forall>a. \<exists>evs. lifecycle_run evs Absent (L a)))"

text \<open>The transitions a message may make on the lifecycle \<open>lc\<close> of the address \<open>a\<close>, with the amounts it reports. \<open>v\<close> is the
  storage the message meets.\<close>

fun call_events :: "address \<Rightarrow> ValidatorSetCall \<Rightarrow> ValidatorLifecycle \<Rightarrow> address \<Rightarrow> lifecycle_event set" where
  "call_events caller (registerValidator x _ _ _) lc a = (if a = x then {Register, Reregister} else {})"
| "call_events caller (setP2pAddress x _ _) lc a = (if a = x then {PublishP2p} else {})"
| "call_events caller (deactivateValidator x) lc a = (if a = x then {BeginExit (lc_bonded_stake lc)} else {})"
| "call_events caller (confirmValidatorReady _) lc a = (if a = caller then {ConfirmReady} else {})"
| "call_events _ _ _ _ = {}"

fun system_events ::
    "vset_env \<Rightarrow> system_operation \<Rightarrow> ValidatorSet \<Rightarrow> ValidatorLifecycle \<Rightarrow> address \<Rightarrow> lifecycle_event set" where
  "system_events env (StakeIncreased x amount minimum) v lc a = (if a = x then increase_events amount minimum else {})"
| "system_events env (Unstaked x amount minimum _) v lc a = (if a = x then unstake_events amount minimum else {})"
| "system_events env (StakeSlashed x amount minimum _) v lc a = (if a = x then slash_events amount minimum else {})"
| "system_events env (UnbondingCompleted x) v lc a =
     (if a = x then {MirrorStake (lc_bonded_stake lc), CompleteUnbonding} else {})"
| "system_events env (OcompSlashed x amount) v lc a = (if a = x then {MirrorStake amount} else {})"
| "system_events env (ExitForced x) v lc a = (if a = x then punish_events False lc else {})"
| "system_events env (Jailed x) v lc a = (if a = x then punish_events True lc else {})"
| "system_events env (TeeExpired x) v lc a = (if a = x then {JailEvent} else {})"
| "system_events env (Unjailed x) v lc a = (if a = x then {Unjail} else {})"
| "system_events env (BoundaryActivated new_set _ _ exclusions) v lc a = boundary_events env new_set exclusions v a"
| "system_events env (ProposerRecorded x) v lc a = (if a = x then {Account} else {})"
| "system_events env (ParticipationRecorded _ absent) v lc a = (if a \<in> set absent then {Account} else {})"
| "system_events env (FinalizedRecorded _ _ absent) v lc a = (if a \<in> set absent then {Account} else {})"
| "system_events env CountersReset v lc a = {Account}"
| "system_events env (EpochUpdated _ _) v lc a = {Account}"
| "system_events env (InactiveCleaned _) v lc a = {Reindex, Cleanup}"
| "system_events _ _ _ _ _ = {}"

fun message_events :: "vset_message \<Rightarrow> ValidatorSet \<Rightarrow> ValidatorLifecycle \<Rightarrow> address \<Rightarrow> lifecycle_event set" where
  "message_events (Call env caller value call) v lc a = call_events caller call lc a"
| "message_events (System env op) v lc a = system_events env op v lc a"

text \<open>A validator that has its stake and waits for the committee.\<close>

definition awaiting :: "ValidatorLifecycle \<Rightarrow> bool" where
  "awaiting lc \<longleftrightarrow> (case lc of WaitingForReadiness _ \<Rightarrow> True | Joining _ \<Rightarrow> True | _ \<Rightarrow> False)"

text \<open>Registries with one validator at address 9, to exhibit runs.\<close>

definition sample_env :: vset_env where
  "sample_env = \<lparr>ve_keccak = (\<lambda>bs. of_nat (length bs)), ve_block_number = 5, ve_chain_id = 1, ve_genesis_hash = 3,
     bls_key_from_bytes = (\<lambda>_. True), bls_sig_from_bytes = (\<lambda>_. True), bls_verify = (\<lambda>_ _ _. True),
     ocomp_decode = (\<lambda>bs. Some \<lparr>oc_chain_id = 1, oc_genesis_hash = 3, oc_validator_identity_hash = 0,
        oc_public_key_sec1 = bs, oc_key_epoch = 1, oc_proof_of_possession = []\<rparr>),
     ocomp_encode = (\<lambda>r. None), ocomp_proof_valid = (\<lambda>_. False), ocomp_identity_hash = (\<lambda>_ _. Some 0)\<rparr>"

definition registry_of :: "ValidatorLifecycle \<Rightarrow> ValidatorSet" where
  "registry_of lc = (vset_genesis 1 10)\<lparr>
     slots := (\<lambda>_. encode_lifecycle Absent)(9 := encode_lifecycle lc),
     address_to_index := (\<lambda>_. 0)(9 := 1), index_to_address := (\<lambda>_. 0)(1 := 9), validator_count := 1,
     consensus_pubkey_hash_to_address := (\<lambda>_. 0)(consensus_pubkey_hash sample_env 7 := 9),
     val_radicle_node_id := (\<lambda>_. 0)(9 := 4), radicle_node_id_to_validator := (\<lambda>_. 0)(4 := 9),
     val_ocomp_registration := (\<lambda>_. [])(9 := [7]), ocomp_key_hash_to_validator := (\<lambda>_. 0)(ve_keccak sample_env [7] := 9)\<rparr>"

definition only :: "ValidatorLifecycle \<Rightarrow> address \<Rightarrow> ValidatorLifecycle" where
  "only lc = (\<lambda>_. Absent)(9 := lc)"

definition retired_validator :: payload_no_stake where
  "retired_validator = payload_no_stake.truncate (sample_validator\<lparr>stake := StakeProjection_zero,
     history := (history sample_validator)\<lparr>last_deactivated_at_height := Some 1\<rparr>\<rparr>)"

definition sample_activation_message :: vset_message where
  "sample_activation_message = System sample_env (BoundaryActivated [9] 77 3 [])"

definition sample_registration :: vset_message where
  "sample_registration = Call sample_env 9 0 (registerValidator 9 (replicate 47 0 @ [7]) 4 (replicate 96 1))"

text \<open>The ring holds the last recorded block hashes at distinct places, and these are the blocks marked as recorded.\<close>

definition ring_inv :: "ValidatorSet \<Rightarrow> bool" where
  "ring_inv v \<longleftrightarrow>
     (\<forall>i < 64. finalized_participation_ring v i \<noteq> 0 \<longrightarrow> finalized_participation_recorded v (finalized_participation_ring v i)) \<and>
     (\<forall>i < 64. \<forall>j < 64. finalized_participation_ring v i = finalized_participation_ring v j \<longrightarrow>
        finalized_participation_ring v i \<noteq> 0 \<longrightarrow> i = j)"

text \<open>The block \<open>fb\<close> was recorded \<open>k\<close> blocks ago.\<close>

definition recorded_before :: "nat \<Rightarrow> b256 \<Rightarrow> ValidatorSet \<Rightarrow> bool" where
  "recorded_before k fb v \<longleftrightarrow> ring_inv v \<and> k < 64 \<and> unat (finalized_participation_ring_seq v) > k \<and>
     finalized_participation_ring v (word_of_nat ((unat (finalized_participation_ring_seq v) - Suc k) mod 64)) = fb"

definition ring_fields :: "ValidatorSet \<Rightarrow> (b256 \<Rightarrow> bool) \<times> (u64 \<Rightarrow> b256) \<times> u64" where
  "ring_fields v = (finalized_participation_recorded v, finalized_participation_ring v, finalized_participation_ring_seq v)"

definition ring_after :: "b256 \<Rightarrow> ValidatorSet \<Rightarrow> ValidatorSet \<Rightarrow> bool" where
  "ring_after fb v w \<longleftrightarrow>
     (let idx = finalized_participation_ring_seq v mod 64; old = finalized_participation_ring v idx in
      unat (finalized_participation_ring_seq w) = Suc (unat (finalized_participation_ring_seq v)) \<and>
      finalized_participation_ring w = (finalized_participation_ring v)(idx := fb) \<and>
      finalized_participation_recorded w = (if old \<noteq> 0 \<and> old \<noteq> fb
        then (finalized_participation_recorded v)(old := False) else finalized_participation_recorded v))"

section \<open>Reservations\<close>

lemma owns_clear: "owns f g \<Longrightarrow> owns (f(a := 0)) (g(f a := 0))"
  unfolding owns_def by (metis fun_upd_other fun_upd_same)

lemma owns_drop: "owns f g \<Longrightarrow> owns (f(a := 0)) g"
  unfolding owns_def by simp

lemma owns_set: "owns f g \<Longrightarrow> a \<noteq> 0 \<Longrightarrow> g k = 0 \<or> g k = a \<Longrightarrow> owns (f(a := k)) (g(k := a))"
  unfolding owns_def by (auto; metis)

lemma owns_keys_set:
  assumes "owns_keys h dec f g" "a \<noteq> 0" "dec bs = Some reg" "g (h (oc_public_key_sec1 reg)) = 0 \<or> g (h (oc_public_key_sec1 reg)) = a"
  shows "owns_keys h dec (f(a := bs)) (g(h (oc_public_key_sec1 reg) := a))"
  using assms unfolding owns_keys_def by (auto; metis)

named_theorems ret_intros "programs that keep a predicate of the storage"

lemma retains_pure: "pure_prog m \<Longrightarrow> retains P m"
  unfolding retains_def by (metis pure_store)

lemma retains_bind [ret_intros]: "retains P m \<Longrightarrow> (\<And>x. retains P (k x)) \<Longrightarrow> retains P (bindM m k)"
  unfolding retains_def bindM_ok by blast

lemma retains_write: "(\<And>v. P v \<Longrightarrow> P (f v)) \<Longrightarrow> retains P (writeM f)"
  by (auto simp: retains_def writeM_ok)

lemma retains_control [ret_intros]:
  "retains P m \<Longrightarrow> retains P (with_checkpoint m)"
  "retains P m \<Longrightarrow> retains P n \<Longrightarrow> retains P (if b then m else n)"
  "retains P m \<Longrightarrow> (\<And>x. retains P (g x)) \<Longrightarrow> retains P (case y of None \<Rightarrow> m | Some x \<Rightarrow> g x)"
  "retains P (l z) \<Longrightarrow> retains P (let y = z in l y)"
  "(\<And>x y. retains P (q x y)) \<Longrightarrow> retains P (case p of (x, y) \<Rightarrow> q x y)"
  by (auto simp: retains_def with_checkpoint_ok split: option.splits prod.splits)

lemma retains_reads [ret_intros]:
  "retains P (retM x)" "retains P (failM e)" "retains P (getsM g)" "retains P (requireM b e)"
  "retains P (unwrapM y e)" "retains P (readM r)" "retains P (resultM q)"
  by (auto intro: retains_pure pure_intros)

lemma retains_forEach [ret_intros]: "(\<And>x. retains P (f x)) \<Longrightarrow> retains P (forEachM f xs)"
  by (induction xs) (auto intro: ret_intros)

lemma retains_lifecycle [ret_intros]:
  assumes "retains P n" "\<And>s. retains P (f1 s)" "\<And>s. retains P (f2 s)" "\<And>s. retains P (f3 s)" "\<And>s. retains P (f4 s)"
    "\<And>s. retains P (f5 s)" "\<And>s. retains P (f6 s)" "\<And>s. retains P (f7 s)" "\<And>s. retains P (f8 s)" "\<And>s. retains P (f9 s)"
  shows "retains P (case lc of Absent \<Rightarrow> n | WaitingForStake s \<Rightarrow> f1 s | WaitingForReadiness s \<Rightarrow> f2 s | Joining s \<Rightarrow> f3 s
    | Active s \<Rightarrow> f4 s | JailRetained s \<Rightarrow> f5 s | Jail s \<Rightarrow> f6 s | Exiting s \<Rightarrow> f7 s | Unbonding s \<Rightarrow> f8 s | Inactive s \<Rightarrow> f9 s)"
  using assms by (cases lc) auto

lemma of_reservationsD:
  assumes "of_reservations P" "P v" "val_radicle_node_id w = val_radicle_node_id v"
    "radicle_node_id_to_validator w = radicle_node_id_to_validator v"
    "delegate_by_validator_role w = delegate_by_validator_role v" "validator_by_role_delegate w = validator_by_role_delegate v"
    "val_ocomp_registration w = val_ocomp_registration v" "ocomp_key_hash_to_validator w = ocomp_key_hash_to_validator v"
  shows "P w"
  using assms unfolding of_reservations_def by blast

lemma of_reserved [ret_intros]: "of_reservations (reserved h dec)"
  by (simp add: of_reservations_def reserved_def)

lemma reserved_writes [ret_intros]:
  "of_reservations P \<Longrightarrow> retains P (writeM (\<lambda>v. v\<lparr>slots := f0 v\<rparr>))"
  "of_reservations P \<Longrightarrow> retains P (writeM (\<lambda>v. v\<lparr>address_to_index := f1 v\<rparr>))"
  "of_reservations P \<Longrightarrow> retains P (writeM (\<lambda>v. v\<lparr>index_to_address := f2 v\<rparr>))"
  "of_reservations P \<Longrightarrow> retains P (writeM (\<lambda>v. v\<lparr>consensus_pubkey_hash_to_address := f3 v\<rparr>))"
  "of_reservations P \<Longrightarrow> retains P (writeM (\<lambda>v. v\<lparr>validator_count := f4 v\<rparr>))"
  "of_reservations P \<Longrightarrow> retains P (writeM (\<lambda>v. v\<lparr>pending_set_change := f5 v\<rparr>))"
  "of_reservations P \<Longrightarrow> retains P (writeM (\<lambda>v. v\<lparr>vset_logs := f6 v\<rparr>))"
  "of_reservations P \<Longrightarrow> retains P (writeM (\<lambda>v. v\<lparr>active_consensus_set_hash := f7 v\<rparr>))"
  "of_reservations P \<Longrightarrow> retains P (writeM (\<lambda>v. v\<lparr>val_ocomp_miss_count := f8 v\<rparr>))"
  "of_reservations P \<Longrightarrow> retains P (writeM (\<lambda>v. v\<lparr>val_ocomp_recovery_deadline := f9 v\<rparr>))"
  "of_reservations P \<Longrightarrow> retains P (writeM (\<lambda>v. v\<lparr>epoch_number := f10 v\<rparr>))"
  "of_reservations P \<Longrightarrow> retains P (writeM (\<lambda>v. v\<lparr>epoch_start_timestamp := f11 v\<rparr>))"
  "of_reservations P \<Longrightarrow> retains P (writeM (\<lambda>v. v\<lparr>epoch_start_block := f12 v\<rparr>))"
  "of_reservations P \<Longrightarrow> retains P (writeM (\<lambda>v. v\<lparr>config_max_validators := f13 v\<rparr>))"
  "of_reservations P \<Longrightarrow> retains P (writeM (\<lambda>v. v\<lparr>finalized_participation_recorded := f14 v\<rparr>))"
  "of_reservations P \<Longrightarrow> retains P (writeM (\<lambda>v. v\<lparr>finalized_participation_ring := f15 v\<rparr>))"
  "of_reservations P \<Longrightarrow> retains P (writeM (\<lambda>v. v\<lparr>finalized_participation_ring_seq := f16 v\<rparr>))"
  by (rule retains_write, erule of_reservationsD, simp_all)+

lemma reserved_steps [ret_intros]:
  "of_reservations P \<Longrightarrow> retains P (set_pending b)"
  "of_reservations P \<Longrightarrow> retains P (emit_vset ev)"
  "of_reservations P \<Longrightarrow> retains P (write_slot a f)"
  unfolding set_pending_def emit_vset_def write_slot_def update_slot_def by (intro ret_intros; assumption)+

lemma reserved_persist [ret_intros]:
  "of_reservations P \<Longrightarrow> retains P (persist_validator_state_delta_inner before after flag)"
  "of_reservations P \<Longrightarrow> retains P (persist_validator_state_delta before after)"
  "of_reservations P \<Longrightarrow> retains P (persist_registry_state_delta before after)"
  unfolding persist_validator_state_delta_def persist_registry_state_delta_def persist_validator_state_delta_inner_def
    persist_lifecycle_fields_def write_changed_def write_consensus_pubkey_def Let_def
  by (intro ret_intros; assumption)+

lemma reserved_transition [ret_intros]: "of_reservations P \<Longrightarrow> retains P (transition env a pick events)"
  unfolding transition_def by (intro ret_intros; assumption)

lemma reserved_exclusions [ret_intros]: "of_reservations P \<Longrightarrow> retains P (check_exclusions new_set seen as)"
proof (induction as arbitrary: seen)
  case Nil
  show ?case by (simp add: ret_intros)
next
  case (Cons a as)
  show ?case unfolding check_exclusions.simps by (intro ret_intros Cons.IH Cons.prems)
qed

lemma reserved_operations [ret_intros]:
  "of_reservations P \<Longrightarrow> retains P (count_missed_vote a)"
  "of_reservations P \<Longrightarrow> retains P (record_proposer env a)"
  "of_reservations P \<Longrightarrow> retains P (reset_epoch_counters env)"
  "of_reservations P \<Longrightarrow> retains P (advance_epoch env ts b)"
  "of_reservations P \<Longrightarrow> retains P (punish_validator env a jailing)"
  "of_reservations P \<Longrightarrow> retains P (apply_reshared_set env new_set set_hash freeze exclusions)"
  "of_reservations P \<Longrightarrow> retains P (set_config_max_validators n)"
  "of_reservations P \<Longrightarrow> retains P (close_ocomp_recovery_window a)"
  "of_reservations P \<Longrightarrow> retains P (set_p2p_address env caller a version encoded)"
  unfolding count_missed_vote_def record_proposer_def reset_epoch_counters_def advance_epoch_def punish_validator_def
    apply_reshared_set_def set_config_max_validators_def close_ocomp_recovery_window_def set_p2p_address_def
  by (intro ret_intros; assumption)+

lemma reserved_participation [ret_intros]:
  "of_reservations P \<Longrightarrow> retains P (record_participation env voters absent)"
  "of_reservations P \<Longrightarrow> retains P (record_finalized_participation env voters absent)"
  unfolding record_participation_def record_finalized_participation_def by (intro ret_intros; assumption)+

lemma leads_keep: "retains P m \<Longrightarrow> P v \<Longrightarrow> (\<And>w x. P w \<Longrightarrow> leads w (k x) Q) \<Longrightarrow> leads v (bindM m k) Q"
  unfolding retains_def leads_def bindM_ok by blast

lemma leads_end: "retains P m \<Longrightarrow> P v \<Longrightarrow> leads v m P"
  unfolding retains_def leads_def by blast

lemma reserved_register:
  assumes "node_id \<noteq> 0" "radicle_node_id_to_validator v node_id = ro" "ro = 0 \<or> ro = a" "reserved h dec v"
  shows "leads v (register_first env a pk node_id ro existing) (reserved h dec)"
proof (cases "ro = a")
  case True
  then show ?thesis by (simp add: register_first_guard)
next
  case False
  let ?P = "\<lambda>w. reserved h dec w \<and> radicle_node_id_to_validator w node_id = 0"
  have P: "of_reservations ?P" by (simp add: of_reservations_def reserved_def)
  have v: "?P v" and a: "a \<noteq> 0" using assms False by auto
  have final: "reserved h dec (w\<lparr>consensus_pubkey_hash_to_address := c, val_radicle_node_id := (val_radicle_node_id w)(a := node_id),
      radicle_node_id_to_validator := (radicle_node_id_to_validator w)(node_id := a), validator_count := n,
      pending_set_change := b, vset_logs := l\<rparr>)" if "?P w" for w c n b l
    using that a owns_set [of "val_radicle_node_id w" "radicle_node_id_to_validator w" a node_id] unfolding reserved_def by simp
  show ?thesis
    unfolding register_first_def set_pending_def emit_vset_def
    apply (intro lead_intros)
    apply (rule leads_keep [of ?P], intro ret_intros P)
     apply (rule of_reservationsD [OF P v]; simp)
    apply (intro lead_intros)
    apply (drule final)
    apply simp
    done
qed

lemma reserved_reregister [ret_intros]:
  "of_reservations P \<Longrightarrow> retains P (reregister_inactive env a pk node_id ro existing index)"
  unfolding reregister_inactive_def by (intro ret_intros; assumption)

lemma reserved_registration:
  "retains (reserved h dec) (register_validator_inner env caller a pk node_id sig allow)"
proof -
  have "leads v (register_validator_inner env caller a pk node_id sig allow) (reserved h dec)" if v: "reserved h dec v" for v
  proof -
    have final: "leads v (case lc_registry_index (vs_lifecycle x) of
         Some index \<Rightarrow> reregister_inactive env a pk node_id (radicle_node_id_to_validator v node_id) x index
       | None \<Rightarrow> register_first env a pk node_id (radicle_node_id_to_validator v node_id) x) (reserved h dec)"
      if "node_id \<noteq> 0" "radicle_node_id_to_validator v node_id = 0 \<or> radicle_node_id_to_validator v node_id = a" for x
      using reserved_register [OF that(1) refl that(2) v] leads_end [OF reserved_reregister [OF of_reserved] v]
      by (simp split: option.split)
    show ?thesis
      unfolding register_validator_inner_def ensure_not_operational_delegate_def
      apply (intro lead_intros)
      apply (rule leads_pure, intro pure_intros)
      apply (intro lead_intros)
      apply (rule leads_pure, intro pure_intros)
      apply (rule leads_pure, intro pure_intros)
      apply (intro lead_intros)
      apply (rule final; assumption)
      done
  qed
  then show ?thesis unfolding retains_def leads_def by blast
qed

lemma reserved_clear [ret_intros]: "retains (reserved h dec) (clear_validator_storage env a)"
proof -
  have "leads v (clear_validator_storage env a) (reserved h dec)" if v: "reserved h dec v" for v
  proof -
    have tail: "retains (reserved h dec) (bindM (write_consensus_pubkey a 0) k)" if "\<And>x. retains (reserved h dec) (k x)" for k :: "unit \<Rightarrow> unit vset_prog"
      unfolding write_consensus_pubkey_def by (intro ret_intros that)
    have w: "reserved h dec (v\<lparr>consensus_pubkey_hash_to_address := c,
        radicle_node_id_to_validator := (radicle_node_id_to_validator v)(val_radicle_node_id v a := 0),
        val_radicle_node_id := (val_radicle_node_id v)(a := 0)\<rparr>)" for c
      using v owns_clear [of "val_radicle_node_id v" "radicle_node_id_to_validator v" a] unfolding reserved_def by simp
    have w0: "reserved h dec (v\<lparr>consensus_pubkey_hash_to_address := c, val_radicle_node_id := (val_radicle_node_id v)(a := 0)\<rparr>)" for c
      using v owns_drop [of "val_radicle_node_id v" "radicle_node_id_to_validator v" a] unfolding reserved_def by simp
    show ?thesis
      unfolding clear_validator_storage_def
      apply (intro lead_intros)
       apply (rule leads_end, intro tail ret_intros)
       apply (simp add: w)
      apply (rule leads_end, intro tail ret_intros)
      apply (simp add: w0)
      done
  qed
  then show ?thesis unfolding retains_def leads_def by blast
qed

lemma leads_tail_if [lead_intros]: "(b \<Longrightarrow> leads v m Q) \<Longrightarrow> (\<not> b \<Longrightarrow> leads v n Q) \<Longrightarrow> leads v (if b then m else n) Q"
  by simp

lemma reserved_loop [ret_intros]: "retains (reserved h dec) (cleanup_loop k env mx i n r)"
proof (induction k arbitrary: i n r)
  case 0
  show ?case by (simp add: ret_intros)
next
  case (Suc k)
  show ?case unfolding cleanup_loop.simps remove_index_def by (intro ret_intros Suc.IH)
qed

lemma reserved_cleanup [ret_intros]: "retains (reserved h dec) (cleanup_inactive_validators env mx)"
  unfolding cleanup_inactive_validators_def by (intro ret_intros)

lemma registered_address:
  assumes "registry_view env v L" "get_validator env a v = Inr r" "r \<noteq> None"
  shows "a \<noteq> 0"
proof -
  have "address_to_index v a \<noteq> 0" using assms(2,3) by (auto simp: get_validator_def split: if_splits)
  then show ?thesis using view_absent [OF assms(1), of a] view_address_nonzero [OF assms(1)] by blast
qed

lemma delegates_set:
  assumes "\<forall>r. owns (\<lambda>b. D b r) (V r) \<and> V r 0 = 0" "owns ((\<lambda>b. D b q)(a := d)) g" "g 0 = 0"
  shows "\<forall>r. owns (\<lambda>b. (D(a := (D a)(q := d))) b r) ((V(q := g)) r) \<and> (V(q := g)) r 0 = 0"
proof
  fix r
  have "(\<lambda>b. (D(a := (D a)(q := d))) b r) = (if r = q then (\<lambda>b. D b q)(a := d) else (\<lambda>b. D b r))" by auto
  then show "owns (\<lambda>b. (D(a := (D a)(q := d))) b r) ((V(q := g)) r) \<and> (V(q := g)) r 0 = 0"
    using assms by (simp del: fun_upd_apply) (simp add: assms)
qed

lemma reserved_delegates:
  assumes "reserved h dec v" "owns ((\<lambda>b. delegate_by_validator_role v b q)(a := d)) g" "g 0 = 0"
  shows "reserved h dec (v\<lparr>delegate_by_validator_role := (delegate_by_validator_role v)(a := (delegate_by_validator_role v a)(q := d)),
     validator_by_role_delegate := (validator_by_role_delegate v)(q := g), vset_logs := l\<rparr>)"
  using assms(1) delegates_set [of "delegate_by_validator_role v" "validator_by_role_delegate v" q a d g] assms(2,3)
  unfolding reserved_def by (simp del: fun_upd_apply)

lemma reserved_revoke: "retains (reserved h dec) (revoke_delegate env a role)"
proof -
  let ?r = "role_id role"
  have "leads v (revoke_delegate env a role) (reserved h dec)" if v: "reserved h dec v" for v
  proof -
    have ow: "owns (\<lambda>b. delegate_by_validator_role v b ?r) (validator_by_role_delegate v ?r)" "validator_by_role_delegate v ?r 0 = 0"
      using v unfolding reserved_def by blast+
    note w = reserved_delegates [OF v owns_clear [OF ow(1), of a]]
    show ?thesis
      unfolding revoke_delegate_def ensure_registered_validator_def emit_vset_def
      apply (intro lead_intros)
       apply (simp add: leads_def retM_ok v)
      apply (rule back_subst [where P = "reserved h dec", OF w])
       apply (simp_all add: ow)
      done
  qed
  then show ?thesis unfolding retains_def leads_def by blast
qed

lemma reserved_set_delegate:
  assumes view: "registry_view env v L" and v: "reserved h dec v"
  shows "leads v (set_delegate env a role d) (reserved h dec)"
proof -
  let ?r = "role_id role" and ?old = "delegate_by_validator_role v a (role_id role)"
  have ow: "owns (\<lambda>b. delegate_by_validator_role v b ?r) (validator_by_role_delegate v ?r)" "validator_by_role_delegate v ?r 0 = 0"
    using v unfolding reserved_def by blast+
  have w: "reserved h dec (v\<lparr>delegate_by_validator_role := (delegate_by_validator_role v)(a := (delegate_by_validator_role v a)(?r := d)),
     validator_by_role_delegate := (validator_by_role_delegate v)(?r := g(d := a)), vset_logs := l\<rparr>)"
    if "a \<noteq> 0" "d \<noteq> 0" "g d = 0 \<or> g d = a" "g 0 = 0" "owns ((\<lambda>b. delegate_by_validator_role v b ?r)(a := 0)) g" for g l
    using reserved_delegates [OF v, of ?r a d "g(d := a)"] owns_set [OF that(5,1,3)] that(2,4) by simp
  show ?thesis
    unfolding set_delegate_def ensure_registered_validator_def emit_vset_def
    apply (intro lead_intros)
      apply (simp add: leads_def retM_ok v)
    subgoal premises p
      using w [of "(validator_by_role_delegate v ?r)(?old := 0)"] registered_address [OF view p(1,2)] p owns_clear [OF ow(1), of a] ow(2)
      by (simp add: leads_def writeM_ok bindM_ok retM_ok)
    subgoal premises p
      using w [of "validator_by_role_delegate v ?r"] registered_address [OF view p(1,2)] p owns_drop [OF ow(1), of a] ow(2)
      by (simp add: leads_def writeM_ok bindM_ok retM_ok)
    done
qed

lemma reserved_keys:
  assumes "reserved h dec v" "a \<noteq> 0" "dec bs = Some reg"
    and "ocomp_key_hash_to_validator v (h (oc_public_key_sec1 reg)) = 0 \<or> ocomp_key_hash_to_validator v (h (oc_public_key_sec1 reg)) = a"
  shows "reserved h dec (v\<lparr>val_ocomp_registration := (val_ocomp_registration v)(a := bs),
     ocomp_key_hash_to_validator := (ocomp_key_hash_to_validator v)(h (oc_public_key_sec1 reg) := a)\<rparr>)"
  using assms owns_keys_set [of h dec "val_ocomp_registration v" "ocomp_key_hash_to_validator v" a bs reg]
  unfolding reserved_def by simp

lemma confirm_next_absent: "vs_lifecycle st = Absent \<Longrightarrow> confirm_next st \<noteq> Inr lc"
  by (simp add: confirm_next_def)

lemma reserved_confirm:
  assumes view: "registry_view env v L" and v: "reserved (ve_keccak env) (ocomp_decode env) v"
  shows "leads v (confirm_validator_ready env a encoded) (reserved (ve_keccak env) (ocomp_decode env))"
proof -
  have a0: "a \<noteq> 0" if "validator_state env a v = Inr st" "confirm_next st = Inr lc" for st lc
  proof -
    have "st = \<lparr>vs_address = a, vs_lifecycle = L a\<rparr>" using that(1) by (simp add: validator_state_view [OF view])
    then show ?thesis using confirm_next_absent [of st] that(2) view_address_nonzero [OF view, of a] by fastforce
  qed
  show ?thesis
    unfolding confirm_validator_ready_def Let_def
    apply (intro lead_intros)
    apply (rule leads_pure)
     apply (intro pure_intros)
    apply (intro lead_intros)
    apply (rule leads_end, intro ret_intros)
    subgoal premises p
      using reserved_keys [OF v a0 [OF p(1,2)] p(3)] p by simp
    done
qed

lemma reserved_founders:
  assumes "forEachM write_founder xs s = (Inr u, t)" "reserved h dec (store s)" "importable h dec (store s) xs"
  shows "reserved h dec (store t)"
  using assms
proof (induction xs arbitrary: s)
  case Nil
  then show ?case by (simp add: retM_ok)
next
  case (Cons x xs)
  obtain a k bs where x: "x = (a, k, bs)" by (cases x)
  from Cons.prems(3) x obtain reg where p: "a \<noteq> 0" "ocomp_key_hash_to_validator (store s) k = 0" "dec bs = Some reg"
    "h (oc_public_key_sec1 reg) = k" unfolding importable_def by auto
  from Cons.prems(1) x obtain s1 where r: "forEachM write_founder xs s1 = (Inr u, t)"
    and s1: "store s1 = (store s)\<lparr>val_ocomp_registration := (val_ocomp_registration (store s))(a := bs),
      ocomp_key_hash_to_validator := (ocomp_key_hash_to_validator (store s))(k := a)\<rparr>"
    by (auto simp: bindM_ok writeM_ok write_founder_def)
  have "reserved h dec (store s1)" unfolding s1 using reserved_keys [OF Cons.prems(2) p(1,3)] p(2,4) by simp
  moreover have "importable h dec (store s1) xs" using Cons.prems(3) unfolding s1 x importable_def by (auto; force)
  ultimately show ?case by (rule Cons.IH [OF r])
qed

lemma founder_state_ok:
  "founder_state env v a reg = Inr False \<Longrightarrow> ocomp_key_hash_to_validator v (ve_keccak env (oc_public_key_sec1 reg)) = 0"
  by (auto simp: founder_state_def Let_def split: if_splits)

lemma prepare_founders_ok:
  assumes "prepare_founders env v is ks xs = Inr (prepared, 0)"
    and codec: "\<And>reg bs. ocomp_encode env reg = Some bs \<Longrightarrow> ocomp_decode env bs = Some reg"
  shows "map (fst \<circ> snd) prepared = map (\<lambda>(r, reg). ve_keccak env (oc_public_key_sec1 reg)) xs"
    and "\<forall>(a, k, bs) \<in> set prepared. a \<in> vr_validator_address ` set (map fst xs) \<and> ocomp_key_hash_to_validator v k = 0 \<and>
        (\<exists>reg. ocomp_decode env bs = Some reg \<and> ve_keccak env (oc_public_key_sec1 reg) = k)"
proof -
  have "map (fst \<circ> snd) prepared = map (\<lambda>(r, reg). ve_keccak env (oc_public_key_sec1 reg)) xs \<and>
    (\<forall>(a, k, bs) \<in> set prepared. a \<in> vr_validator_address ` set (map fst xs) \<and> ocomp_key_hash_to_validator v k = 0 \<and>
        (\<exists>reg. ocomp_decode env bs = Some reg \<and> ve_keccak env (oc_public_key_sec1 reg) = k))"
    using assms(1)
  proof (induction xs arbitrary: "is" ks prepared)
    case (Cons x xs)
    obtain r reg where x: "x = (r, reg)" by (cases x)
    from Cons.prems obtain bs is' ks' rest where e: "ocomp_encode env reg = Some bs"
      and f: "founder_state env v (vr_validator_address r) reg = Inr False"
      and q: "prepare_founders env v is' ks' xs = Inr (rest, 0)"
      and p: "prepared = (vr_validator_address r, ve_keccak env (oc_public_key_sec1 reg), bs) # rest"
      unfolding x by (auto split: if_splits)
    show ?case using Cons.IH [OF q] founder_state_ok [OF f] codec [OF e] unfolding p x by auto
  qed simp
  then show "map (fst \<circ> snd) prepared = map (\<lambda>(r, reg). ve_keccak env (oc_public_key_sec1 reg)) xs"
    "\<forall>(a, k, bs) \<in> set prepared. a \<in> vr_validator_address ` set (map fst xs) \<and> ocomp_key_hash_to_validator v k = 0 \<and>
        (\<exists>reg. ocomp_decode env bs = Some reg \<and> ve_keccak env (oc_public_key_sec1 reg) = k)" by blast+
qed

lemma prepare_founders_distinct:
  "prepare_founders env v is ks xs = Inr r \<Longrightarrow>
   distinct (map (oc_public_key_sec1 \<circ> snd) xs) \<and> (oc_public_key_sec1 \<circ> snd) ` set xs \<inter> ks = {}"
proof (induction xs arbitrary: "is" ks r)
  case (Cons x xs)
  obtain rec reg where x: "x = (rec, reg)" by (cases x)
  from Cons.prems obtain is' r' where k: "oc_public_key_sec1 reg \<notin> ks"
    and q: "prepare_founders env v is' (insert (oc_public_key_sec1 reg) ks) xs = Inr r'"
    unfolding x by auto
  from Cons.IH [OF q] k show ?case unfolding x by auto
qed simp

lemma traverseR_member: "traverseR f xs = Inr ys \<Longrightarrow> y \<in> set ys \<Longrightarrow> \<exists>x. f x = Inr y"
  by (induction xs arbitrary: ys) auto

lemma record_registered:
  assumes "registry_view env v L" "read_validator_record env a v = (Inr r :: (unit, ValidatorRecord) result)"
  shows "vr_validator_address r = a \<and> L a \<noteq> Absent"
proof -
  have st: "validator_state env a v = (Inr \<lparr>vs_address = a, vs_lifecycle = L a\<rparr> :: (unit, ValidatorState) result)"
    by (rule validator_state_view [OF assms(1)])
  show ?thesis using assms(2) unfolding read_validator_record_def st Let_def by (cases "L a") auto
qed

lemma matching_registered:
  assumes "registry_view env v L" "get_validators_matching env P v = (Inr rs :: (unit, ValidatorRecord list) result)" "r \<in> set rs"
  shows "vr_validator_address r \<noteq> 0"
proof -
  from assms(2) obtain as where "traverseR (\<lambda>a. read_validator_record env a v) as = (Inr rs :: (unit, ValidatorRecord list) result)"
    unfolding get_validators_matching_def by auto
  from traverseR_member [OF this assms(3)] obtain a where "read_validator_record env a v = (Inr r :: (unit, ValidatorRecord) result)" ..
  from record_registered [OF assms(1) this] view_address_nonzero [OF assms(1)] show ?thesis by auto
qed

lemma leads_forEach_founders:
  assumes "reserved h dec v" "importable h dec v xs"
  shows "leads v (forEachM write_founder xs) (reserved h dec)"
  using assms reserved_founders unfolding leads_def by blast

lemma reserved_import:
  assumes view: "registry_view env v L" and v: "reserved (ve_keccak env) (ocomp_decode env) v" and codec: "codec_ok env"
    and inj: "inj_on (ve_keccak env) (oc_public_key_sec1 ` set rs)"
  shows "leads v (initialize_founder_ocomp_registrations env rs) (reserved (ve_keccak env) (ocomp_decode env))"
proof -
  have imp: "importable (ve_keccak env) (ocomp_decode env) v prepared"
    if act: "get_active_validators env v = (Inr active :: (unit, ValidatorRecord list) result)" and len: "length active = length rs"
      and pr: "prepare_founders env v {} {} (zip active rs) = Inr (prepared, 0)" for active prepared
  proof -
    have c: "\<And>reg bs. ocomp_encode env reg = Some bs \<Longrightarrow> ocomp_decode env bs = Some reg" using codec unfolding codec_ok_def by blast
    note p = prepare_founders_ok [OF pr c]
    have "distinct (map oc_public_key_sec1 rs)"
      using prepare_founders_distinct [OF pr] len by (simp flip: map_map)
    then have d: "distinct (map (\<lambda>reg. ve_keccak env (oc_public_key_sec1 reg)) rs)"
      using inj by (auto simp: distinct_map comp_inj_on [unfolded comp_def])
    have "map (\<lambda>(r, reg). ve_keccak env (oc_public_key_sec1 reg)) (zip active rs) = map (\<lambda>reg. ve_keccak env (oc_public_key_sec1 reg)) rs"
      using len by (induction active rs rule: list_induct2) simp_all
    moreover have "a \<noteq> 0" if "a \<in> vr_validator_address ` set (map fst (zip active rs))" for a
      using that matching_registered [OF view act [unfolded get_active_validators_def]] len by (auto dest: set_zip_leftD)
    ultimately show ?thesis using p d unfolding importable_def by fastforce
  qed
  show ?thesis
    unfolding initialize_founder_ocomp_registrations_def
    apply (intro lead_intros)
    apply clarsimp
    apply (intro conjI impI lead_intros)
     apply (simp add: leads_def retM_ok v)
    apply (rule leads_forEach_founders [OF v])
    using imp by blast
qed

section \<open>The contract\<close>

lemma view_env: "ve_keccak env = ve_keccak env' \<Longrightarrow> registry_view env v L \<longleftrightarrow> registry_view env' v L"
  by (simp add: registry_view_def consensus_pubkey_hash_def)

lemma reply_neutral [track_intros]: "neutral env (reply f view)"
  unfolding reply_def by (intro track_intros)

lemma reply_retains [ret_intros]: "retains P (reply f view)"
  unfolding reply_def by (intro ret_intros)

lemma tracks_done: "tracks env E L m \<Longrightarrow> tracks env E L (done_with m)"
  unfolding done_with_def by (rule tracks_ret)

lemma tracks_ignoring: "tracks env E L m \<Longrightarrow> tracks env E L (ignoring m)"
  unfolding ignoring_def by (rule tracks_ret)

lemma leads_done: "leads v m Q \<Longrightarrow> leads v (done_with m) Q"
  unfolding done_with_def leads_def bindM_ok retM_ok by auto

lemma call_tracks: "tracks env (\<lambda>a. call_events caller call (L a) a) L (vset_call env caller call)"
  by (cases call)
     (auto simp: register_call_def register_validator_with_sig_def
       intro!: tracks_done tracks_bind track_intros exit_tracks confirm_tracks set_p2p_tracks tracks_register_validator
         set_delegate_neutral revoke_delegate_neutral tracks_neutral [OF reply_neutral] tracks_neutral [OF set_delegate_neutral]
         tracks_neutral [OF revoke_delegate_neutral])

lemma system_tracks:
  "(\<And>new_set set_hash freeze exclusions. op \<noteq> BoundaryActivated new_set set_hash freeze exclusions) \<Longrightarrow>
   tracks env (\<lambda>a. system_events env op v (L a) a) L (system_step env op)"
  by (cases op)
     (auto intro!: stake_mirror_tracks complete_unbonding_tracks exit_tracks tee_expiry_tracks tracks_ignoring
       hook_tracks reset_epoch_counters_tracks advance_epoch_tracks update_epoch_tracks cleanup_tracks
       tracks_neutral [OF set_max_neutral] tracks_neutral [OF record_ocomp_miss_neutral] tracks_neutral [OF close_ocomp_neutral]
       tracks_neutral [OF resolve_ocomp_neutral] tracks_neutral [OF founders_neutral])

lemma check_exclusions_pure: "pure_prog (check_exclusions new_set seen as)"
proof (induction as arbitrary: seen)
  case Nil
  show ?case by (simp add: pure_intros)
next
  case (Cons a as)
  show ?case unfolding check_exclusions.simps by (intro pure_intros Cons.IH)
qed

lemma activate_is_boundary:
  assumes "activate_boundary_set env new_set set_hash freeze exclusions s = (Inr u, t)"
  shows "\<exists>s'. store s' = store s \<and> apply_reshared_set env new_set set_hash freeze exclusions s' = (Inr u, t)"
  using assms unfolding activate_boundary_set_def
  by (auto simp: bindM_ok requireM_ok readM_ok getsM_ok split: if_splits dest: pure_store [OF check_exclusions_pure])

lemma system_evolves:
  assumes v: "registry_view env (store s) L" and run: "system_step env op s = (Inr u, t)"
  shows "\<exists>L'. registry_view env (store t) L' \<and> evolves (\<lambda>a. system_events env op (store s) (L a) a) L L'"
proof (cases "\<exists>new_set set_hash freeze exclusions. op = BoundaryActivated new_set set_hash freeze exclusions")
  case True
  then obtain new_set set_hash freeze exclusions where op: "op = BoundaryActivated new_set set_hash freeze exclusions" by blast
  from run [unfolded op] activate_is_boundary obtain s' where
    s': "store s' = store s" "apply_reshared_set env new_set set_hash freeze exclusions s' = (Inr u, t)" by fastforce
  from boundary_effect [OF _ s'(2), of L] v show ?thesis unfolding op s'(1) by auto
next
  case False
  then show ?thesis using system_tracks [of op env "store s" L] v run unfolding tracks_def by blast
qed

lemma message_evolves:
  assumes v: "\<And>env. ve_keccak env = h \<Longrightarrow> registry_view env (store s) L" and ok: "message_ok h dec m"
    and run: "vset_run m s = (Inr r, t)"
  shows "\<exists>L'. (\<forall>env. ve_keccak env = h \<longrightarrow> registry_view env (store t) L') \<and>
     evolves (\<lambda>a. message_events m (store s) (L a) a) L L'"
proof -
  have "\<exists>env L'. ve_keccak env = h \<and> registry_view env (store t) L' \<and> evolves (\<lambda>a. message_events m (store s) (L a) a) L L'"
  proof (cases m)
    case (Call env caller coins call)
    have e: "ve_keccak env = h" using ok unfolding Call by simp
    have "vset_call env caller call s = (Inr r, t)"
      using run unfolding Call by (simp add: with_checkpoint_ok vset_dispatch_def bindM_ok requireM_ok)
    then show ?thesis using call_tracks [of env caller call L] v [OF e] e unfolding tracks_def Call message_events.simps by blast
  next
    case (System env op)
    have e: "ve_keccak env = h" using ok unfolding System by simp
    obtain u where "system_step env op s = (Inr u, t)"
      using run unfolding System by (auto simp: with_checkpoint_ok done_with_def bindM_ok retM_ok)
    from system_evolves [OF v [OF e] this] e show ?thesis unfolding System message_events.simps by blast
  qed
  then obtain env L' where "ve_keccak env = h" "registry_view env (store t) L'" "evolves (\<lambda>a. message_events m (store s) (L a) a) L L'"
    by blast
  then show ?thesis using view_env by metis
qed

lemma retains_done [ret_intros]: "retains P m \<Longrightarrow> retains P (done_with m)"
  unfolding done_with_def by (intro ret_intros)

lemma retains_ignoring [ret_intros]: "retains P m \<Longrightarrow> retains P (ignoring m)"
  unfolding ignoring_def by (intro ret_intros)

lemma call_reserved:
  assumes view: "registry_view env v L" and v: "reserved (ve_keccak env) (ocomp_decode env) v"
  shows "leads v (vset_call env caller call) (reserved (ve_keccak env) (ocomp_decode env))"
proof -
  let ?R = "reserved (ve_keccak env) (ocomp_decode env)"
  have keep: "leads v m ?R" if "retains ?R m" for m :: "'z vset_prog" by (rule leads_end [of ?R, OF that v])
  have delegate: "leads v (vset_call env caller (setDelegate role d)) ?R" for role d
    by (simp, intro leads_done leads_result reserved_set_delegate [OF view v])
  have confirm: "leads v (vset_call env caller (confirmValidatorReady bs)) ?R" for bs
    by (simp, intro leads_done reserved_confirm [OF view v])
  show ?thesis
    by (cases call)
       (simp_all only: delegate confirm, (simp only: vset_call.simps register_call_def register_validator_with_sig_def
          deactivate_validator_def, intro keep ret_intros reserved_revoke reserved_registration of_reserved)+)
qed

lemma system_reserved:
  assumes view: "registry_view env v L" and v: "reserved (ve_keccak env) (ocomp_decode env) v"
    and ok: "message_ok (ve_keccak env) (ocomp_decode env) (System env op)"
  shows "leads v (system_step env op) (reserved (ve_keccak env) (ocomp_decode env))"
proof -
  let ?R = "reserved (ve_keccak env) (ocomp_decode env)"
  have keep: "leads v m ?R" if "retains ?R m" for m :: "'z vset_prog" by (rule leads_end [of ?R, OF that v])
  have founders: "leads v (system_step env (FoundersImported rs)) ?R" if "op = FoundersImported rs" for rs
    using ok reserved_import [OF view v] unfolding that by simp
  show ?thesis
    by (cases op)
       (simp_all only: founders, (simp only: system_step.simps record_stake_increase_def record_unstake_def record_stake_slash_def
          complete_unbonding_of_def record_ocomp_miss_def record_ocomp_bonded_slash_def resolve_ocomp_recovery_window_def
          force_exit_validator_def jail_validator_def jail_validator_for_tee_expiry_def unjail_after_stake_check_def
          activate_boundary_set_def hook_record_proposer_def hook_record_participation_def
          hook_record_finalized_participation_def advance_ring_def update_epoch_def Let_def,
          intro keep ret_intros of_reserved)+)
qed

lemma genesis_view: "registry_view env (vset_genesis owner n) (\<lambda>_. Absent)"
  using index_None [of Absent] pubkey_None [of Absent] by (auto simp: registry_view_def vset_genesis_def nonzero_def)

lemma genesis_sound: "vset_sound h dec (vset_genesis owner n)"
proof -
  have "reserved h dec (vset_genesis owner n)" by (simp add: reserved_def vset_genesis_def owns_def owns_keys_def)
  then show ?thesis unfolding vset_sound_def using genesis_view run_none by blast
qed

interpretation lvset: atomic_contract vset_run "message_ok h dec" "vset_sound h dec" for h dec
proof
  fix m
  show "atomic_prog (vset_run m)" by (cases m) (simp_all add: atomic_with_checkpoint)
next
  fix m s r t
  assume ok: "message_ok h dec m" and s: "vset_sound h dec (store s)" and run: "vset_run m s = (Inr r, t)"
  from s obtain L where R: "reserved h dec (store s)" and V: "\<And>env. ve_keccak env = h \<Longrightarrow> registry_view env (store s) L"
    and E: "\<And>a. \<exists>evs. lifecycle_run evs Absent (L a)" unfolding vset_sound_def by blast
  have "reserved h dec (store t)"
  proof (cases m)
    case (Call env caller v call)
    then have e: "ve_keccak env = h" "ocomp_decode env = dec" using ok by simp_all
    have "vset_call env caller call s = (Inr r, t)"
      using run unfolding Call by (simp add: with_checkpoint_ok vset_dispatch_def bindM_ok requireM_ok)
    moreover have "leads (store s) (vset_call env caller call) (reserved h dec)"
      using call_reserved [OF V, of env caller call] e R by simp
    ultimately show ?thesis unfolding leads_def by blast
  next
    case (System env op)
    then have e: "ve_keccak env = h" "ocomp_decode env = dec" using ok by simp_all
    have "done_with (system_step env op) s = (Inr r, t)" using run unfolding System by (simp add: with_checkpoint_ok)
    moreover have "leads (store s) (done_with (system_step env op)) (reserved h dec)"
      using leads_done [OF system_reserved [OF V, of env op]] e R ok unfolding System by simp
    ultimately show ?thesis unfolding leads_def by blast
  qed
  moreover from message_evolves [OF V ok run] obtain L' where w: "\<forall>env. ve_keccak env = h \<longrightarrow> registry_view env (store t) L'"
    and ev: "evolves (\<lambda>a. message_events m (store s) (L a) a) L L'" by blast
  moreover have "\<exists>evs. lifecycle_run evs Absent (L' a)" for a
    using E [of a] ev run_append unfolding evolves_def runs_in_def by blast
  ultimately show "vset_sound h dec (store t)" unfolding vset_sound_def by blast
qed

lemma one_view:
  assumes wf: "wf_lifecycle lc" and i: "lc_registry_index lc = Some 1" "lc_consensus_pubkey lc = Some 7"
    and env: "ve_keccak env = ve_keccak sample_env"
  shows "registry_view env (registry_of lc) (only lc)"
proof -
  have h: "consensus_pubkey_hash env 7 = consensus_pubkey_hash sample_env 7" using env by (simp add: consensus_pubkey_hash_def)
  have one: "i = 1" if "0 < i" "i \<le> 1" for i :: u64 using that by (simp add: word_less_nat_alt word_le_nat_alt word_unat_eq_iff)
  show ?thesis
    unfolding registry_view_def registry_of_def only_def vset_genesis_def
    using index_None [of Absent] pubkey_None [of Absent] wf i h by (auto simp: nonzero_def dest: one)
qed

lemma one_reserved: "reserved (ve_keccak sample_env) (ocomp_decode sample_env) (registry_of lc)"
proof -
  have "owns_keys (ve_keccak sample_env) (ocomp_decode sample_env) (val_ocomp_registration (registry_of lc))
      (ocomp_key_hash_to_validator (registry_of lc))"
    unfolding owns_keys_def registry_of_def by (simp add: vset_genesis_def sample_env_def)
  moreover have "owns (val_radicle_node_id (registry_of lc)) (radicle_node_id_to_validator (registry_of lc))"
    unfolding owns_def registry_of_def by simp
  ultimately show ?thesis unfolding reserved_def by (simp add: registry_of_def vset_genesis_def owns_def)
qed

lemma one_sound:
  assumes "lifecycle_run evs Absent lc" "lc_registry_index lc = Some 1" "lc_consensus_pubkey lc = Some 7"
  shows "vset_sound (ve_keccak sample_env) (ocomp_decode sample_env) (registry_of lc)"
proof -
  have wf: "wf_lifecycle lc" by (rule lifecycle_run_wf [OF assms(1) wf_Absent])
  have "\<exists>evs. lifecycle_run evs Absent (only lc a)" for a
    using assms(1) run_none [of Absent] unfolding only_def by (cases "a = 9") auto
  then show ?thesis unfolding vset_sound_def using one_view [OF wf assms(2,3)] one_reserved by blast
qed

lemma joining_run: "lifecycle_run [Register, ReachMinimum 10 10, ConfirmReady] Absent (Joining sample_validator)"
proof -
  let ?w = "fresh_waiting 1 7 5"
  have a: "lifecycle_step Register Absent (WaitingForStake ?w)" by (rule register_step) simp_all
  have b: "lifecycle_step (ReachMinimum 10 10) (WaitingForStake ?w) (WaitingForReadiness sample_validator)"
    using step_reach_minimum [of ?w sample_stake 10 sample_validator] by (simp add: lc_ok sample_validator_def sample_stake_def)
  have c: "lifecycle_step ConfirmReady (WaitingForReadiness sample_validator) (Joining sample_validator)"
    using step_confirm_ready [of sample_validator] by (simp add: confirm_ready_def)
  show ?thesis using run_step [OF a run_step [OF b run_step [OF c run_none]]] .
qed

lemma retired_run: "\<exists>evs. lifecycle_run evs Absent (Inactive retired_validator)"
proof -
  let ?e = "sample_validator\<lparr>stake := StakeProjection_zero, history := (history sample_validator)\<lparr>last_deactivated_at_height := Some 1\<rparr>\<rparr>"
  have a: "lifecycle_step (BeginExit 0) (Active sample_validator) (Exiting ?e)"
    using step_begin_exit [of sample_validator StakeProjection_zero 1 ?e] by (simp add: lc_ok StakeProjection_zero_def)
  have b: "lifecycle_step ExcludeExiting (Exiting ?e) (Unbonding ?e)"
    using step_exclude_exiting [of ?e] by (simp add: exclude_exiting_at_boundary_def)
  have c: "lifecycle_step CompleteUnbonding (Unbonding ?e) (Inactive retired_validator)"
    by (rule step_complete) (simp add: lc_ok StakeProjection_zero_def retired_validator_def)
  show ?thesis using run_more [OF run_more [OF run_more [OF sample_run a] b] c] by blast
qed

lemma sample_identity:
  "lc_registry_index (Joining sample_validator) = Some 1" "lc_consensus_pubkey (Joining sample_validator) = Some 7"
  "lc_registry_index (Inactive retired_validator) = Some 1" "lc_consensus_pubkey (Inactive retired_validator) = Some 7"
  by (simp_all add: payload_views sample_validator_def retired_validator_def fresh_waiting_def)

lemma sample_sound: "vset_sound (ve_keccak sample_env) (ocomp_decode sample_env) (registry_of (Joining sample_validator))"
  by (rule one_sound [OF joining_run]) (simp_all add: sample_identity)

lemma retired_sound: "vset_sound (ve_keccak sample_env) (ocomp_decode sample_env) (registry_of (Inactive retired_validator))"
  using retired_run one_sound sample_identity by blast

lemma sample_view: "registry_view sample_env (registry_of (Joining sample_validator)) (only (Joining sample_validator))"
  by (rule one_view [OF lifecycle_run_wf [OF joining_run wf_Absent]]) (simp_all add: sample_identity)

lemma retired_view: "registry_view sample_env (registry_of (Inactive retired_validator)) (only (Inactive retired_validator))"
  using retired_run lifecycle_run_wf wf_Absent by (intro one_view) (auto simp: sample_identity)

section \<open>Entering the committee\<close>

lemma message_lifecycles:
  assumes "vset_sound h dec (store s)" "message_ok h dec m" "vset_run m s = (Inr r, t)" "ve_keccak env = h"
  shows "\<exists>lc lc'. validator_lifecycle env a (store s) = (Inr lc :: (unit, ValidatorLifecycle) result) \<and>
     validator_lifecycle env a (store t) = (Inr lc' :: (unit, ValidatorLifecycle) result) \<and>
     runs_in (message_events m (store s) lc a) lc lc'"
proof -
  from assms(1) obtain L where v: "\<And>env. ve_keccak env = h \<Longrightarrow> registry_view env (store s) L" unfolding vset_sound_def by blast
  from message_evolves [OF v assms(2,3)] obtain L' where w: "\<And>env. ve_keccak env = h \<Longrightarrow> registry_view env (store t) L'"
    and e: "evolves (\<lambda>a. message_events m (store s) (L a) a) L L'" by blast
  show ?thesis
    using lifecycle_view [OF v [OF assms(4)]] lifecycle_view [OF w [OF assms(4)]] e unfolding evolves_def by blast
qed

lemma variant_kept:
  "with_stake lc st = (Inr lc' :: (unit, ValidatorLifecycle) result) \<Longrightarrow> has_bls_share lc' = has_bls_share lc \<and>
     join_confirmed lc' = join_confirmed lc \<and> stored_status lc' = stored_status lc"
  "with_p2p lc info = (Inr lc' :: (unit, ValidatorLifecycle) result) \<Longrightarrow> has_bls_share lc' = has_bls_share lc \<and>
     join_confirmed lc' = join_confirmed lc \<and> stored_status lc' = stored_status lc"
  "with_history lc h = (Inr lc' :: (unit, ValidatorLifecycle) result) \<Longrightarrow> has_bls_share lc' = has_bls_share lc \<and>
     join_confirmed lc' = join_confirmed lc \<and> stored_status lc' = stored_status lc"
  "has_bls_share (reindex i lc) = has_bls_share lc \<and> join_confirmed (reindex i lc) = join_confirmed lc \<and>
     stored_status (reindex i lc) = stored_status lc"
  by (cases lc; auto simp: with_stake_ok with_history_ok)+

lemma share_step: "lifecycle_step ev lc lc' \<Longrightarrow> ev \<noteq> Activate \<Longrightarrow> \<not> has_bls_share lc \<Longrightarrow> \<not> has_bls_share lc'"
  by (induction rule: lifecycle_step.induct) (auto simp: register_ok cleanup_def variant_kept)

lemma join_step: "lifecycle_step ev lc lc' \<Longrightarrow> ev \<noteq> ConfirmReady \<Longrightarrow> \<not> join_confirmed lc \<Longrightarrow> \<not> join_confirmed lc'"
  by (induction rule: lifecycle_step.induct) (auto simp: register_ok cleanup_def variant_kept)

lemma activation_step:
  "lifecycle_step ev lc lc' \<Longrightarrow> ev \<in> {Retain, Activate} \<Longrightarrow> \<not> has_bls_share lc \<and> \<not> join_confirmed lc \<Longrightarrow>
   \<not> has_bls_share lc' \<and> \<not> join_confirmed lc'"
  by (induction rule: lifecycle_step.induct) auto

lemma confirm_step: "ev \<in> {ConfirmReady} \<Longrightarrow> lifecycle_step ev lc lc' \<Longrightarrow> \<not> awaiting lc \<Longrightarrow> \<not> awaiting lc'"
  by (cases rule: lifecycle_step.cases) (auto simp: awaiting_def)

lemma stake_step:
  "lifecycle_step ev lc lc' \<Longrightarrow> \<nexists>mn am. ev = ReachMinimum mn am \<Longrightarrow> \<exists>q. lc = WaitingForStake q \<Longrightarrow> \<exists>q. lc' = WaitingForStake q"
  by (induction rule: lifecycle_step.induct) (auto simp: register_ok with_stake_ok with_history_ok)

lemma increase_step:
  assumes "ev \<in> increase_events amount minimum" "lifecycle_step ev lc lc'"
    and "(\<exists>q. lc = WaitingForStake q) \<or> (\<exists>q. lc = WaitingForReadiness q) \<and> lc_bonded_stake lc = amount"
  shows "(\<exists>q. lc' = WaitingForStake q) \<or> (\<exists>q. lc' = WaitingForReadiness q) \<and> lc_bonded_stake lc' = amount"
  using assms(2,1,3)
  by (induction rule: lifecycle_step.induct)
     (auto simp: increase_events_def register_ok transition_ok with_stake_ok with_history_ok lc_bonded_stake_def split: if_splits)

lemma activating_message:
  assumes "Activate \<in> message_events m v lc a"
  shows "\<exists>env new_set set_hash freeze exclusions reg. m = System env (BoundaryActivated new_set set_hash freeze exclusions) \<and>
     a \<in> set new_set \<and> a \<notin> set exclusions \<and> read_ocomp_registration env a v = (Inr (Some reg) :: (unit, ocomp_registration option) result)"
proof (cases m)
  case (Call env caller coins call)
  then show ?thesis using assms by (cases call) (auto split: if_splits)
next
  case (System env op)
  then show ?thesis using assms
    by (cases op) (auto simp: boundary_events_def increase_events_def unstake_events_def slash_events_def punish_events_def split: if_splits)
qed

lemma confirming_message:
  assumes "ConfirmReady \<in> message_events m v lc a"
  shows "\<exists>env value registration. m = Call env a value (confirmValidatorReady registration)"
proof (cases m)
  case (Call env caller coins call)
  then show ?thesis using assms by (cases call) (auto split: if_splits)
next
  case (System env op)
  then show ?thesis using assms
    by (cases op) (auto simp: boundary_events_def increase_events_def unstake_events_def slash_events_def punish_events_def split: if_splits)
qed

lemma reaching_message:
  assumes "ReachMinimum mn am \<in> message_events m v lc a"
  shows "\<exists>env. m = System env (StakeIncreased a am mn) \<and> mn \<le> am"
proof (cases m)
  case (Call env caller coins call)
  then show ?thesis using assms by (cases call) (auto split: if_splits)
next
  case (System env op)
  then show ?thesis using assms
    by (cases op) (auto simp: boundary_events_def increase_events_def unstake_events_def slash_events_def punish_events_def split: if_splits)
qed

lemma share_events:
  assumes run: "runs_in (message_events m v lc a) lc lc'" and share: "has_bls_share lc'" "\<not> has_bls_share lc"
  shows "join_confirmed lc"
    and "\<exists>env new_set set_hash freeze exclusions reg. m = System env (BoundaryActivated new_set set_hash freeze exclusions) \<and>
       a \<in> set new_set \<and> a \<notin> set exclusions \<and> read_ocomp_registration env a v = (Inr (Some reg) :: (unit, ocomp_registration option) result)"
proof -
  have "Activate \<in> message_events m v lc a"
  proof (rule ccontr)
    assume "Activate \<notin> message_events m v lc a"
    then have "\<not> has_bls_share lc'"
      using runs_in_invariant [OF run, of "\<lambda>x. \<not> has_bls_share x"] share_step share(2) by blast
    with share(1) show False by blast
  qed
  then show m: "\<exists>env new_set set_hash freeze exclusions reg. m = System env (BoundaryActivated new_set set_hash freeze exclusions) \<and>
       a \<in> set new_set \<and> a \<notin> set exclusions \<and> read_ocomp_registration env a v = (Inr (Some reg) :: (unit, ocomp_registration option) result)"
    by (rule activating_message)
  then have "message_events m v lc a = {Retain, Activate}" by (auto simp: boundary_events_def)
  with run have "\<not> join_confirmed lc \<Longrightarrow> \<not> has_bls_share lc'"
    using runs_in_invariant [of "{Retain, Activate}" lc lc' "\<lambda>x. \<not> has_bls_share x \<and> \<not> join_confirmed x"] activation_step share(2)
    by metis
  with share(1) show "join_confirmed lc" by blast
qed

lemma join_events:
  assumes run: "runs_in (message_events m v lc a) lc lc'" and join: "join_confirmed lc'" "\<not> join_confirmed lc"
  shows "\<exists>p. lc = WaitingForReadiness p"
    and "\<exists>env value registration. m = Call env a value (confirmValidatorReady registration)"
proof -
  have "ConfirmReady \<in> message_events m v lc a"
  proof (rule ccontr)
    assume "ConfirmReady \<notin> message_events m v lc a"
    then have "\<not> join_confirmed lc'"
      using runs_in_invariant [OF run, of "\<lambda>x. \<not> join_confirmed x"] join_step join(2) by blast
    with join(1) show False by blast
  qed
  then show m: "\<exists>env value registration. m = Call env a value (confirmValidatorReady registration)" by (rule confirming_message)
  then have "message_events m v lc a = {ConfirmReady}" by auto
  with run have "\<not> awaiting lc \<Longrightarrow> \<not> awaiting lc'"
    using runs_in_invariant [of "{ConfirmReady}" lc lc' "\<lambda>x. \<not> awaiting x"] confirm_step by metis
  with join show "\<exists>p. lc = WaitingForReadiness p" by (cases lc; cases lc') (simp_all add: awaiting_def)
qed

lemma stake_events:
  assumes run: "runs_in (message_events m v (WaitingForStake p) a) (WaitingForStake p) lc'" and left: "\<nexists>q. lc' = WaitingForStake q"
  shows "\<exists>q. lc' = WaitingForReadiness q"
    and "\<exists>env minimum. m = System env (StakeIncreased a (lc_bonded_stake lc') minimum) \<and> minimum \<le> lc_bonded_stake lc'"
proof -
  have "\<exists>mn am. ReachMinimum mn am \<in> message_events m v (WaitingForStake p) a"
  proof (rule ccontr)
    assume "\<nexists>mn am. ReachMinimum mn am \<in> message_events m v (WaitingForStake p) a"
    then have "\<exists>q. lc' = WaitingForStake q"
      using runs_in_invariant [OF run, of "\<lambda>x. \<exists>q. x = WaitingForStake q"] stake_step by blast
    with left show False ..
  qed
  then obtain env amount minimum where m: "m = System env (StakeIncreased a amount minimum)" "minimum \<le> amount"
    using reaching_message by blast
  have "(\<exists>q. lc' = WaitingForStake q) \<or> (\<exists>q. lc' = WaitingForReadiness q) \<and> lc_bonded_stake lc' = amount"
    by (rule runs_in_invariant [OF run, of "\<lambda>x. (\<exists>q. x = WaitingForStake q) \<or> (\<exists>q. x = WaitingForReadiness q) \<and> lc_bonded_stake x = amount"])
       (use m increase_step in auto)
  with left m show "\<exists>q. lc' = WaitingForReadiness q"
    "\<exists>env minimum. m = System env (StakeIncreased a (lc_bonded_stake lc') minimum) \<and> minimum \<le> lc_bonded_stake lc'" by blast+
qed

section \<open>Reading a sound storage\<close>

lemma sound_view:
  assumes "vset_sound (ve_keccak env) dec v"
  obtains L where "registry_view env v L" "\<And>a. \<exists>evs. lifecycle_run evs Absent (L a)" "reserved (ve_keccak env) dec v"
  using assms unfolding vset_sound_def by blast

lemma registry_list_length: "length (registry_list v) = unat (validator_count v)"
  by (simp add: registry_list_def)

lemma participant_view: "registry_view env v L \<Longrightarrow> is_consensus_participant env a v = Inr (is_current_consensus_participant (L a))"
  by (simp add: is_consensus_participant_def lifecycle_view)

lemma active_record:
  assumes "registry_view env v L" "get_validator env a v = (Inr (Some r) :: (unit, ValidatorRecord option) result)"
    and "vr_status r = ACTIVE" "vr_has_bls_share r"
  shows "\<exists>p. L a = Active p"
proof -
  have st: "validator_state env a v = (Inr \<lparr>vs_address = a, vs_lifecycle = L a\<rparr> :: (unit, ValidatorState) result)"
    by (rule validator_state_view [OF assms(1)])
  from assms(2) have "read_validator_record env a v = (Inr r :: (unit, ValidatorRecord) result)"
    by (auto simp: get_validator_def split: if_splits)
  then show ?thesis using assms(3,4) unfolding read_validator_record_def st Let_def
    by (cases "L a") (auto simp: REGISTERED_def PENDING_def ACTIVE_def EXITING_def UNBONDING_def INACTIVE_def JAILED_def)
qed

lemma resolve_cases:
  assumes "registry_view env v L" "reserved h dec v" "resolve_validator_for_role env x role v = Inr (Some a)"
  shows "\<exists>p. L a = Active p"
    and "x = a \<and> get_delegate a role v = 0 \<or> get_delegate a role v = x \<and> x \<noteq> 0"
proof -
  have zero: "validator_by_role_delegate v (role_id role) 0 = 0" using assms(2) unfolding reserved_def by blast
  from assms(3) have "(\<exists>p. L a = Active p) \<and> (x = a \<and> get_delegate a role v = 0 \<or> get_delegate a role v = x \<and> x \<noteq> 0)"
    unfolding resolve_validator_for_role_def Let_def
    by (auto split: option.splits if_splits dest: active_record [OF assms(1)] simp: zero)
  then show "\<exists>p. L a = Active p" "x = a \<and> get_delegate a role v = 0 \<or> get_delegate a role v = x \<and> x \<noteq> 0" by blast+
qed

lemma readM_run: "bindM (readM f) k s = (case f (store s) of Inl e \<Rightarrow> (Inl e, s) | Inr x \<Rightarrow> k x s)"
  by (simp add: bindM_def readM_def split: sum.split)

lemma resultM_run: "bindM (resultM r) k s = (case r of Inl e \<Rightarrow> (Inl e, s) | Inr x \<Rightarrow> k x s)"
  by (simp add: resultM_def readM_run)

section \<open>Properties\<close>

text \<open>C31: an epoch boundary that succeeds leaves exactly the certified validators as consensus participants, records the
  hash of the set, and keeps the signal for another change exactly when some validator still waits to join or to leave.\<close>

theorem boundary_installs_committee:
  assumes "vset_sound (ve_keccak env) dec (store s)"
    and "system_step env (BoundaryActivated new_set set_hash freeze exclusions) s = (Inr u, t)"
  shows "(\<forall>a. is_consensus_participant env a (store t) = (Inr (a \<in> set new_set) :: (unit, bool) result)) \<and>
     active_consensus_set_hash (store t) = set_hash \<and>
     (pending_set_change (store t) \<longleftrightarrow>
       (\<exists>a lc. validator_lifecycle env a (store t) = (Inr lc :: (unit, ValidatorLifecycle) result) \<and> still_pending lc))"
proof -
  from assms(1) obtain L where v: "registry_view env (store s) L" by (rule sound_view) blast
  have "\<exists>s'. store s' = store s \<and> apply_reshared_set env new_set set_hash freeze exclusions s' = (Inr u, t)"
    using assms(2) by (auto simp: activate_boundary_set_def bindM_ok requireM_ok dest: pure_store [OF check_exclusions_pure] split: if_splits)
  then obtain s' where s': "store s' = store s" and run: "apply_reshared_set env new_set set_hash freeze exclusions s' = (Inr u, t)" by blast
  have v': "registry_view env (store s') L" using v s' by simp
  from boundary_effect [OF v' run] obtain L' where "registry_view env (store t) L'"
    "\<forall>a. is_current_consensus_participant (L' a) \<longleftrightarrow> a \<in> set new_set" "active_consensus_set_hash (store t) = set_hash"
    "pending_set_change (store t) \<longleftrightarrow> (\<exists>a. still_pending (L' a))" by blast
  then show ?thesis by (simp add: participant_view lifecycle_view)
qed


lemma sample_activation:
  "activate_at_boundary sample_validator = sample_validator"
  "with_lifecycle \<lparr>vs_address = 9, vs_lifecycle = Joining sample_validator\<rparr> (Active sample_validator) =
     Inr \<lparr>vs_address = 9, vs_lifecycle = Active sample_validator\<rparr>"
  by (simp_all add: with_lifecycle_ok activate_at_boundary_def with_last_deactivated_at_height_def sample_validator_def fresh_waiting_def
      ValidatorHistory_fresh_def valid_lifecycle_def payload_views sample_stake_def)

lemma sample_persist:
  "persist_validator_state_delta \<lparr>vs_address = 9, vs_lifecycle = Joining sample_validator\<rparr>
     \<lparr>vs_address = 9, vs_lifecycle = Active sample_validator\<rparr> \<lparr>store = v, budget = 20\<rparr> =
   (Inr (), \<lparr>store = update_slot 9 (val_join_confirmed_update (\<lambda>_. False))
      (update_slot 9 (val_has_bls_share_update (\<lambda>_. True)) (update_slot 9 (val_status_update (\<lambda>_. ACTIVE)) v)), budget = 17\<rparr>)"
proof -
  have lv: "lc_validate (Joining sample_validator) = (Inr () :: (unit, unit) result)"
    "lc_validate (Active sample_validator) = (Inr () :: (unit, unit) result)"
    by (simp_all add: lc_validate_ok sample_validator_def fresh_waiting_def ValidatorHistory_fresh_def
        valid_lifecycle_def payload_views sample_stake_def)
  show ?thesis
    unfolding persist_validator_state_delta_def persist_validator_state_delta_inner_def persist_lifecycle_fields_def Let_def
    by (simp add: resultM_run lv prog_run write_changed_def write_slot_def payload_views hist_or_zero_def deactivated_or_zero_def
        lc_bonded_stake_def lc_unbonding_end_hint_def p2p_stored_def PENDING_def ACTIVE_def) (simp add: retM_def)
qed

lemma sample_boundary:
  "\<exists>t. system_step sample_env (BoundaryActivated [9] 77 3 []) \<lparr>store = registry_of (Joining sample_validator), budget = 20\<rparr> = (Inr (), t)"
proof -
  let ?r = "registry_of (Joining sample_validator)"
  note v = sample_view
  have l: "registry_list ?r = [9]" by (simp add: registry_list_def registry_of_def)
  have oc: "read_ocomp_registration sample_env 9 ?r = (Inr (ocomp_decode sample_env [7]) :: (unit, _) result)"
    by (simp add: read_ocomp_registration_def registry_of_def sample_env_def)
  have d: "\<exists>y. ocomp_decode sample_env [7] = Some y" by (simp add: sample_env_def)
  have b: "boundary_next [9] 3 [] (Inr True) \<lparr>vs_address = 9, vs_lifecycle = Joining sample_validator\<rparr> = Inr (Active sample_validator)"
    by (simp add: boundary_next_def ensure_def sample_activation)
  show ?thesis
    by (simp add: activate_boundary_set_def apply_reshared_set_def resultM_run count_u32_def readM_run
        registered_addresses_view [OF v] l validator_state_view [OF v] only_def oc d b sample_activation bindM_requireM)
       (auto simp: with_checkpoint_def bindM_def sample_persist set_pending_def emit_vset_def writeM_def retM_def split: nat.split)
qed

lemma sample_activates:
  "\<exists>t. vset_run sample_activation_message \<lparr>store = registry_of (Joining sample_validator), budget = 20\<rparr> = (Inr VNone, t)"
  using sample_boundary by (auto simp: sample_activation_message_def with_checkpoint_def done_with_def bindM_def retM_def)

lemma participant_share: "is_current_consensus_participant lc \<Longrightarrow> has_bls_share lc"
  by (cases lc) simp_all

lemma sample_member:
  assumes "vset_run sample_activation_message \<lparr>store = registry_of (Joining sample_validator), budget = 20\<rparr> = (Inr VNone, t)"
  shows "\<exists>lc. validator_lifecycle sample_env 9 (store t) = (Inr lc :: (unit, ValidatorLifecycle) result) \<and> has_bls_share lc"
proof -
  from assms obtain u where "activate_boundary_set sample_env [9] 77 3 [] \<lparr>store = registry_of (Joining sample_validator), budget = 20\<rparr> = (Inr u, t)"
    by (auto simp: sample_activation_message_def with_checkpoint_ok done_with_def bindM_ok retM_ok)
  from activate_is_boundary [OF this] obtain s' where s': "store s' = registry_of (Joining sample_validator)"
    "apply_reshared_set sample_env [9] 77 3 [] s' = (Inr u, t)" by auto
  from boundary_effect [OF _ s'(2)] sample_view obtain L' where w: "registry_view sample_env (store t) L'"
    and "is_current_consensus_participant (L' 9)" unfolding s'(1) by force
  then show ?thesis using lifecycle_view [OF w, of 9] participant_share by blast
qed

theorem boundary_installs_committee_witness:
  "\<exists>t u. system_step sample_env (BoundaryActivated [9] 77 3 []) \<lparr>store = (registry_of (Joining sample_validator)), budget = 20\<rparr> = (Inr u, t) \<and>
     is_consensus_participant sample_env 9 (store t) = (Inr True :: (unit, bool) result) \<and>
     is_consensus_participant sample_env 8 (store t) = (Inr False :: (unit, bool) result) \<and> active_consensus_set_hash (store t) = 77"
proof -
  have s: "vset_sound (ve_keccak sample_env) (ocomp_decode sample_env) (store \<lparr>store = (registry_of (Joining sample_validator)), budget = 20\<rparr>)"
    using sample_sound by simp
  from sample_boundary obtain t where t: "system_step sample_env (BoundaryActivated [9] 77 3 []) \<lparr>store = (registry_of (Joining sample_validator)), budget = 20\<rparr> = (Inr (), t)" ..
  from boundary_installs_committee [OF s t] t show ?thesis by auto
qed

text \<open>C26: the storage of the validator set refines the lifecycle machine, message by message: a message that succeeds
  takes the lifecycle of every address through transitions of the machine that belong to this message and this address, with
  the amounts it reports (\<open>message_events\<close>). An address a message does not concern keeps its lifecycle.\<close>

theorem registry_refines_lifecycle:
  assumes "vset_sound h dec (store s)" "message_ok h dec m" "vset_run m s = (Inr r, t)" "ve_keccak env = h"
  shows "\<exists>lc lc'. validator_lifecycle env a (store s) = (Inr lc :: (unit, ValidatorLifecycle) result) \<and>
     validator_lifecycle env a (store t) = (Inr lc' :: (unit, ValidatorLifecycle) result) \<and>
     runs_in (message_events m (store s) lc a) lc lc'"
  by (rule message_lifecycles [OF assms])

theorem registry_refines_lifecycle_witness:
  "\<exists>t lc. vset_run sample_activation_message \<lparr>store = registry_of (Joining sample_validator), budget = 20\<rparr> = (Inr VNone, t) \<and>
     validator_lifecycle sample_env 9 (store t) = (Inr lc :: (unit, ValidatorLifecycle) result) \<and>
     runs_in {Activate, Retain} (Joining sample_validator) lc"
proof -
  let ?s = "\<lparr>store = registry_of (Joining sample_validator), budget = 20\<rparr>"
  from sample_activates obtain t where t: "vset_run sample_activation_message ?s = (Inr VNone, t)" ..
  have ok: "message_ok (ve_keccak sample_env) (ocomp_decode sample_env) sample_activation_message"
    by (simp add: sample_activation_message_def)
  have s: "vset_sound (ve_keccak sample_env) (ocomp_decode sample_env) (store ?s)" using sample_sound by simp
  have D: "message_events sample_activation_message v lc 9 \<subseteq> {Activate, Retain}" for v lc
    by (simp add: sample_activation_message_def boundary_events_def)
  have "validator_lifecycle sample_env 9 (store ?s) = (Inr (Joining sample_validator) :: (unit, ValidatorLifecycle) result)"
    using lifecycle_view [OF sample_view, of 9] by (simp add: only_def)
  with registry_refines_lifecycle [OF s ok t refl, of 9] obtain lc where
    "validator_lifecycle sample_env 9 (store t) = (Inr lc :: (unit, ValidatorLifecycle) result)"
    "runs_in (message_events sample_activation_message (store ?s) (Joining sample_validator) 9) (Joining sample_validator) lc"
    by auto
  with t runs_in_mono [OF _ D] show ?thesis by blast
qed

text \<open>C27: who enters the committee, and how. A message that gives a validator a committee share is a boundary that lists it
  and does not exclude it, and it finds the validator confirmed (\<open>Joining\<close>) and with a stored OCOMP registration. A message that confirms a validator is its
  own \<open>confirmValidatorReady\<close>, while it waits for readiness. A message after which a validator no longer waits for stake
  reports a stake of at least the minimum, and this stake is stored.\<close>

theorem committee_admission:
  assumes "vset_sound h dec (store s)" "message_ok h dec m" "vset_run m s = (Inr r, t)" "ve_keccak env = h"
    and "validator_lifecycle env a (store s) = (Inr lc :: (unit, ValidatorLifecycle) result)"
    and "validator_lifecycle env a (store t) = (Inr lc' :: (unit, ValidatorLifecycle) result)"
  shows "(has_bls_share lc' \<longrightarrow> has_bls_share lc \<or> (\<exists>p. lc = Joining p) \<and>
       (\<exists>env' new_set set_hash freeze exclusions reg.
          m = System env' (BoundaryActivated new_set set_hash freeze exclusions) \<and> a \<in> set new_set \<and> a \<notin> set exclusions \<and>
          read_ocomp_registration env' a (store s) = (Inr (Some reg) :: (unit, ocomp_registration option) result))) \<and>
     (join_confirmed lc' \<longrightarrow> join_confirmed lc \<or> (\<exists>p. lc = WaitingForReadiness p) \<and>
       (\<exists>env' value registration. m = Call env' a value (confirmValidatorReady registration))) \<and>
     ((\<exists>p. lc = WaitingForStake p) \<longrightarrow> (\<exists>p. lc' = WaitingForStake p) \<or> (\<exists>p. lc' = WaitingForReadiness p) \<and>
       (\<exists>env' minimum. m = System env' (StakeIncreased a (lc_bonded_stake lc') minimum) \<and> minimum \<le> lc_bonded_stake lc'))"
proof -
  have run: "runs_in (message_events m (store s) lc a) lc lc'"
    using message_lifecycles [OF assms(1-4), of a] assms(5,6) by auto
  have "(\<exists>q. lc' = WaitingForStake q) \<or> (\<exists>q. lc' = WaitingForReadiness q) \<and>
       (\<exists>env' minimum. m = System env' (StakeIncreased a (lc_bonded_stake lc') minimum) \<and> minimum \<le> lc_bonded_stake lc')"
    if "lc = WaitingForStake p" for p
    using run stake_events [of m "store s" p a lc'] unfolding that by blast
  moreover have "\<exists>p. lc = Joining p" if "join_confirmed lc" using that by (cases lc) simp_all
  ultimately show ?thesis using share_events [OF run] join_events [OF run] by blast
qed

theorem committee_admission_witness:
  "\<exists>t lc lc'. vset_run sample_activation_message \<lparr>store = registry_of (Joining sample_validator), budget = 20\<rparr> = (Inr VNone, t) \<and>
     validator_lifecycle sample_env 9 (registry_of (Joining sample_validator)) = (Inr lc :: (unit, ValidatorLifecycle) result) \<and>
     validator_lifecycle sample_env 9 (store t) = (Inr lc' :: (unit, ValidatorLifecycle) result) \<and>
     has_bls_share lc' \<and> (\<exists>p. lc = Joining p)"
proof -
  let ?s = "\<lparr>store = registry_of (Joining sample_validator), budget = 20\<rparr>"
  from sample_activates obtain t where t: "vset_run sample_activation_message ?s = (Inr VNone, t)" ..
  have ok: "message_ok (ve_keccak sample_env) (ocomp_decode sample_env) sample_activation_message"
    by (simp add: sample_activation_message_def)
  have s: "vset_sound (ve_keccak sample_env) (ocomp_decode sample_env) (store ?s)" using sample_sound by simp
  have before: "validator_lifecycle sample_env 9 (store ?s) = (Inr (Joining sample_validator) :: (unit, ValidatorLifecycle) result)"
    using lifecycle_view [OF sample_view, of 9] by (simp add: only_def)
  from sample_member [OF t] obtain lc' where after: "validator_lifecycle sample_env 9 (store t) = (Inr lc' :: (unit, ValidatorLifecycle) result)"
    and share: "has_bls_share lc'" by blast
  from committee_admission [OF s ok t refl before after] share t before after show ?thesis by auto
qed

text \<open>C32: the removal loop of the cleanup ends: whatever the storage and the limit are, a loop over \<open>n\<close> entries does not use up
  the \<open>n + 1\<close> evaluations of its guard it is given; it returns the new count and the number of removals, or stops with an
  error of one of its reads and writes. So the cleanup never fails for want of passes.\<close>

theorem cleanup_terminates:
  "(\<exists>e t. cleanup_loop (Suc (unat n)) env max_removals 1 n 0 s = (Inl e, t)) \<or>
   (\<exists>count removed t. cleanup_loop (Suc (unat n)) env max_removals 1 n 0 s = (Inr (Some (count, removed)), t))"
proof -
  have "fst (cleanup_loop (Suc (unat n)) env max_removals 1 n 0 s) \<noteq> Inr None" by (rule cleanup_loop_ends) simp_all
  then show ?thesis by (cases "cleanup_loop (Suc (unat n)) env max_removals 1 n 0 s"; cases "fst (cleanup_loop (Suc (unat n)) env max_removals 1 n 0 s)") auto
qed

text \<open>C33: a cleanup removes inactive validators past their cooldown that have no open recovery window, and nobody else;
  the others keep their state up to the position in the registry. It reports how many left, and when it does not stop at
  its limit, none of them is left over.\<close>

theorem cleanup_removes_exactly_the_due:
  assumes "vset_sound (ve_keccak env) dec (store s)" "cleanup_inactive_validators env max_removals s = (Inr removed, t)"
  shows "(\<forall>a. \<exists>lc lc'. validator_lifecycle env a (store s) = (Inr lc :: (unit, ValidatorLifecycle) result) \<and>
       validator_lifecycle env a (store t) = (Inr lc' :: (unit, ValidatorLifecycle) result) \<and>
       (lc' = Absent \<and> due env (store s) lc a \<or> lc' = lc \<or> (\<exists>i. lc' = reindex i lc)) \<and>
       (max_removals = 0 \<or> removed < max_removals \<longrightarrow> \<not> due env (store s) lc' a)) \<and>
     unat (validator_count (store t)) + unat removed = unat (validator_count (store s))"
proof -
  from assms(1) obtain L where v: "registry_view env (store s) L" by (rule sound_view) blast
  from cleanup_effect [OF v assms(2)] obtain L' where w: "registry_view env (store t) L'" and th: "thinned env (store s) L L'"
    and n: "unat (validator_count (store t)) + unat removed = unat (validator_count (store s))"
    and d: "max_removals = 0 \<or> removed < max_removals \<longrightarrow> (\<forall>a. \<not> due env (store s) (L' a) a)" by blast
  have st: "validator_lifecycle env a (store s) = (Inr (L a) :: (unit, ValidatorLifecycle) result)"
    "validator_lifecycle env a (store t) = (Inr (L' a) :: (unit, ValidatorLifecycle) result)" for a
    by (rule lifecycle_view [OF v], rule lifecycle_view [OF w])
  have "\<exists>lc lc'. validator_lifecycle env a (store s) = (Inr lc :: (unit, ValidatorLifecycle) result) \<and>
       validator_lifecycle env a (store t) = (Inr lc' :: (unit, ValidatorLifecycle) result) \<and>
       (lc' = Absent \<and> due env (store s) lc a \<or> lc' = lc \<or> (\<exists>i. lc' = reindex i lc)) \<and>
       (max_removals = 0 \<or> removed < max_removals \<longrightarrow> \<not> due env (store s) lc' a)" for a
    using st th d unfolding thinned_def by (intro exI [of _ "L a"] exI [of _ "L' a"]) simp
  with n show ?thesis by blast
qed

lemma retired_cleanup:
  "\<exists>t. cleanup_inactive_validators sample_env 0 \<lparr>store = registry_of (Inactive retired_validator), budget = 60\<rparr> = (Inr 1, t)"
proof -
  let ?v = "registry_of (Inactive retired_validator)"
  have st: "validator_state sample_env 9 ?v = (Inr \<lparr>vs_address = 9, vs_lifecycle = Inactive retired_validator\<rparr> :: (unit, ValidatorState) result)"
    by (simp add: validator_state_view [OF retired_view] only_def)
  have c: "validator_count (registry_of lc) = 1" "index_to_address (registry_of lc) 1 = 9"
    "config_reregistration_cooldown (registry_of lc) = 0" "val_ocomp_recovery_deadline (registry_of lc) 9 = 0"
    "val_radicle_node_id (registry_of lc) 9 = 4" for lc
    by (simp_all add: registry_of_def vset_genesis_def)
  have r: "removable sample_env 9 ?v = Inr True"
    unfolding removable_def st by (simp add: c lc_history_def payload_views retired_validator_def sample_validator_def
        fresh_waiting_def ValidatorHistory_fresh_def checked_add_def sample_env_def)
  show ?thesis unfolding cleanup_inactive_validators_def
    by (simp add: with_checkpoint_def bindM_def getsM_def c readM_def r writeM_def retM_def clear_validator_storage_def
        write_consensus_pubkey_def write_slot_def remove_index_def update_slot_def)
qed

theorem cleanup_removes_exactly_the_due_witness:
  "\<exists>t. cleanup_inactive_validators sample_env 0 \<lparr>store = registry_of (Inactive retired_validator), budget = 60\<rparr> = (Inr 1, t) \<and>
     validator_count (store t) = 0"
proof -
  let ?s = "\<lparr>store = registry_of (Inactive retired_validator), budget = 60\<rparr>"
  have s: "vset_sound (ve_keccak sample_env) (ocomp_decode sample_env) (store ?s)" using retired_sound by simp
  from retired_cleanup obtain t where t: "cleanup_inactive_validators sample_env 0 ?s = (Inr 1, t)" ..
  from cleanup_removes_exactly_the_due [OF s t] have "unat (validator_count (store t)) + 1 = 1" by (simp add: registry_of_def)
  then show ?thesis using t by (auto simp: unat_eq_zero)
qed

text \<open>C34: what is persisted is what is read back: after the difference between two states of a validator, one transition
  apart, is written, reading
  the validator gives the second state, and every other validator reads as before.\<close>

theorem persist_then_read:
  assumes "vset_sound (ve_keccak env) dec (store s)" "validator_state env a (store s) = (Inr before :: (unit, ValidatorState) result)"
    and "lifecycle_step ev (vs_lifecycle before) lc" "with_lifecycle before lc = (Inr after :: (unit, ValidatorState) result)"
    and "persist_validator_state_delta before after s = (Inr u, t)"
  shows "validator_state env a (store t) = (Inr after :: (unit, ValidatorState) result) \<and>
     (b \<noteq> a \<longrightarrow> validator_state env b (store t) = (validator_state env b (store s) :: (unit, ValidatorState) result))"
proof -
  from assms(1) obtain L where v: "registry_view env (store s) L" by (rule sound_view) blast
  have be: "before = \<lparr>vs_address = a, vs_lifecycle = L a\<rparr>" using assms(2) by (simp add: validator_state_view [OF v])
  have af: "after = \<lparr>vs_address = a, vs_lifecycle = lc\<rparr>" using assms(4) unfolding be by (simp add: with_lifecycle_ok)
  have "runs_in {ev} (L a) lc" using runs_in_step [OF assms(3)] unfolding be by simp
  from persist_view(1) [OF v this] assms(5) have w: "registry_view env (store t) (L(a := lc))" unfolding be af by blast
  show ?thesis by (simp add: validator_state_view [OF v] validator_state_view [OF w] af)
qed

theorem persist_then_read_witness:
  "validator_state sample_env 9 (store (snd (persist_validator_state_delta \<lparr>vs_address = 9, vs_lifecycle = Joining sample_validator\<rparr>
       \<lparr>vs_address = 9, vs_lifecycle = Active sample_validator\<rparr> \<lparr>store = registry_of (Joining sample_validator), budget = 20\<rparr>))) =
     (Inr \<lparr>vs_address = 9, vs_lifecycle = Active sample_validator\<rparr> :: (unit, ValidatorState) result)"
proof -
  let ?s = "\<lparr>store = registry_of (Joining sample_validator), budget = 20\<rparr>"
  have s: "vset_sound (ve_keccak sample_env) (ocomp_decode sample_env) (store ?s)" using sample_sound by simp
  have v: "validator_state sample_env 9 (store ?s) = (Inr \<lparr>vs_address = 9, vs_lifecycle = Joining sample_validator\<rparr> :: (unit, ValidatorState) result)"
    by (simp add: validator_state_view [OF sample_view] only_def)
  have st: "lifecycle_step Activate (vs_lifecycle \<lparr>vs_address = 9, vs_lifecycle = Joining sample_validator\<rparr>) (Active sample_validator)"
    using step_activate [of sample_validator] by (simp add: sample_activation)
  from persist_then_read [OF s v st sample_activation(2) sample_persist, of 0] show ?thesis by (simp add: sample_persist)
qed

text \<open>C35: at most one key speaks for a validator in a role, its own or the one it delegated to, and only for a validator
  that is active.\<close>

theorem one_signer_per_role:
  assumes "vset_sound (ve_keccak env) dec c"
    and "resolve_validator_for_role env x role c = Inr (Some a)" "resolve_validator_for_role env y role c = Inr (Some a)"
  shows "x = y \<and> (\<exists>p. validator_lifecycle env a c = (Inr (Active p) :: (unit, ValidatorLifecycle) result))"
proof -
  from assms(1) obtain L where v: "registry_view env c L" and r: "reserved (ve_keccak env) dec c" by (rule sound_view) blast
  show ?thesis
    using resolve_cases [OF v r assms(2)] resolve_cases [OF v r assms(3)] lifecycle_view [OF v, of a] by auto
qed

lemma active_identity:
  "lc_registry_index (Active sample_validator) = Some 1" "lc_consensus_pubkey (Active sample_validator) = Some 7"
  by (simp_all add: payload_views sample_validator_def fresh_waiting_def)

lemma active_sound: "vset_sound (ve_keccak sample_env) (ocomp_decode sample_env) (registry_of (Active sample_validator))"
  by (rule one_sound [OF sample_run]) (simp_all add: active_identity)

lemma active_view: "registry_view sample_env (registry_of (Active sample_validator)) (only (Active sample_validator))"
  by (rule one_view [OF lifecycle_run_wf [OF sample_run wf_Absent]]) (simp_all add: active_identity)

lemma active_resolves: "resolve_validator_for_role sample_env 9 Oracle (registry_of (Active sample_validator)) = Inr (Some 9)"
proof -
  let ?v = "registry_of (Active sample_validator)"
  have st: "validator_state sample_env 9 ?v = (Inr \<lparr>vs_address = 9, vs_lifecycle = Active sample_validator\<rparr> :: (unit, ValidatorState) result)"
    by (simp add: validator_state_view [OF active_view] only_def)
  have "address_to_index ?v 9 = 1" "get_delegate 9 Oracle ?v = 0" by (simp_all add: registry_of_def get_delegate_def vset_genesis_def)
  then show ?thesis
    by (simp add: resolve_validator_for_role_def get_validator_def read_validator_record_def st active_identity lc_history_def Let_def)
qed

theorem one_signer_per_role_witness:
  "resolve_validator_for_role sample_env 9 Oracle (registry_of (Active sample_validator)) = Inr (Some 9) \<and>
   (\<exists>p. validator_lifecycle sample_env 9 (registry_of (Active sample_validator)) = (Inr (Active p) :: (unit, ValidatorLifecycle) result))"
  using one_signer_per_role [OF active_sound active_resolves active_resolves] active_resolves by blast

section \<open>The window of recorded blocks\<close>

lemma ring_write_slot: "retains (\<lambda>v. ring_fields v = r) (write_slot a f)"
  by (auto simp: retains_def write_slot_def writeM_ok update_slot_def ring_fields_def)

lemma ring_record: "retains (\<lambda>v. ring_fields v = r) (record_finalized_participation env voters absent)"
  unfolding record_finalized_participation_def count_missed_vote_def by (intro ret_intros ring_write_slot)

lemma advance_ring_leads: "leads v (advance_ring fb) (ring_after fb v)"
  unfolding advance_ring_def Let_def FINALIZED_PARTICIPATION_RETAIN_def
  by (intro lead_intros) (auto simp: ring_after_def Let_def unat_add_exact)

lemma hook_effect:
  assumes "hook_record_finalized_participation env fb voters absent s = (Inr u, t)" "voters \<noteq> [] \<or> absent \<noteq> []"
    and "\<not> finalized_participation_recorded (store s) fb"
  shows "\<exists>v. ring_fields v = ring_fields (store s) \<and>
     ring_after fb (v\<lparr>finalized_participation_recorded := (finalized_participation_recorded v)(fb := True)\<rparr>) (store t)"
proof -
  let ?mark = "\<lambda>v. v\<lparr>finalized_participation_recorded := (finalized_participation_recorded v)(fb := True)\<rparr>"
  from assms obtain s1 where r: "record_finalized_participation env voters absent s = (Inr (), s1)"
    and adv: "advance_ring fb (s1\<lparr>store := ?mark (store s1), budget := budget s1 - 1\<rparr>) = (Inr u, t)"
    unfolding hook_record_finalized_participation_def by (auto simp: bindM_ok getsM_ok writeM_ok)
  have "ring_fields (store s1) = ring_fields (store s)" using ring_record [of "ring_fields (store s)"] r unfolding retains_def by blast
  moreover have "ring_after fb (?mark (store s1)) (store t)"
    using advance_ring_leads [of "?mark (store s1)" fb] adv unfolding leads_def by fastforce
  ultimately show ?thesis by blast
qed

lemma hook_skips:
  assumes "finalized_participation_recorded (store s) fb"
  shows "hook_record_finalized_participation env fb voters absent s = (Inr (), s)"
  using assms by (simp add: hook_record_finalized_participation_def bindM_def getsM_def retM_def)


lemma ring_step:
  assumes inv: "ring_inv (store s)" and fb: "fb \<noteq> 0"
    and run: "hook_record_finalized_participation env fb voters absent s = (Inr u, t)"
    and new: "voters \<noteq> [] \<or> absent \<noteq> []" "\<not> finalized_participation_recorded (store s) fb"
  shows "ring_inv (store t)" "finalized_participation_recorded (store t) fb"
    "unat (finalized_participation_ring_seq (store t)) = Suc (unat (finalized_participation_ring_seq (store s)))"
    "finalized_participation_ring (store t) = (finalized_participation_ring (store s))(finalized_participation_ring_seq (store s) mod 64 := fb)"
proof -
  let ?idx = "finalized_participation_ring_seq (store s) mod 64" and ?ring = "finalized_participation_ring (store s)"
    and ?rec = "finalized_participation_recorded (store s)"
  from hook_effect [OF run new] have e: "unat (finalized_participation_ring_seq (store t)) = Suc (unat (finalized_participation_ring_seq (store s)))"
    "finalized_participation_ring (store t) = ?ring(?idx := fb)"
    "finalized_participation_recorded (store t) = (if ?ring ?idx \<noteq> 0 \<and> ?ring ?idx \<noteq> fb then ?rec(fb := True, ?ring ?idx := False) else ?rec(fb := True))"
    unfolding ring_after_def ring_fields_def Let_def by auto
  show "unat (finalized_participation_ring_seq (store t)) = Suc (unat (finalized_participation_ring_seq (store s)))"
    "finalized_participation_ring (store t) = ?ring(?idx := fb)" by (rule e)+
  show "finalized_participation_recorded (store t) fb" by (simp add: e(3))
  have small: "?idx < 64" by (simp add: word_less_nat_alt unat_mod)
  have fresh: "?ring i \<noteq> fb" if "i < 64" for i using inv that fb new(2) unfolding ring_inv_def by metis
  have "finalized_participation_recorded (store t) (?ring i)" if "i < 64" "i \<noteq> ?idx" "?ring i \<noteq> 0" for i
    using inv that small unfolding ring_inv_def e(3) by auto
  then show "ring_inv (store t)"
    using inv fresh small unfolding ring_inv_def e(2) by (auto simp: e(3))
qed


lemma ring_place: "seq mod 64 = word_of_nat (unat seq mod 64)" for seq :: u64
  by (simp add: word_unat_eq_iff unat_mod unat_of_nat)

lemma recorded_before_marked: "recorded_before k fb v \<Longrightarrow> fb \<noteq> 0 \<Longrightarrow> finalized_participation_recorded v fb"
proof -
  assume r: "recorded_before k fb v" and fb: "fb \<noteq> 0"
  let ?p = "word_of_nat ((unat (finalized_participation_ring_seq v) - Suc k) mod 64) :: u64"
  have "?p < 64" by (simp add: word_less_nat_alt unat_of_nat)
  then show ?thesis using r fb unfolding recorded_before_def ring_inv_def by metis
qed

lemma mod_shift:
  fixes k q :: nat
  assumes "k < q" "Suc k < 64"
  shows "(q - Suc k) mod 64 \<noteq> q mod 64"
proof
  assume "(q - Suc k) mod 64 = q mod 64"
  then have "64 dvd q - (q - Suc k)" using mod_eq_dvd_iff_nat [of "q - Suc k" q 64] by simp
  moreover have "q - (q - Suc k) = Suc k" using assms by simp
  ultimately show False using assms(2) dvd_imp_le [of 64 "Suc k"] by simp
qed

lemma recorded_before_mono:
  assumes r: "recorded_before k fb (store s)" and k: "Suc k < 64" and b: "b \<noteq> 0"
    and run: "hook_record_finalized_participation env b voters absent s = (Inr u, t)"
  shows "\<exists>k' \<le> Suc k. recorded_before k' fb (store t)"
proof (cases "(voters \<noteq> [] \<or> absent \<noteq> []) \<and> \<not> finalized_participation_recorded (store s) b")
  case True
  let ?q = "unat (finalized_participation_ring_seq (store s))"
  from r have inv: "ring_inv (store s)" and q: "k < ?q"
    and p: "finalized_participation_ring (store s) (word_of_nat ((?q - Suc k) mod 64)) = fb" unfolding recorded_before_def by auto
  note e = ring_step [OF inv b run conjunct1 [OF True] conjunct2 [OF True]]
  have "(?q - Suc k) mod 64 \<noteq> ?q mod 64" by (rule mod_shift [OF q k])
  then have "(word_of_nat ((?q - Suc k) mod 64) :: u64) \<noteq> finalized_participation_ring_seq (store s) mod 64"
    unfolding ring_place by (simp add: word_unat_eq_iff unat_of_nat)
  then have "recorded_before (Suc k) fb (store t)" using e p q k unfolding recorded_before_def by simp
  then show ?thesis by blast
next
  case False
  then consider "voters = []" "absent = []" | "finalized_participation_recorded (store s) b" by blast
  then have "t = s"
  proof cases
    case 1
    then show ?thesis using run by (simp add: hook_record_finalized_participation_def retM_ok)
  next
    case 2
    from hook_skips [OF this] run show ?thesis by simp
  qed
  then show ?thesis using r by (intro exI [of _ k]) simp
qed

lemma recorded_before_list:
  assumes "recorded_before k fb (store s)" "k + length later < 64" "\<forall>(e, b, vs, as) \<in> set later. b \<noteq> 0"
    and "forEachM (\<lambda>(e, b, vs, as). hook_record_finalized_participation e b vs as) later s = (Inr u, t)"
  shows "\<exists>k'. recorded_before k' fb (store t)"
  using assms
proof (induction later arbitrary: k s)
  case Nil
  then show ?case by (auto simp: retM_ok)
next
  case (Cons x later)
  obtain e b vs as where x: "x = (e, b, vs, as)" by (cases x)
  from Cons.prems(4) x obtain s1 where h: "hook_record_finalized_participation e b vs as s = (Inr (), s1)"
    and rest: "forEachM (\<lambda>(e, b, vs, as). hook_record_finalized_participation e b vs as) later s1 = (Inr u, t)"
    by (auto simp: bindM_ok)
  from recorded_before_mono [OF Cons.prems(1) _ _ h] Cons.prems(2,3) x obtain k' where "k' \<le> Suc k" "recorded_before k' fb (store s1)" by auto
  then show ?case using Cons.IH [of k' s1] Cons.prems(2,3) rest x by auto
qed

text \<open>C36: the missed votes of a finalized block are counted once: while fewer than 64 further calls of the hook
  followed, one after the other, handing in the block again, with whatever votes, changes nothing.\<close>

theorem finalized_block_counted_once:
  assumes "ring_inv (store s)" "fb \<noteq> 0" "voters \<noteq> [] \<or> absent \<noteq> []" "\<not> finalized_participation_recorded (store s) fb"
    and "hook_record_finalized_participation env fb voters absent s = (Inr u, s1)"
    and "forEachM (\<lambda>(e, b, vs, as). hook_record_finalized_participation e b vs as) later s1 = (Inr u', t)"
    and "length later < 64" "\<forall>(e, b, vs, as) \<in> set later. b \<noteq> 0"
  shows "hook_record_finalized_participation env' fb voters' absent' t = (Inr (), t)"
proof -
  note e = ring_step [OF assms(1,2,5,3,4)]
  have "recorded_before 0 fb (store s1)"
    unfolding recorded_before_def using e(1) by (simp add: e(3,4) ring_place)
  from recorded_before_list [OF this _ assms(8,6)] assms(7) obtain k where "recorded_before k fb (store t)" by auto
  from recorded_before_marked [OF this assms(2)] show ?thesis by (rule hook_skips)
qed

lemma genesis_ring: "ring_inv (registry_of lc)" "\<not> finalized_participation_recorded (registry_of lc) fb"
  by (simp_all add: ring_inv_def registry_of_def vset_genesis_def)

lemma sample_vote:
  "\<exists>t. hook_record_finalized_participation sample_env 5 [9] [] \<lparr>store = registry_of (Active sample_validator), budget = 9\<rparr> = (Inr (), t)"
proof -
  have "is_validator sample_env 9 (registry_of (Active sample_validator)) = (Inr True :: (unit, bool) result)"
    by (simp add: is_validator_def lifecycle_view [OF active_view] only_def)
  then show ?thesis
    by (simp add: hook_record_finalized_participation_def record_finalized_participation_def advance_ring_def bindM_def getsM_def readM_def
        requireM_def retM_def writeM_def unwrapM_def genesis_ring Let_def FINALIZED_PARTICIPATION_RETAIN_def)
       (simp add: registry_of_def vset_genesis_def checked_add_def retM_def)
qed

theorem finalized_block_counted_once_witness:
  "\<exists>t. hook_record_finalized_participation sample_env 5 [9] [] \<lparr>store = registry_of (Active sample_validator), budget = 9\<rparr> = (Inr (), t) \<and>
     hook_record_finalized_participation sample_env 5 [] [9] t = (Inr (), t)"
proof -
  let ?s = "\<lparr>store = registry_of (Active sample_validator), budget = 9\<rparr>"
  from sample_vote obtain t where t: "hook_record_finalized_participation sample_env 5 [9] [] ?s = (Inr (), t)" ..
  have "hook_record_finalized_participation sample_env 5 [] [9] t = (Inr (), t)"
    by (rule finalized_block_counted_once [where s = ?s and fb = 5 and voters = "[9]" and absent = "[]" and later = "[]", OF _ _ _ _ t])
       (simp_all add: genesis_ring retM_def)
  with t show ?thesis by blast
qed

end
