(* ===== verification/Validator_Genesis.thy ===== *)
theory Validator_Genesis
  imports Validator_Soundness
begin

text \<open>
  The storage a chain starts with, \<open>seed_validator_set\<close> of \<open>scripts/seed_genesis.py\<close>, and what holds of every storage
  that messages lead to from there.

  \<^item> The founders are seeded as active validators that hold a share, with their stake, their place in the registry, their
    keys and, where given, their peer address. The script checks the Radicle node ids; \<open>founders_ok\<close> is what it relies on
    for the rest of its input: addresses and keys that are not zero and not repeated, a hash that tells the keys apart,
    peer addresses that \<open>encode_p2p_address_payload\<close> encoded. The slots 3 and 4 it writes belong to no field of
    \<open>schema.rs\<close>.
  \<^item> The seeded storage is sound: each founder's record is the one the machine reaches from the absent state by
    registration, stake, readiness and activation. So the invariant of \<open>Validator_Soundness\<close> starts there.
  \<^item> \<open>record_missed_block\<close> is not a message of the contract: no code outside the tests calls it, and on an address that is
    not registered it leaves a record that no longer decodes (\<open>missed_block_of_stranger\<close>).
\<close>

section \<open>The genesis storage\<close>

record founder =
  fo_address :: address
  fo_public_key :: ConsensusPubkey
  fo_radicle_node_id :: b256
  fo_p2p :: "(u8 \<times> bytes) option"

text \<open>The configuration the script reads. The unjail cooldown has no seed and no setter, it keeps its default; the
  theorems hold for any value of it.\<close>

record genesis_config =
  gc_owner :: address
  gc_max_validators :: u32
  gc_epoch_length_blocks :: u32
  gc_epoch_number :: u256
  gc_epoch_start_timestamp :: u64
  gc_epoch_start_block :: u64
  gc_active_consensus_set_hash :: b256
  gc_reregistration_cooldown :: u32
  gc_unjail_cooldown_blocks :: u64

definition founder_slots :: "u256 \<Rightarrow> founder \<Rightarrow> validator_slots \<Rightarrow> validator_slots" where
  "founder_slots validator_stake f sl =
     (let sl = sl\<lparr>val_consensus_pubkey_lo := pubkey_lo (fo_public_key f), val_consensus_pubkey_hi := pubkey_hi (fo_public_key f),
        val_stake := validator_stake, val_status := ACTIVE, val_joined_at_height := 0, val_has_bls_share := True\<rparr> in
      case fo_p2p f of
        None \<Rightarrow> sl
      | Some (version, payload) \<Rightarrow> sl\<lparr>val_p2p_address_version := version, val_p2p_address_payload := payload\<rparr>)"

definition founder_key_hash :: "(bytes \<Rightarrow> b256) \<Rightarrow> founder \<Rightarrow> b256" where
  "founder_key_hash h f = h (be_bytes 48 (uint (fo_public_key f)))"

definition seed_founder :: "(bytes \<Rightarrow> b256) \<Rightarrow> u256 \<Rightarrow> u64 \<Rightarrow> founder \<Rightarrow> ValidatorSet \<Rightarrow> ValidatorSet" where
  "seed_founder h validator_stake index f v =
     (let a = fo_address f in
      v\<lparr>slots := (slots v)(a := founder_slots validator_stake f (slots v a)),
        address_to_index := (address_to_index v)(a := index),
        index_to_address := (index_to_address v)(index := a),
        consensus_pubkey_hash_to_address := (consensus_pubkey_hash_to_address v)(founder_key_hash h f := a),
        val_radicle_node_id := (val_radicle_node_id v)(a := fo_radicle_node_id f),
        radicle_node_id_to_validator := (radicle_node_id_to_validator v)(fo_radicle_node_id f := a)\<rparr>)"

fun seed_founders :: "(bytes \<Rightarrow> b256) \<Rightarrow> u256 \<Rightarrow> u64 \<Rightarrow> founder list \<Rightarrow> ValidatorSet \<Rightarrow> ValidatorSet" where
  "seed_founders h validator_stake index [] v = v"
| "seed_founders h validator_stake index (f # fs) v =
     seed_founders h validator_stake (index + 1) fs (seed_founder h validator_stake index f v)"

definition seed_config :: "genesis_config \<Rightarrow> u32 \<Rightarrow> ValidatorSet" where
  "seed_config cfg count = (vset_genesis (gc_owner cfg) (gc_max_validators cfg))\<lparr>
     config_epoch_length_blocks := gc_epoch_length_blocks cfg, validator_count := count,
     epoch_number := gc_epoch_number cfg, epoch_start_timestamp := gc_epoch_start_timestamp cfg,
     epoch_start_block := gc_epoch_start_block cfg, active_consensus_set_hash := gc_active_consensus_set_hash cfg,
     config_reregistration_cooldown := gc_reregistration_cooldown cfg,
     config_unjail_cooldown_blocks := gc_unjail_cooldown_blocks cfg\<rparr>"

definition seed_validator_set ::
    "(bytes \<Rightarrow> b256) \<Rightarrow> genesis_config \<Rightarrow> u256 \<Rightarrow> founder list \<Rightarrow> string + ValidatorSet" where
  "seed_validator_set h cfg validator_stake fs =
     (if list_ex (\<lambda>f. fo_radicle_node_id f = 0) fs then Inl ''radicle_node_id must not be zero''
      else if \<not> distinct (map fo_radicle_node_id fs) then Inl ''duplicate Radicle NodeId in founder validators''
      else Inr (seed_founders h validator_stake 1 fs (seed_config cfg (word_of_nat (length fs)))))"

text \<open>What the script takes for granted about \<open>validators.json\<close>.\<close>

definition founder_ok :: "founder \<Rightarrow> bool" where
  "founder_ok f \<longleftrightarrow> fo_address f \<noteq> 0 \<and> fo_public_key f \<noteq> 0 \<and>
     (case fo_p2p f of None \<Rightarrow> True
      | Some (version, payload) \<Rightarrow> version = P2P_ADDRESS_VERSION_V1 \<and> \<not> isl (decode_v1 payload))"

definition founders_ok :: "(bytes \<Rightarrow> b256) \<Rightarrow> founder list \<Rightarrow> bool" where
  "founders_ok h fs \<longleftrightarrow> list_all founder_ok fs \<and> distinct (map fo_address fs) \<and> distinct (map fo_public_key fs) \<and>
     inj_on h ((\<lambda>f. be_bytes 48 (uint (fo_public_key f))) ` set fs) \<and> length fs < 2 ^ 32"

text \<open>The storage after the founders \<open>past\<close> were seeded.\<close>

definition seeded :: "(bytes \<Rightarrow> b256) \<Rightarrow> (bytes \<Rightarrow> ocomp_registration option) \<Rightarrow> founder list \<Rightarrow> ValidatorSet \<Rightarrow> bool" where
  "seeded h dec past v \<longleftrightarrow> reserved h dec v \<and>
     (\<exists>L. (\<forall>env. ve_keccak env = h \<longrightarrow> registry_view env (recounted (word_of_nat (length past)) v) L) \<and>
        (\<forall>a. \<exists>evs. lifecycle_run evs Absent (L a)) \<and> (\<forall>a. L a \<noteq> Absent \<longrightarrow> a \<in> fo_address ` set past)) \<and>
     (\<forall>a. val_radicle_node_id v a \<in> insert 0 (fo_radicle_node_id ` set past)) \<and>
     (\<forall>k. consensus_pubkey_hash_to_address v k \<noteq> 0 \<longrightarrow> k \<in> founder_key_hash h ` set past)"


definition sample_config :: genesis_config where
  "sample_config = \<lparr>gc_owner = 1, gc_max_validators = 10, gc_epoch_length_blocks = 0, gc_epoch_number = 0,
     gc_epoch_start_timestamp = 0, gc_epoch_start_block = 0, gc_active_consensus_set_hash = 0,
     gc_reregistration_cooldown = 0, gc_unjail_cooldown_blocks = 0\<rparr>"

section \<open>The genesis storage is sound\<close>

lemma founder_encoding:
  assumes "founder_ok f" "index \<noteq> 0"
  shows "\<exists>p evs. founder_slots st f (encode_lifecycle Absent) = encode_lifecycle (Active p) \<and>
     registry_index p = index \<and> consensus_pubkey p = fo_public_key f \<and> lifecycle_run evs Absent (Active p)"
proof -
  let ?w = "fresh_waiting index (fo_public_key f) 0" and ?st = "\<lparr>bonded = st, unbonding_end_hint = None\<rparr>"
  let ?p = "?w\<lparr>stake := ?st\<rparr>"
  have pk: "fo_public_key f \<noteq> 0" using assms(1) by (simp add: founder_ok_def)
  have a: "lifecycle_step Register Absent (WaitingForStake ?w)" by (rule register_step [OF assms(2) pk])
  have b: "lifecycle_step (ReachMinimum 0 st) (WaitingForStake ?w) (WaitingForReadiness ?p)"
    using step_reach_minimum [of ?w ?st 0 ?p] by (simp add: lc_ok)
  have c: "lifecycle_step ConfirmReady (WaitingForReadiness ?p) (Joining ?p)"
    using step_confirm_ready [of ?p] by (simp add: confirm_ready_def)
  have d: "lifecycle_step Activate (Joining ?p) (Active ?p)"
    using step_activate [of ?p]
    by (simp add: activate_at_boundary_def with_last_deactivated_at_height_def fresh_waiting_def ValidatorHistory_fresh_def)
  have run: "lifecycle_run [Register, ReachMinimum 0 st, ConfirmReady, Activate] Absent (Active ?p)"
    using run_step [OF a run_step [OF b run_step [OF c run_step [OF d run_none]]]] .
  note enc = founder_slots_def empty_slots encode_lifecycle_def payload_views hist_or_zero_def deactivated_or_zero_def
    lc_bonded_stake_def lc_unbonding_end_hint_def p2p_stored_def fresh_waiting_def ValidatorHistory_fresh_def or_zero_def
  show ?thesis
  proof (cases "fo_p2p f")
    case None
    then show ?thesis using run by (intro exI [of _ ?p] exI [of _ "[Register, ReachMinimum 0 st, ConfirmReady, Activate]"])
        (simp add: enc)
  next
    case (Some vp)
    with assms(1) obtain payload d where vp: "fo_p2p f = Some (P2P_ADDRESS_VERSION_V1, payload)" "decode_v1 payload = Inr d"
      by (cases vp; cases "decode_v1 (snd vp)") (auto simp: founder_ok_def)
    then have d: "valid_p2p d" "payload = encode_v1 d" by (simp_all add: decode_v1_iff)
    let ?q = "?p\<lparr>p2p := V1 d\<rparr>"
    have "lifecycle_step PublishP2p (Active ?p) (Active ?q)" by (rule step_with_p2p [of _ "V1 d"]) (simp_all add: d)
    from run_more [OF run this] show ?thesis using vp(1) d(2)
      by (intro exI [of _ ?q] exI) (auto simp: enc)
  qed
qed

lemma seed_reserved:
  assumes "reserved h dec v" "a \<noteq> 0" "n \<noteq> 0" "\<And>b. val_radicle_node_id v b \<noteq> n"
  shows "reserved h dec (v\<lparr>slots := sl, address_to_index := ai, index_to_address := ia, consensus_pubkey_hash_to_address := kh,
     val_radicle_node_id := (val_radicle_node_id v)(a := n), radicle_node_id_to_validator := (radicle_node_id_to_validator v)(n := a)\<rparr>)"
  using assms unfolding reserved_def by (simp add: owns_def)

lemma word_of_nat_Suc: "Suc n < 2 ^ 32 \<Longrightarrow> checked_add (word_of_nat n :: u32) 1 = Some (word_of_nat (Suc n))"
proof -
  assume "Suc n < 2 ^ 32"
  then have "uint (word_of_nat n :: u32) = int n" by (subst uint_nat) (simp add: unat_of_nat)
  then show "checked_add (word_of_nat n :: u32) 1 = Some (word_of_nat (Suc n))"
    using \<open>Suc n < 2 ^ 32\<close> by (simp add: checked_add_def add.commute)
qed

lemma ucast_of_nat: "n < 2 ^ 32 \<Longrightarrow> (ucast (word_of_nat n :: u32) :: u64) = word_of_nat n"
  by (simp add: word_unat_eq_iff unat_ucast_up unat_of_nat)

lemma seed_founder_seeded:
  assumes s: "seeded h dec past v" and f: "founder_ok f" and n: "Suc (length past) < 2 ^ 32"
    and a: "fo_address f \<notin> fo_address ` set past" and r: "fo_radicle_node_id f \<notin> insert 0 (fo_radicle_node_id ` set past)"
    and k: "founder_key_hash h f \<notin> founder_key_hash h ` set past"
  shows "seeded h dec (past @ [f]) (seed_founder h st (word_of_nat (Suc (length past))) f v)"
proof -
  let ?n = "length past" and ?a = "fo_address f"
  from s obtain L where v: "\<And>env. ve_keccak env = h \<Longrightarrow> registry_view env (recounted (word_of_nat ?n) v) L"
    and run: "\<And>a. \<exists>evs. lifecycle_run evs Absent (L a)" and old: "\<And>a. L a \<noteq> Absent \<Longrightarrow> a \<in> fo_address ` set past"
    and res: "reserved h dec v" and rad: "\<And>a. val_radicle_node_id v a \<in> insert 0 (fo_radicle_node_id ` set past)"
    and key: "\<And>k. consensus_pubkey_hash_to_address v k \<noteq> 0 \<Longrightarrow> k \<in> founder_key_hash h ` set past"
    unfolding seeded_def by blast
  have a0: "?a \<noteq> 0" using f by (simp add: founder_ok_def)
  have absent: "L ?a = Absent" using old a by blast
  have i0: "(word_of_nat (Suc ?n) :: u64) \<noteq> 0" using n by (simp add: word_unat_eq_iff unat_of_nat del: of_nat_Suc)
  from founder_encoding [OF f i0, of st] obtain p evs where
    enc: "founder_slots st f (encode_lifecycle Absent) = encode_lifecycle (Active p)"
    and p: "registry_index p = word_of_nat (Suc ?n)" "consensus_pubkey p = fo_public_key f"
    and pr: "lifecycle_run evs Absent (Active p)" by blast
  have "registry_view env (recounted (word_of_nat (Suc ?n)) (seed_founder h st (word_of_nat (Suc ?n)) f v)) (L(?a := Active p))"
    if e: "ve_keccak env = h" for env
  proof (rule view_cong [OF view_add [OF v [OF e] absent a0 _ _ lifecycle_run_wf [OF pr wf_Absent]]])
    show "checked_add (validator_count (recounted (word_of_nat ?n) v)) 1 = Some (word_of_nat (Suc ?n))"
      using word_of_nat_Suc [OF n] by simp
    have "consensus_pubkey_hash_to_address v (founder_key_hash h f) = 0" using key k by blast
    then show "consensus_pubkey_hash_to_address (recounted (word_of_nat ?n) v) (consensus_pubkey_hash env (fo_public_key f)) \<in> {0, ?a}"
      by (simp add: consensus_pubkey_hash_def founder_key_hash_def e)
    show "lc_registry_index (Active p) = Some (ucast (word_of_nat (Suc ?n) :: u32))"
      using n by (simp add: payload_views p ucast_of_nat del: of_nat_Suc)
    show "lc_consensus_pubkey (Active p) = Some (fo_public_key f)" by (simp add: payload_views p)
    have "slots v ?a = encode_lifecycle Absent" using view_slots [OF v [OF e], of ?a] absent by simp
    then show "slots (recounted (word_of_nat (Suc ?n)) (seed_founder h st (word_of_nat (Suc ?n)) f v)) =
        slots ((recounted (word_of_nat ?n) v)\<lparr>slots := (slots (recounted (word_of_nat ?n) v))(?a := encode_lifecycle (Active p)),
          address_to_index := (address_to_index (recounted (word_of_nat ?n) v))(?a := ucast (word_of_nat (Suc ?n) :: u32)),
          index_to_address := (index_to_address (recounted (word_of_nat ?n) v))(ucast (word_of_nat (Suc ?n) :: u32) := ?a),
          consensus_pubkey_hash_to_address := (consensus_pubkey_hash_to_address (recounted (word_of_nat ?n) v))
            (consensus_pubkey_hash env (fo_public_key f) := ?a), validator_count := word_of_nat (Suc ?n)\<rparr>)"
      by (simp add: seed_founder_def Let_def enc)
  qed (use n in \<open>simp_all add: seed_founder_def Let_def e consensus_pubkey_hash_def founder_key_hash_def ucast_of_nat del: of_nat_Suc\<close>)
  moreover have "\<exists>evs. lifecycle_run evs Absent ((L(?a := Active p)) b)" for b using run [of b] pr by auto
  moreover have "b \<in> fo_address ` set (past @ [f])" if "(L(?a := Active p)) b \<noteq> Absent" for b
    using old [of b] that by (auto split: if_splits)
  moreover have "reserved h dec (seed_founder h st (word_of_nat (Suc ?n)) f v)"
  proof -
    have "val_radicle_node_id v b \<noteq> fo_radicle_node_id f" for b using r rad [of b] by metis
    then show ?thesis unfolding seed_founder_def Let_def using r by (intro seed_reserved [OF res a0]) simp_all
  qed
  moreover have "val_radicle_node_id (seed_founder h st (word_of_nat (Suc ?n)) f v) b \<in> insert 0 (fo_radicle_node_id ` set (past @ [f]))" for b
    using rad [of b] by (auto simp: seed_founder_def Let_def)
  moreover have "q \<in> founder_key_hash h ` set (past @ [f])"
    if "consensus_pubkey_hash_to_address (seed_founder h st (word_of_nat (Suc ?n)) f v) q \<noteq> 0" for q
    using key [of q] that by (auto simp: seed_founder_def Let_def split: if_splits)
  moreover have len: "length (past @ [f]) = Suc ?n" by simp
  ultimately show ?thesis unfolding seeded_def len by (intro conjI exI [of _ "L(?a := Active p)"] allI impI) blast+
qed

lemma seed_founders_seeded:
  assumes "seeded h dec past v" "list_all founder_ok fs" "length past + length fs < 2 ^ 32"
    and "distinct (map fo_address (past @ fs))" "distinct (map fo_radicle_node_id (past @ fs))"
    and "0 \<notin> fo_radicle_node_id ` set fs" "distinct (map (founder_key_hash h) (past @ fs))"
  shows "seeded h dec (past @ fs) (seed_founders h st (word_of_nat (Suc (length past))) fs v)"
  using assms
proof (induction fs arbitrary: past v)
  case (Cons f fs)
  let ?w = "seed_founder h st (word_of_nat (Suc (length past))) f v"
  have "seeded h dec (past @ [f]) ?w" by (rule seed_founder_seeded [OF Cons.prems(1)]) (use Cons.prems in auto)
  then have "seeded h dec ((past @ [f]) @ fs) (seed_founders h st (word_of_nat (Suc (length (past @ [f])))) fs ?w)"
    by (rule Cons.IH) (use Cons.prems in auto)
  moreover have "(word_of_nat (Suc (length past)) + 1 :: u64) = word_of_nat (Suc (length (past @ [f])))" by simp
  ultimately show ?case by (simp del: of_nat_Suc)
qed simp

lemma key_hashes_distinct:
  assumes "founders_ok h fs"
  shows "distinct (map (founder_key_hash h) fs)"
proof -
  have "inj_on (\<lambda>pk :: ConsensusPubkey. be_bytes 48 (uint pk)) UNIV"
  proof (rule injI)
    fix x y :: ConsensusPubkey assume e: "be_bytes 48 (uint x) = be_bytes 48 (uint y)"
    have "uint x = uint y" using be_bytes_inj [OF e] uint_bounded [of x] uint_bounded [of y] by simp
    then show "x = y" by (simp add: word_uint_eq_iff)
  qed
  then have "distinct (map (\<lambda>f. be_bytes 48 (uint (fo_public_key f))) fs)"
    using assms by (auto simp: founders_ok_def distinct_map inj_on_def)
  then show ?thesis using assms by (auto simp: founders_ok_def founder_key_hash_def distinct_map inj_on_def)
qed

lemma seed_founders_count: "validator_count (seed_founders h st i fs v) = validator_count v"
  by (induction fs arbitrary: i v) (simp_all add: seed_founder_def Let_def)

lemma seed_sound:
  assumes "seed_validator_set h cfg st fs = Inr g" "founders_ok h fs"
  shows "vset_sound h dec g"
proof -
  let ?v = "seed_config cfg (word_of_nat (length fs))"
  from assms(1) have rad: "0 \<notin> fo_radicle_node_id ` set fs" "distinct (map fo_radicle_node_id fs)"
    and g: "g = seed_founders h st 1 fs ?v"
    by (auto simp: seed_validator_set_def list_ex_iff split: if_splits)
  have "registry_view env (recounted 0 ?v) (\<lambda>_. Absent)" for env
    by (rule view_cong [OF genesis_view [of _ "gc_owner cfg" "gc_max_validators cfg"]]) (simp_all add: seed_config_def vset_genesis_def)
  moreover have "reserved h dec ?v"
    by (simp add: reserved_def seed_config_def vset_genesis_def owns_def owns_keys_def)
  moreover have "\<exists>evs. lifecycle_run evs Absent Absent" using run_none by blast
  ultimately have "seeded h dec [] ?v" unfolding seeded_def
    by (intro conjI exI [of _ "\<lambda>_. Absent"]) (simp_all add: seed_config_def vset_genesis_def)
  from seed_founders_seeded [OF this, of fs st] assms(2) rad key_hashes_distinct [OF assms(2)]
  have "seeded h dec fs (seed_founders h st 1 fs ?v)" by (simp add: founders_ok_def)
  moreover have "recounted (word_of_nat (length fs)) (seed_founders h st 1 fs ?v) = seed_founders h st 1 fs ?v"
  proof -
    have "validator_count (seed_founders h st 1 fs ?v) = word_of_nat (length fs)"
      by (simp add: seed_founders_count seed_config_def)
    then show ?thesis by (cases "seed_founders h st 1 fs ?v") simp
  qed
  ultimately show ?thesis unfolding g vset_sound_def seeded_def by auto
qed

section \<open>Counting a missed block of a stranger\<close>

lemma missed_block_of_stranger:
  assumes v: "registry_view env v L" and absent: "L a = Absent"
  shows "\<exists>t. record_missed_block a \<lparr>store = v, budget = Suc n\<rparr> = (Inr (), t) \<and>
     validator_state env a (store t) = Inl (corrupt_state ''absent validator retains registry, stake, or lifecycle data'')"
proof -
  have sl: "slots v a = encode_lifecycle Absent" using view_slots [OF v, of a] absent by simp
  have i: "address_to_index v a = 0" using view_absent [OF v, of a] absent by simp
  have z: "val_missed_blocks (slots v a) = 0" by (simp add: sl empty_slots)
  show ?thesis
    by (simp add: record_missed_block_def prog_run z checked_add_def write_slot_def writeM_def update_slot_def validator_state_def
        decode_stored_def i sl empty_slots read_consensus_pubkey_def stored_stake_def stored_history_def ValidatorHistory_is_zero_def
        P2pInfo_decode_stored_def validate_hint_def nonzero_def Let_def REGISTERED_def ensure_def andThen_def)
qed

section \<open>A registration\<close>

lemma genesis_reads:
  "validator_state sample_env a (vset_genesis 1 10) = (Inr \<lparr>vs_address = a, vs_lifecycle = Absent\<rparr> :: (unit, ValidatorState) result)"
  "registered_count sample_env (vset_genesis 1 10) = (Inr 0 :: (unit, u32) result)"
  by (rule validator_state_view [OF genesis_view])
     (simp add: registered_count_def validator_addresses_matching_def registered_validator_addresses_def vset_genesis_def count_u32_def)

lemma be_int_zeros: "be_int (replicate n 0) = 0"
  by (induction n) (simp_all add: be_int_def)

lemma sample_waiting: "register \<lparr>vs_address = 9, vs_lifecycle = Absent\<rparr> 1 7 5 = (Inr \<lparr>vs_address = 9, vs_lifecycle = WaitingForStake (fresh_waiting 1 7 5)\<rparr> :: (unit, ValidatorState) result)"
  by (simp add: register_ok)

lemma sample_persist_registry:
  "\<exists>t. persist_registry_state_delta \<lparr>vs_address = 9, vs_lifecycle = Absent\<rparr>
     \<lparr>vs_address = 9, vs_lifecycle = WaitingForStake (fresh_waiting 1 7 5)\<rparr> \<lparr>store = v, budget = 57\<rparr> = (Inr (), t) \<and>
     budget t = 53 \<and> val_radicle_node_id (store t) = val_radicle_node_id v"
proof -
  have lv: "lc_validate Absent = (Inr () :: (unit, unit) result)"
    "lc_validate (WaitingForStake (fresh_waiting 1 7 5)) = (Inr () :: (unit, unit) result)"
    by (simp_all add: lc_validate_ok sample_validator_def fresh_waiting_def ValidatorHistory_fresh_def
        valid_lifecycle_def payload_views sample_stake_def StakeProjection_zero_def)
  note w = fresh_waiting_def ValidatorHistory_fresh_def StakeProjection_zero_def
  show ?thesis
    unfolding persist_registry_state_delta_def persist_validator_state_delta_inner_def persist_lifecycle_fields_def Let_def
    by (simp add: resultM_run lv [unfolded w] prog_run write_changed_def write_slot_def payload_views hist_or_zero_def deactivated_or_zero_def
        lc_bonded_stake_def lc_unbonding_end_hint_def p2p_stored_def w or_zero_def write_consensus_pubkey_def)
      (simp add: retM_def update_slot_def)
qed

lemma sample_register_first:
  "\<exists>t. register_first sample_env 9 7 4 0 \<lparr>vs_address = 9, vs_lifecycle = Absent\<rparr> \<lparr>store = vset_genesis 1 10, budget = 59\<rparr> = (Inr (), t) \<and>
     val_radicle_node_id (store t) 9 = 4"
proof -
  let ?v = "(vset_genesis 1 10)\<lparr>address_to_index := (address_to_index (vset_genesis 1 10))(9 := 1), index_to_address := (index_to_address (vset_genesis 1 10))(1 := 9)\<rparr>"
  from sample_persist_registry [of ?v] obtain t where t: "persist_registry_state_delta \<lparr>vs_address = 9, vs_lifecycle = Absent\<rparr>
     \<lparr>vs_address = 9, vs_lifecycle = WaitingForStake (fresh_waiting 1 7 5)\<rparr> \<lparr>store = ?v, budget = 57\<rparr> = (Inr (), t)" "budget t = 53" by blast
  have pb: "bindM (persist_registry_state_delta \<lparr>vs_address = 9, vs_lifecycle = Absent\<rparr>
     \<lparr>vs_address = 9, vs_lifecycle = WaitingForStake (fresh_waiting 1 7 5)\<rparr>) k \<lparr>store = ?v, budget = 57\<rparr> = k () t" for k :: "unit \<Rightarrow> unit vset_prog"
    by (simp add: bindM_def t(1))
  have g: "validator_count (vset_genesis 1 10) = 0" "config_max_validators (vset_genesis 1 10) = 10" by (simp_all add: vset_genesis_def)
  have e: "ve_block_number sample_env = 5" by (simp add: sample_env_def)
  show ?thesis
    unfolding register_first_def set_pending_def emit_vset_def
    by (simp add: prog_run g e checked_add_def resultM_run sample_waiting with_checkpoint_def pb t(2))
       (simp add: writeM_def t(2))
qed

lemma sample_registers:
  "\<exists>t. vset_run sample_registration \<lparr>store = vset_genesis 1 10, budget = 59\<rparr> = (Inr VNone, t) \<and> val_radicle_node_id (store t) 9 = 4"
proof -
  from sample_register_first obtain t where t: "register_first sample_env 9 7 4 0 \<lparr>vs_address = 9, vs_lifecycle = Absent\<rparr>
      \<lparr>store = vset_genesis 1 10, budget = 59\<rparr> = (Inr (), t)" "val_radicle_node_id (store t) 9 = 4" by blast
  have sig: "verify_bls_registration_sig sample_env 7 bs 9 4 = Inr ()" for bs
    by (simp add: verify_bls_registration_sig_def sample_env_def)
  have "register_validator_inner sample_env 9 9 7 4 (Some (replicate 96 1)) False \<lparr>store = vset_genesis 1 10, budget = 59\<rparr> = (Inr (), t)"
    unfolding register_validator_inner_def ensure_not_operational_delegate_def
    by (simp add: prog_run resultM_run readM_run sig genesis_reads t(1) MAX_SELF_REGISTERED_UNSTAKED_def payload_views)
       (simp add: vset_genesis_def sig t(1)) 
  then have "vset_run sample_registration \<lparr>store = vset_genesis 1 10, budget = 59\<rparr> = (Inr VNone, t)"
    by (simp add: sample_registration_def vset_dispatch_def prog_run register_call_def be_int_zeros register_validator_with_sig_def done_with_def)
       (simp add: with_checkpoint_def bindM_def retM_def)
  with t(2) show ?thesis by blast
qed

section \<open>Properties\<close>



text \<open>C30: in every reachable storage a consensus key, a Radicle node id, an OCOMP key and an operational key of a
  role belong to one validator only. The key hash is assumed not to collide on the founders' consensus keys and on the OCOMP keys
  of one import; for every other key the contract checks the stored hash itself.\<close>

theorem validator_keys_have_one_owner:
  assumes "seed_validator_set h cfg st fs = Inr g" "founders_ok h fs"
    and "contract_reach vset_run (message_ok h dec) g c" "ve_keccak env = h" "a \<noteq> b"
  shows "(\<forall>st st' :: ValidatorState. \<forall>pk. validator_state env a c = (Inr st :: (unit, ValidatorState) result) \<longrightarrow>
       validator_state env b c = (Inr st' :: (unit, ValidatorState) result) \<longrightarrow>
       lc_consensus_pubkey (vs_lifecycle st) = Some pk \<longrightarrow> lc_consensus_pubkey (vs_lifecycle st') \<noteq> Some pk) \<and>
     (val_radicle_node_id c a \<noteq> 0 \<longrightarrow> val_radicle_node_id c b \<noteq> val_radicle_node_id c a) \<and>
     (get_delegate a role c \<noteq> 0 \<longrightarrow> get_delegate b role c \<noteq> get_delegate a role c) \<and>
     (\<forall>reg reg'. val_ocomp_registration c a \<noteq> [] \<longrightarrow> val_ocomp_registration c b \<noteq> [] \<longrightarrow>
       dec (val_ocomp_registration c a) = Some reg \<longrightarrow> dec (val_ocomp_registration c b) = Some reg' \<longrightarrow>
       oc_public_key_sec1 reg \<noteq> oc_public_key_sec1 reg')"
proof -
  have "vset_sound (ve_keccak env) dec c" using lvset.reach_keeps [OF assms(3) seed_sound [OF assms(1,2)]] assms(4) by simp
  then obtain L where v: "registry_view env c L" and res: "reserved (ve_keccak env) dec c" by (rule sound_view) blast
  have key: "lc_consensus_pubkey (L b) \<noteq> Some pk" if "lc_consensus_pubkey (L a) = Some pk" for pk
    using v that assms(5) unfolding registry_view_def by metis
  have st: "validator_state env x c = (Inr \<lparr>vs_address = x, vs_lifecycle = L x\<rparr> :: (unit, ValidatorState) result)" for x
    by (rule validator_state_view [OF v])
  have rad: "val_radicle_node_id c a \<noteq> 0 \<longrightarrow> val_radicle_node_id c b \<noteq> val_radicle_node_id c a"
    using res assms(5) unfolding reserved_def owns_def by metis
  have del: "get_delegate a role c \<noteq> 0 \<longrightarrow> get_delegate b role c \<noteq> get_delegate a role c"
    using res assms(5) unfolding reserved_def owns_def get_delegate_def by metis
  have oc: "oc_public_key_sec1 reg \<noteq> oc_public_key_sec1 reg'" if "val_ocomp_registration c a \<noteq> []" "val_ocomp_registration c b \<noteq> []"
      "dec (val_ocomp_registration c a) = Some reg" "dec (val_ocomp_registration c b) = Some reg'" for reg reg'
    using res that assms(5) unfolding reserved_def owns_keys_def by (metis option.inject)
  show ?thesis using key rad del oc unfolding st by auto
qed

theorem validator_keys_have_one_owner_witness:
  "\<exists>t. vset_run sample_registration \<lparr>store = vset_genesis 1 10, budget = 59\<rparr> = (Inr VNone, t) \<and>
     val_radicle_node_id (store t) 9 = 4 \<and> val_radicle_node_id (store t) 8 \<noteq> 4"
proof -
  from sample_registers obtain t where t: "vset_run sample_registration \<lparr>store = vset_genesis 1 10, budget = 59\<rparr> = (Inr VNone, t)"
    "val_radicle_node_id (store t) 9 = 4" by blast
  have "contract_reach vset_run (message_ok (ve_keccak sample_env) (ocomp_decode sample_env)) (vset_genesis 1 10) (store t)"
    by (rule contract_reach.step [where call = sample_registration, OF contract_reach.start]) (use t(1) in \<open>simp_all add: sample_registration_def\<close>)
  moreover have "seed_validator_set (ve_keccak sample_env) sample_config 10 [] = Inr (vset_genesis 1 10)"
    by (simp add: seed_validator_set_def seed_config_def sample_config_def vset_genesis_def)
  moreover have "founders_ok (ve_keccak sample_env) []" by (simp add: founders_ok_def)
  ultimately show ?thesis using validator_keys_have_one_owner [of "ve_keccak sample_env" sample_config 10 "[]" "vset_genesis 1 10"
      "ocomp_decode sample_env" "store t" sample_env 9 8] t by auto
qed

end
