(* ===== verification/Spec2Isabelle.thy ===== *)
theory Spec2Isabelle
  imports
    Storage_Collections
    Policy_Registry
    Stablecoin_Payload
    Stablecoin_Spec
    Validator_Genesis
begin

text \<open>
  Verification of contracts of rudis, an EVM chain whose system contracts are Rust precompiles. All paths below are
  relative to \<open>src/\<close>.

  \<^bold>\<open>The program.\<close> A precompile reads and writes typed storage slots of its own address through a journal
  (\<open>crates/blockchain/primitives/src/storage\<close>). Every write costs gas and may be refused, a \<open>checkpoint_guard\<close>
  takes back the writes of a block of code that returns early, and the EVM takes back those of a call that fails. Three
  contracts are modelled whole: the stablecoin token (\<open>crates/core/stablecoin\<close>), the registry of transfer policies it
  consults (\<open>crates/core/stablecoinpolicy\<close>) and the validator set (\<open>crates/system/validatorset\<close>), with the
  storage collections, the canonical payload of a stablecoin and its address arithmetic, the codec of peer addresses and
  the genesis seeding of the validators.

  \<^bold>\<open>How a program is modelled.\<close> \<open>Prelude\<close> has the result type (\<open>Inl\<close> an error, \<open>Inr\<close> a value; \<open>Revert\<close> and \<open>Fatal\<close>
  are the two kinds of \<open>PrecompileError\<close>), checked word arithmetic, byte strings, and programs: functions from a
  \<open>journal\<close>, that is a contract storage and a number of writes that are still paid for, to a result and a journal. The
  budget stands for every reason for which the host refuses a write: a theorem about all budgets is one about a call that
  is interrupted at any write. \<open>with_checkpoint\<close> is the guard. \<open>atomic_prog\<close> says that a program that fails leaves the
  storage as it was, \<open>contract_reach\<close> is reachability through calls, failed ones included, and the locale
  \<open>atomic_contract\<close> carries an invariant from the successful calls to all reachable storages. It is interpreted on the
  token (\<open>ltoken\<close>) and on the validator set (\<open>lvset\<close>).

  \<^bold>\<open>The theories.\<close>

  \<^item> \<open>Storage_Collections\<close>: \<open>StorageSet\<close>, \<open>StorageVec\<close>, \<open>StorageDeque\<close>, \<open>StorageCircularBuffer\<close> and their
    siblings of \<open>storage/types\<close>, over slots of machine words. Lemmas: the set refines a mathematical set through fewer than
    \<open>2 ^ 32\<close> operations, the deque is a queue also where its indexes wrap around, the ring keeps the last pushes.
  \<^item> \<open>Policy_Registry\<close>: \<open>stablecoinpolicy/src\<close> (\<open>schema.rs\<close>, \<open>state.rs\<close>, \<open>api.rs\<close>, \<open>precompile.rs\<close>). The registry is a record of the schema;
    each handler is a program, \<open>registry_dispatch\<close> the call table. Lemmas: the storage invariant, authority of changes,
    decisions of whitelists, blacklists and directional policies, paging. The \<open>u32\<close> length of a member list is not checked
    by the source, so statements about reachable registries bound the number of successful \<open>addMembers\<close> calls, which add 64
    members at most, by \<open>2 ^ 26\<close>.
  \<^item> \<open>Stablecoin_Payload\<close>: \<open>primitives/src/stablecoin.rs\<close>: the canonical encoding of a creation request, currency tables
    and their binary search, token ids, predicted addresses, the gas budget.
  \<^item> \<open>Stablecoin_Token\<close>: \<open>stablecoin/src\<close>: the token record, roles, pausing, freezing, transfers, allowances, permits,
    minting and burning, the administrator handover, the call table \<open>token_dispatch\<close>. Signature recovery and hashing are
    parameters. \<open>Stablecoin_Ledger\<close> has the invariant of the books, \<open>Stablecoin_Spec\<close> the abstract token and the
    refinement, with the properties of transfers, mints, permits, pauses, handover and freezing.
  \<^item> \<open>Peer_Address\<close>: \<open>primitives/src/consensus_p2p.rs\<close>, encoder and decoder; the decoder accepts exactly the encodings of
    well-formed addresses.
  \<^item> \<open>Validator_Lifecycle\<close>: \<open>validatorset/src/state_machine\<close>: the states, the decoding of stored fields, every transition
    function, and \<open>lifecycle_step\<close>, the step relation they form, labelled with the amounts they store.
  \<^item> \<open>Validator_Set\<close>: \<open>schema.rs\<close> and the readers and writers of \<open>runtime.rs\<close>; \<open>registry_view\<close> is the abstraction
    from slots and indexes to one lifecycle per address.
  \<^item> \<open>Validator_Operations\<close>: the operations of \<open>runtime.rs\<close> and \<open>delegation.rs\<close>: registration, the stake mirror, recovery
    windows, readiness, exit, jail, boundary activation, counters, epochs, cleanup, operational keys. \<open>tracks\<close> says which
    transitions an operation may make; \<open>leads\<close> steps through a program from a known storage.
  \<^item> \<open>Validator_Contract\<close>: \<open>precompile.rs\<close>, \<open>hooks.rs\<close> and the messages: a call, or an operation that staking, slashing
    or the block executor performs; the effects of a boundary and of a cleanup.
  \<^item> \<open>Validator_Soundness\<close>: the invariant \<open>vset_sound\<close> of all messages, the refinement of the lifecycle machine, admission
    to the committee, boundary, cleanup, persistence, operational keys, the ring of recorded blocks.
  \<^item> \<open>Validator_Genesis\<close>: \<open>seed_validator_set\<close> of \<open>scripts/seed_genesis.py\<close>, and the invariant from there on.

  \<^bold>\<open>Loops.\<close> Loops over lists are recursion on the list. The \<open>while\<close> loop of the cleanup takes a bound on the evaluations of
  its guard and returns \<open>None\<close> when it uses them up; it is started with one more than there are entries, and
  \<open>cleanup_terminates\<close> shows that \<open>None\<close> does not occur. The binary search of the currency tables recurses on the size of
  the interval that is left.

  \<^bold>\<open>Assumptions.\<close> Keccak, ECDSA recovery, BLS verification and the OCOMP codec are arguments of the model. The theorems on
  keys assume that the hash does not collide on the consensus keys of the founders and on the OCOMP keys of one founder
  import, and that the OCOMP decoder inverts the encoder; nothing else is assumed of them. Error values keep their kind and
  their fixed text, not the numbers formatted into it; events keep their fields.

  \<^bold>\<open>Left out.\<close> The ABI codec (calls are a datatype), gas prices, the committee snapshots written beside a boundary, the
  factory that creates tokens through the EVM host, and the contracts and programs that are not named above. Operations of
  the validator set that only tests call are not messages; one of them, \<open>record_missed_block\<close>, would break the invariant
  (\<open>missed_block_of_stranger\<close>). What staking and slashing do to the validator set are messages with free arguments: the
  theorems hold whatever amounts they report.
\<close>

end
